(* ===== verification/Cm108_Prelude.thy ===== *)
theory Cm108_Prelude
  imports "HOL-Library.Word" "HOL-Library.Monad_Syntax"
begin

text \<open>
  Prelude of the development: the machine types of the Rust sources, the
  outcome of code that may panic, the two build profiles (overflow checks and
  debug assertions on or off), little-endian byte conversion
  (\<open>to_le_bytes\<close> and \<open>from_le_bytes\<close> of the Rust standard library), and the
  generic lemmas that every component uses.
\<close>

unbundle bit_operations_syntax

section \<open>Machine types\<close>

type_synonym u8 = "8 word"
type_synonym u16 = "16 word"
type_synonym u32 = "32 word"
type_synonym u64 = "64 word"
type_synonym i16 = "16 word"
type_synonym i32 = "32 word"
type_synonym bytes = "8 word list"

named_theorems layout "sizes, offsets and lengths of encoded values"
named_theorems outcome_simps "evaluation of computations that may panic"

section \<open>Panics and build profiles\<close>

text \<open>
  A Rust computation either returns or panics. The workspace's release profile
  turns overflow checks and \<open>debug_assert!\<close> off; the debug profile has both on.
\<close>

datatype 'a outcome = Returns 'a | Panics

datatype profile = Debug | Release

text \<open>
  A panic inside one of the program's threads: in the debug profile the thread unwinds
  and is gone, and the process goes on in the state \<open>x\<close> it leaves. The release profile of
  \<^verbatim>\<open>Cargo.toml\<close> has \<open>panic = "abort"\<close>: the whole process ends.
\<close>

definition thread_panic :: "profile \<Rightarrow> 'a \<Rightarrow> 'a outcome" where
  "thread_panic p x = (case p of Debug \<Rightarrow> Returns x | Release \<Rightarrow> Panics)"

lemma thread_panic_simps [simp]: "thread_panic Debug x = Returns x" "thread_panic Release x = Panics"
  by (simp_all add: thread_panic_def)

lemma thread_panic_Returns [simp]: "thread_panic p x = Returns y \<longleftrightarrow> p = Debug \<and> y = x"
  by (cases p) auto

primrec obind :: "'a outcome \<Rightarrow> ('a \<Rightarrow> 'b outcome) \<Rightarrow> 'b outcome" where
  "obind (Returns x) f = f x"
| "obind Panics f = Panics"

definition debug_assert :: "profile \<Rightarrow> bool \<Rightarrow> unit outcome" where
  "debug_assert p b = (if p = Debug \<and> \<not> b then Panics else Returns ())"

text \<open>\<open>a + b\<close> and \<open>a * b\<close> on unsigned integers: a panic on overflow in the
  debug profile, wrap-around in the release profile.\<close>

definition add_p :: "profile \<Rightarrow> 'a::len word \<Rightarrow> 'a word \<Rightarrow> 'a word outcome" where
  "add_p p a b =
     (if p = Debug \<and> 2 ^ LENGTH('a) \<le> unat a + unat b then Panics else Returns (a + b))"

definition mul_p :: "profile \<Rightarrow> 'a::len word \<Rightarrow> 'a word \<Rightarrow> 'a word outcome" where
  "mul_p p a b =
     (if p = Debug \<and> 2 ^ LENGTH('a) \<le> unat a * unat b then Panics else Returns (a * b))"

text \<open>\<open>a << n\<close>: the debug profile panics when \<open>n\<close> is not smaller than the
  width, the release profile masks the amount.\<close>

definition shl_p :: "profile \<Rightarrow> 'a::len word \<Rightarrow> nat \<Rightarrow> 'a word outcome" where
  "shl_p p a n =
     (if p = Debug \<and> LENGTH('a) \<le> n then Panics
      else Returns (push_bit (n mod LENGTH('a)) a))"

text \<open>Iterating a step that may panic.\<close>

primrec ofold :: "('s \<Rightarrow> 'x \<Rightarrow> 's outcome) \<Rightarrow> 's \<Rightarrow> 'x list \<Rightarrow> 's outcome" where
  "ofold f s [] = Returns s"
| "ofold f s (x # xs) = obind (f s x) (\<lambda>s'. ofold f s' xs)"

lemma concat_nth_const:
  assumes "\<And>xs. xs \<in> set xss \<Longrightarrow> length xs = k" "j < k * length xss"
  shows "concat xss ! j = xss ! (j div k) ! (j mod k)"
  using assms
proof (induction xss arbitrary: j)
  case (Cons xs xss)
  show ?case
  proof (cases "j < k")
    case False
    moreover have "0 < k" using Cons.prems(2) by (cases k) simp_all
    ultimately have "j div k = Suc ((j - k) div k)" "j mod k = (j - k) mod k"
      by (simp_all add: le_div_geq le_mod_geq)
    with False Cons show ?thesis by (simp add: nth_append)
  qed (use Cons.prems in \<open>simp add: nth_append\<close>)
qed simp

lemma obind_Returns_iff [simp]:
  "obind m f = Returns y \<longleftrightarrow> (\<exists>x. m = Returns x \<and> f x = Returns y)"
  by (cases m) auto

lemma debug_assert_true [outcome_simps]: "b \<Longrightarrow> debug_assert p b = Returns ()"
  by (simp add: debug_assert_def)

lemma add_p_small [outcome_simps]:
  fixes a b :: "'a::len word"
  assumes "unat a + unat b < 2 ^ LENGTH('a)"
  shows "add_p p a b = Returns (a + b)" and "unat (a + b) = unat a + unat b"
  using assms by (auto simp: add_p_def unat_word_ariths)

lemma mul_p_small [outcome_simps]:
  fixes a b :: "'a::len word"
  assumes "unat a * unat b < 2 ^ LENGTH('a)"
  shows "mul_p p a b = Returns (a * b)" and "unat (a * b) = unat a * unat b"
  using assms by (auto simp: mul_p_def unat_word_ariths)

lemma shl_p_small [outcome_simps]:
  "n < LENGTH('a) \<Longrightarrow> shl_p p (a :: 'a::len word) n = Returns (push_bit n a)"
  by (simp add: shl_p_def)

lemma ofold_append:
  "ofold f s (xs @ ys) = obind (ofold f s xs) (\<lambda>s'. ofold f s' ys)"
proof (induction xs arbitrary: s)
  case Nil
  show ?case by simp
next
  case (Cons x xs)
  then show ?case by (cases "f s x") simp_all
qed

text \<open>An invariant kept by every step that starts in it is kept by the loop, and
  the loop then never panics.\<close>

lemma ofold_invariant:
  assumes "P s"
    and "\<And>s x. P s \<Longrightarrow> x \<in> set xs \<Longrightarrow> \<exists>s'. f s x = Returns s' \<and> P s'"
  shows "\<exists>s'. ofold f s xs = Returns s' \<and> P s'"
  using assms
proof (induction xs arbitrary: s)
  case Nil
  then show ?case by simp
next
  case (Cons x xs)
  from Cons.prems obtain s1 where "f s x = Returns s1" "P s1"
    by (metis list.set_intros(1))
  with Cons.IH [of s1] Cons.prems(2) show ?case by (simp add: list.set_intros(2))
qed

lemma unat_of_nat_small [simp]: "n < 2 ^ LENGTH('a) \<Longrightarrow> unat (of_nat n :: 'a::len word) = n"
  by (simp add: unat_of_nat)

lemma length_filter_mono:
  "(\<And>x. P x \<Longrightarrow> Q x) \<Longrightarrow> length (filter P xs) \<le> length (filter Q xs)"
  by (induction xs) (auto intro: le_SucI)

section \<open>Input and output errors\<close>

text \<open>The kinds of \<open>std::io::Error\<close> the sources distinguish; any other carries the
  number of the operating system.\<close>

datatype ErrorKind = UnexpectedEof | WouldBlock | InvalidData | OtherKind nat

section \<open>Little-endian byte conversion\<close>

primrec le_bytes :: "nat \<Rightarrow> 'a::len word \<Rightarrow> bytes" where
  "le_bytes 0 w = []"
| "le_bytes (Suc n) w = ucast w # le_bytes n (drop_bit 8 w)"

primrec of_le_bytes :: "bytes \<Rightarrow> 'a::len word" where
  "of_le_bytes [] = 0"
| "of_le_bytes (b # bs) = ucast b OR push_bit 8 (of_le_bytes bs)"

lemma length_le_bytes [simp, layout]: "length (le_bytes n w) = n"
  by (induction n arbitrary: w) simp_all

lemma of_le_bytes_le_bytes_take:
  "of_le_bytes (le_bytes n (w :: 'a::len word)) = take_bit (8 * n) w"
proof (induction n arbitrary: w)
  case 0
  then show ?case by simp
next
  case (Suc n)
  show ?case
    by (rule bit_word_eqI)
      (auto simp: Suc.IH bit_or_iff bit_push_bit_iff bit_take_bit_iff bit_drop_bit_eq bit_ucast_iff
        not_le)
qed

lemma of_le_bytes_le_bytes [simp]:
  fixes w :: "'a::len word"
  assumes "LENGTH('a) \<le> 8 * n"
  shows "of_le_bytes (le_bytes n w) = w"
  using assms by (auto simp: of_le_bytes_le_bytes_take bit_take_bit_iff intro!: bit_word_eqI)

lemma bit_of_le_bytes_bound:
  "bit (of_le_bytes bs :: 'a::len word) i \<Longrightarrow> i < 8 * length bs"
proof (induction bs arbitrary: i)
  case Nil
  then show ?case by simp
next
  case (Cons b bs)
  show ?case
  proof (cases "i < 8")
    case False
    then have "\<not> bit b i" using bit_imp_le_length [of b i] by auto
    with False Cons.prems have "bit (of_le_bytes bs :: 'a word) (i - 8)"
      by (auto simp: bit_or_iff bit_push_bit_iff bit_ucast_iff)
    with Cons.IH show ?thesis by fastforce
  qed simp
qed

lemma le_bytes_of_le_bytes:
  assumes "8 * length bs \<le> LENGTH('a::len)"
  shows "le_bytes (length bs) (of_le_bytes bs :: 'a word) = bs"
  using assms
proof (induction bs)
  case Nil
  then show ?case by simp
next
  case (Cons b bs)
  have lo: "ucast (of_le_bytes (b # bs) :: 'a word) = b"
    using Cons.prems
    by (intro bit_word_eqI) (auto simp: bit_or_iff bit_push_bit_iff bit_ucast_iff)
  have hi: "drop_bit 8 (of_le_bytes (b # bs) :: 'a word) = of_le_bytes bs"
  proof (rule bit_word_eqI)
    fix n assume "n < LENGTH('a)"
    show "bit (drop_bit 8 (of_le_bytes (b # bs) :: 'a word)) n = bit (of_le_bytes bs :: 'a word) n"
      using Cons.prems bit_of_le_bytes_bound [of bs n, where 'a = 'a]
      by (auto simp: bit_or_iff bit_push_bit_iff bit_drop_bit_eq bit_ucast_iff)
        (use bit_imp_le_length in force)+
  qed
  from Cons lo hi show ?case by simp
qed

end
