(* ===== verification/Cm108_Types.thy ===== *)
theory Cm108_Types
  imports Cm108_Prelude
begin

text \<open>
  The shared types of \<^verbatim>\<open>crates/cm108-types/src/lib.rs\<close>: USB constants,
  \<open>AudioFrame\<close>, \<open>GpioState\<close>, \<open>RadioEvent\<close>, \<open>LatencyStats\<close>, \<open>StreamFlags\<close>
  and the two message types of the IPC protocol. Newtype structs are one
  constructor datatypes, a fixed-size array is a list whose length is a
  well-formedness predicate (\<open>frame_ok\<close>), a Rust \<open>String\<close> is its bytes, which
  are always valid UTF-8 (\<open>utf8_valid\<close>, the acceptance condition of
  \<open>std::str::from_utf8\<close>).
\<close>

section \<open>Constants\<close>

definition CM108_VID :: u16 where "CM108_VID = 0x0d8c"

definition CM108_PIDS :: "u16 list" where
  "CM108_PIDS = [0x001f, 0x0105, 0x0107, 0x010f, 0x0115, 0x013a, 0x013c]"

definition IFACE_AUDIO_CTRL :: u8 where "IFACE_AUDIO_CTRL = 0"
definition IFACE_AUDIO_OUT :: u8 where "IFACE_AUDIO_OUT = 1"
definition IFACE_AUDIO_IN :: u8 where "IFACE_AUDIO_IN = 2"
definition IFACE_HID :: u8 where "IFACE_HID = 3"
definition EP_ISO_OUT :: u8 where "EP_ISO_OUT = 0x01"
definition EP_ISO_IN :: u8 where "EP_ISO_IN = 0x82"
definition EP_HID_IN :: u8 where "EP_HID_IN = 0x87"

definition FRAME_BYTES :: nat where "FRAME_BYTES = 192"
definition SAMPLES_PER_FRAME :: nat where "SAMPLES_PER_FRAME = 48"

section \<open>Audio frames, GPIO state, events\<close>

datatype AudioFrame = AudioFrame (samples: "i16 list")

definition AudioFrame_default :: AudioFrame where
  "AudioFrame_default = AudioFrame (replicate (SAMPLES_PER_FRAME * 2) 0)"

definition frame_ok :: "AudioFrame \<Rightarrow> bool" where
  "frame_ok f \<longleftrightarrow> length (samples f) = SAMPLES_PER_FRAME * 2"

datatype GpioState = GpioState (gpio_bits: u8)

definition pin :: "profile \<Rightarrow> GpioState \<Rightarrow> u8 \<Rightarrow> bool outcome" where
  "pin p g n =
     obind (debug_assert p (n < 4)) (\<lambda>_.
     obind (shl_p p (1 :: u8) (unat n)) (\<lambda>m.
     Returns (gpio_bits g AND m \<noteq> 0)))"

datatype RadioEvent =
    PttAssert
  | PttDeassert
  | CosActive
  | CosInactive
  | GpioChange GpioState

record LatencyStats =
  min_us :: u32
  max_us :: u32
  p99_us :: u32

definition LatencyStats_default :: LatencyStats where
  "LatencyStats_default = \<lparr>min_us = 0, max_us = 0, p99_us = 0\<rparr>"

section \<open>Subscription flags\<close>

datatype StreamFlags = StreamFlags (flag_bits: u8)

definition AUDIO_IN :: StreamFlags where "AUDIO_IN = StreamFlags 1"
definition AUDIO_OUT :: StreamFlags where "AUDIO_OUT = StreamFlags 2"
definition GPIO_EVENTS :: StreamFlags where "GPIO_EVENTS = StreamFlags 4"

definition flags_empty :: StreamFlags where "flags_empty = StreamFlags 0"

definition contains :: "StreamFlags \<Rightarrow> StreamFlags \<Rightarrow> bool" where
  "contains s other \<longleftrightarrow> flag_bits s AND flag_bits other = flag_bits other"

definition from_bits_truncate :: "u8 \<Rightarrow> StreamFlags" where
  "from_bits_truncate v = StreamFlags (v AND 7)"

definition bitor :: "StreamFlags \<Rightarrow> StreamFlags \<Rightarrow> StreamFlags" where
  "bitor s rhs = StreamFlags (flag_bits s OR flag_bits rhs)"

section \<open>Strings\<close>

type_synonym rstring = bytes

definition cont_byte :: "u8 \<Rightarrow> bool" where
  "cont_byte b \<longleftrightarrow> 0x80 \<le> b \<and> b \<le> 0xBF"

text \<open>The second byte allowed after a three-byte and a four-byte lead byte: no
  overlong forms, no surrogates, nothing above U+10FFFF.\<close>

definition second3 :: "u8 \<Rightarrow> u8 \<Rightarrow> bool" where
  "second3 b0 b1 \<longleftrightarrow>
     (if b0 = 0xE0 then 0xA0 \<le> b1 \<and> b1 \<le> 0xBF
      else if b0 = 0xED then 0x80 \<le> b1 \<and> b1 \<le> 0x9F
      else cont_byte b1)"

definition second4 :: "u8 \<Rightarrow> u8 \<Rightarrow> bool" where
  "second4 b0 b1 \<longleftrightarrow>
     (if b0 = 0xF0 then 0x90 \<le> b1 \<and> b1 \<le> 0xBF
      else if b0 = 0xF4 then 0x80 \<le> b1 \<and> b1 \<le> 0x8F
      else cont_byte b1)"

fun utf8_valid :: "bytes \<Rightarrow> bool" where
  "utf8_valid [] = True"
| "utf8_valid (b0 # bs) =
     (if b0 < 0x80 then utf8_valid bs
      else if 0xC2 \<le> b0 \<and> b0 \<le> 0xDF then
        (case bs of b1 # bs1 \<Rightarrow> cont_byte b1 \<and> utf8_valid bs1 | _ \<Rightarrow> False)
      else if 0xE0 \<le> b0 \<and> b0 \<le> 0xEF then
        (case bs of b1 # b2 # bs2 \<Rightarrow> second3 b0 b1 \<and> cont_byte b2 \<and> utf8_valid bs2
         | _ \<Rightarrow> False)
      else if 0xF0 \<le> b0 \<and> b0 \<le> 0xF4 then
        (case bs of b1 # b2 # b3 # bs3 \<Rightarrow>
           second4 b0 b1 \<and> cont_byte b2 \<and> cont_byte b3 \<and> utf8_valid bs3
         | _ \<Rightarrow> False)
      else False)"

section \<open>IPC messages\<close>

datatype ClientMsg =
    Subscribe (streams: StreamFlags)
  | SetGpio (gpio_pin: u8) (gpio_high: bool)
  | AudioWrite (frames: "AudioFrame list")
  | Ping
  | GetStats

datatype ServerMsg =
    AudioReady (ready_seq: u64)
  | RadioEv RadioEvent
  | Stats (st_rx_xruns: u64) (st_tx_xruns: u64) (st_dispatch_lat: LatencyStats)
  | Pong
  | ErrorMsg rstring

section \<open>Lemmas\<close>

lemmas frame_consts [layout] = FRAME_BYTES_def SAMPLES_PER_FRAME_def

lemma frame_ok_iff [layout]: "frame_ok f \<longleftrightarrow> length (samples f) = 96"
  by (simp add: frame_ok_def layout)

lemma frame_ok_default [simp]: "frame_ok AudioFrame_default"
  by (simp add: frame_ok_def AudioFrame_default_def)

text \<open>On the four GPIO pins of the chip, \<open>pin\<close> reads the bit and does not panic
  in either profile.\<close>

lemma pin_bit [outcome_simps]:
  assumes "n < 4"
  shows "pin p g n = Returns (bit (gpio_bits g) (unat n))"
proof -
  have n: "unat n < 4"
    using assms unat_mono [of n 4] by simp
  then have "(gpio_bits g AND push_bit (unat n) 1 \<noteq> 0) = bit (gpio_bits g) (unat n)"
    by (simp add: bit_iff_and_push_bit_not_eq_0)
  with n assms show ?thesis by (simp add: pin_def outcome_simps)
qed

lemma contains_bits:
  "contains s other \<longleftrightarrow> (\<forall>i. bit (flag_bits other) i \<longrightarrow> bit (flag_bits s) i)"
  using bit_imp_le_length [of "flag_bits other"]
  by (auto simp: contains_def bit_eq_iff bit_and_iff)

lemma contains_flags:
  "contains s AUDIO_IN \<longleftrightarrow> bit (flag_bits s) 0"
  "contains s GPIO_EVENTS \<longleftrightarrow> bit (flag_bits s) 2"
proof -
  have "bit (1 :: u8) i \<longleftrightarrow> i = 0" "bit (4 :: u8) i \<longleftrightarrow> i = 2" for i
    using bit_2_iff [of i] bit_exp_iff [of 2 i, where 'a = u8] by (auto simp: bit_1_iff)
  then show "contains s AUDIO_IN \<longleftrightarrow> bit (flag_bits s) 0"
    and "contains s GPIO_EVENTS \<longleftrightarrow> bit (flag_bits s) 2"
    by (auto simp: contains_bits AUDIO_IN_def GPIO_EVENTS_def)
qed

lemma contains_bitor: "contains a c \<Longrightarrow> contains (bitor a b) c"
  by (auto simp: contains_bits bitor_def bit_or_iff)

lemma utf8_valid_ascii: "\<forall>b \<in> set bs. b < 0x80 \<Longrightarrow> utf8_valid bs"
  by (induction bs) auto

end
