(* ===== verification/Cm108_Codec.thy ===== *)
theory Cm108_Codec
  imports Cm108_Types
begin

text \<open>
  The wire codec of \<^verbatim>\<open>crates/cm108-types/src/codec.rs\<close>. An encoder appends to a
  byte buffer, as \<open>Encode::encode\<close> does; a decoder returns the value and the
  unconsumed bytes, as \<open>Decode::decode\<close> does, with \<open>None\<close> where the Rust code
  returns \<open>None\<close> (the \<open>?\<close> operator is the bind of the option monad).
  The locale \<open>wire_codec\<close> states what the framing layer relies on; each message
  type interprets it, and the length-prefixed framing is proved once in it.
\<close>

section \<open>Primitive writers and readers\<close>

definition push_u8 :: "bytes \<Rightarrow> u8 \<Rightarrow> bytes" where
  "push_u8 buf v = buf @ [v]"

definition push_u16 :: "bytes \<Rightarrow> u16 \<Rightarrow> bytes" where
  "push_u16 buf v = buf @ le_bytes 2 v"

definition push_u32 :: "bytes \<Rightarrow> u32 \<Rightarrow> bytes" where
  "push_u32 buf v = buf @ le_bytes 4 v"

definition push_u64 :: "bytes \<Rightarrow> u64 \<Rightarrow> bytes" where
  "push_u64 buf v = buf @ le_bytes 8 v"

text \<open>\<open>bytes.len() as u16\<close> truncates: \<open>of_nat\<close> is taken modulo \<open>2^16\<close>.\<close>

definition push_str :: "bytes \<Rightarrow> rstring \<Rightarrow> bytes" where
  "push_str buf s = push_u16 buf (of_nat (length s)) @ s"

fun read_u8 :: "bytes \<Rightarrow> (u8 \<times> bytes) option" where
  "read_u8 [] = None"
| "read_u8 (b # rest) = Some (b, rest)"

definition read_u16 :: "bytes \<Rightarrow> (u16 \<times> bytes) option" where
  "read_u16 buf = (if length buf < 2 then None else Some (of_le_bytes (take 2 buf), drop 2 buf))"

definition read_u32 :: "bytes \<Rightarrow> (u32 \<times> bytes) option" where
  "read_u32 buf = (if length buf < 4 then None else Some (of_le_bytes (take 4 buf), drop 4 buf))"

definition read_u64 :: "bytes \<Rightarrow> (u64 \<times> bytes) option" where
  "read_u64 buf = (if length buf < 8 then None else Some (of_le_bytes (take 8 buf), drop 8 buf))"

definition read_str :: "bytes \<Rightarrow> (rstring \<times> bytes) option" where
  "read_str buf = do {
     (len16, rest) \<leftarrow> read_u16 buf;
     let len = unat len16;
     if length rest < len then None
     else if utf8_valid (take len rest) then Some (take len rest, drop len rest)
     else None }"

section \<open>The Encode and Decode traits\<close>

type_synonym 'a encoder = "'a \<Rightarrow> bytes \<Rightarrow> bytes"
type_synonym 'a decoder = "bytes \<Rightarrow> ('a \<times> bytes) option"

definition to_vec :: "'a encoder \<Rightarrow> 'a \<Rightarrow> bytes" where
  "to_vec enc x = enc x []"

definition from_bytes :: "'a decoder \<Rightarrow> bytes \<Rightarrow> 'a option" where
  "from_bytes dec buf = do { (val, rest) \<leftarrow> dec buf; Some val }"

section \<open>Encoders and decoders of the field types\<close>

definition encode_StreamFlags :: "StreamFlags encoder" where
  "encode_StreamFlags s buf = push_u8 buf (flag_bits s)"

definition decode_StreamFlags :: "StreamFlags decoder" where
  "decode_StreamFlags buf = do { (b, rest) \<leftarrow> read_u8 buf; Some (from_bits_truncate b, rest) }"

definition encode_GpioState :: "GpioState encoder" where
  "encode_GpioState g buf = push_u8 buf (gpio_bits g)"

definition decode_GpioState :: "GpioState decoder" where
  "decode_GpioState buf = do { (b, rest) \<leftarrow> read_u8 buf; Some (GpioState b, rest) }"

definition encode_LatencyStats :: "LatencyStats encoder" where
  "encode_LatencyStats l buf =
     push_u32 (push_u32 (push_u32 buf (min_us l)) (max_us l)) (p99_us l)"

definition decode_LatencyStats :: "LatencyStats decoder" where
  "decode_LatencyStats buf0 = do {
     (mi, buf1) \<leftarrow> read_u32 buf0;
     (ma, buf2) \<leftarrow> read_u32 buf1;
     (p, buf3) \<leftarrow> read_u32 buf2;
     Some (\<lparr>min_us = mi, max_us = ma, p99_us = p\<rparr>, buf3) }"

fun encode_RadioEvent :: "RadioEvent encoder" where
  "encode_RadioEvent PttAssert buf = push_u8 buf 0"
| "encode_RadioEvent PttDeassert buf = push_u8 buf 1"
| "encode_RadioEvent CosActive buf = push_u8 buf 2"
| "encode_RadioEvent CosInactive buf = push_u8 buf 3"
| "encode_RadioEvent (GpioChange g) buf = encode_GpioState g (push_u8 buf 4)"

definition decode_RadioEvent :: "RadioEvent decoder" where
  "decode_RadioEvent buf = do {
     (tag, rest) \<leftarrow> read_u8 buf;
     if tag = 0 then Some (PttAssert, rest)
     else if tag = 1 then Some (PttDeassert, rest)
     else if tag = 2 then Some (CosActive, rest)
     else if tag = 3 then Some (CosInactive, rest)
     else if tag = 4 then do { (g, rest') \<leftarrow> decode_GpioState rest; Some (GpioChange g, rest') }
     else None }"

text \<open>\<open>(s & 0xff) as u8\<close> and \<open>((s >> 8) & 0xff) as u8\<close> on an \<open>i16\<close>, whose
  right shift is arithmetic.\<close>

definition sample_bytes :: "i16 \<Rightarrow> bytes" where
  "sample_bytes s = [ucast (s AND 0xff), ucast (signed_drop_bit 8 s AND 0xff)]"

definition encode_AudioFrame :: "AudioFrame encoder" where
  "encode_AudioFrame f buf = fold (\<lambda>s b. b @ sample_bytes s) (samples f) buf"

definition decode_AudioFrame :: "AudioFrame decoder" where
  "decode_AudioFrame buf =
     (if length buf < FRAME_BYTES then None
      else Some (AudioFrame (map (\<lambda>i. ucast (buf ! (i * 2)) OR push_bit 8 (ucast (buf ! (i * 2 + 1))))
                   [0..<SAMPLES_PER_FRAME * 2]),
                 drop FRAME_BYTES buf))"

section \<open>Messages\<close>

fun encode_ClientMsg :: "ClientMsg encoder" where
  "encode_ClientMsg (Subscribe st) buf = encode_StreamFlags st (push_u8 buf 0)"
| "encode_ClientMsg (SetGpio p h) buf = push_u8 (push_u8 (push_u8 buf 1) p) (if h then 1 else 0)"
| "encode_ClientMsg (AudioWrite fs) buf =
     fold encode_AudioFrame fs (push_u32 (push_u8 buf 2) (of_nat (length fs)))"
| "encode_ClientMsg Ping buf = push_u8 buf 3"
| "encode_ClientMsg GetStats buf = push_u8 buf 4"

text \<open>The \<open>for _ in 0..frame_count\<close> loop of the decoder.\<close>

fun decode_frames :: "nat \<Rightarrow> AudioFrame list decoder" where
  "decode_frames 0 rest = Some ([], rest)"
| "decode_frames (Suc n) rest = do {
     (frame, r) \<leftarrow> decode_AudioFrame rest;
     (fs, r') \<leftarrow> decode_frames n r;
     Some (frame # fs, r') }"

definition decode_ClientMsg :: "ClientMsg decoder" where
  "decode_ClientMsg buf = do {
     (tag, rest) \<leftarrow> read_u8 buf;
     if tag = 0 then do { (st, rest') \<leftarrow> decode_StreamFlags rest; Some (Subscribe st, rest') }
     else if tag = 1 then do {
       (p, rest1) \<leftarrow> read_u8 rest;
       (h, rest2) \<leftarrow> read_u8 rest1;
       Some (SetGpio p (h \<noteq> 0), rest2) }
     else if tag = 2 then do {
       (frame_count, rest1) \<leftarrow> read_u32 rest;
       if frame_count > 65536 then None
       else do {
         (fs, rest2) \<leftarrow> decode_frames (unat frame_count) rest1;
         Some (AudioWrite fs, rest2) } }
     else if tag = 3 then Some (Ping, rest)
     else if tag = 4 then Some (GetStats, rest)
     else None }"

fun encode_ServerMsg :: "ServerMsg encoder" where
  "encode_ServerMsg (AudioReady sq) buf = push_u64 (push_u8 buf 0) sq"
| "encode_ServerMsg (RadioEv ev) buf = encode_RadioEvent ev (push_u8 buf 1)"
| "encode_ServerMsg (Stats rx tx lat) buf =
     encode_LatencyStats lat (push_u64 (push_u64 (push_u8 buf 2) rx) tx)"
| "encode_ServerMsg Pong buf = push_u8 buf 3"
| "encode_ServerMsg (ErrorMsg s) buf = push_str (push_u8 buf 4) s"

definition decode_ServerMsg :: "ServerMsg decoder" where
  "decode_ServerMsg buf = do {
     (tag, rest) \<leftarrow> read_u8 buf;
     if tag = 0 then do { (sq, rest') \<leftarrow> read_u64 rest; Some (AudioReady sq, rest') }
     else if tag = 1 then do { (ev, rest') \<leftarrow> decode_RadioEvent rest; Some (RadioEv ev, rest') }
     else if tag = 2 then do {
       (rx, rest1) \<leftarrow> read_u64 rest;
       (tx, rest2) \<leftarrow> read_u64 rest1;
       (lat, rest3) \<leftarrow> decode_LatencyStats rest2;
       Some (Stats rx tx lat, rest3) }
     else if tag = 3 then Some (Pong, rest)
     else if tag = 4 then do { (s, rest') \<leftarrow> read_str rest; Some (ErrorMsg s, rest') }
     else None }"

section \<open>Length-prefixed framing\<close>

definition to_framed :: "'a encoder \<Rightarrow> 'a \<Rightarrow> bytes" where
  "to_framed enc msg =
     (let payload = to_vec enc msg in le_bytes 4 (of_nat (length payload) :: u32) @ payload)"

definition from_framed :: "'a decoder \<Rightarrow> 'a decoder" where
  "from_framed dec buf = do {
     (len32, rest) \<leftarrow> read_u32 buf;
     let len = unat len32;
     if length rest < len then None
     else do {
       (val, _) \<leftarrow> dec (take len rest);
       Some (val, drop len rest) } }"

section \<open>Well-formed messages\<close>

text \<open>The values the protocol can carry: only the three stream bits, at most 65536
  frames of 96 samples, and error strings whose length fits the 16-bit prefix.\<close>

definition flags_ok :: "StreamFlags \<Rightarrow> bool" where
  "flags_ok s \<longleftrightarrow> flag_bits s AND 7 = flag_bits s"

fun client_msg_ok :: "ClientMsg \<Rightarrow> bool" where
  "client_msg_ok (Subscribe st) = flags_ok st"
| "client_msg_ok (AudioWrite fs) = (length fs \<le> 65536 \<and> list_all frame_ok fs)"
| "client_msg_ok _ = True"

fun server_msg_ok :: "ServerMsg \<Rightarrow> bool" where
  "server_msg_ok (ErrorMsg s) = (utf8_valid s \<and> length s < 65536)"
| "server_msg_ok _ = True"

text \<open>A decoder is local when its result depends on the bytes it consumes only.\<close>

definition local_dec :: "'a decoder \<Rightarrow> bool" where
  "local_dec dec \<longleftrightarrow>
     (\<forall>buf x rest. dec buf = Some (x, rest) \<longrightarrow>
        (\<exists>u. buf = u @ rest \<and> (\<forall>more. dec (u @ more) = Some (x, more))))"

section \<open>Interface of a message type\<close>

locale wire_codec =
  fixes enc :: "'a encoder"
    and dec :: "'a decoder"
    and ok :: "'a \<Rightarrow> bool"
  assumes enc_append: "enc x buf = buf @ enc x []"
    and dec_enc: "ok x \<Longrightarrow> dec (enc x [] @ rest) = Some (x, rest)"
    and dec_local: "local_dec dec"
    and dec_ok: "dec buf = Some (x, rest) \<Longrightarrow> ok x"
    and dec_length: "dec buf = Some (x, rest) \<Longrightarrow> length buf = length (enc x []) + length rest"
    and enc_nonempty: "enc x [] \<noteq> []"
begin

lemma from_bytes_to_vec: "ok x \<Longrightarrow> from_bytes dec (to_vec enc x) = Some x"
  using dec_enc [of x "[]"] by (simp add: from_bytes_def to_vec_def)

lemma dec_consumes:
  assumes "dec buf = Some (x, rest)"
  shows "\<exists>u. u \<noteq> [] \<and> buf = u @ rest \<and> length u = length (to_vec enc x) \<and>
    (\<forall>more. dec (u @ more) = Some (x, more))"
proof -
  from dec_local assms obtain u where u: "buf = u @ rest" "\<forall>more. dec (u @ more) = Some (x, more)"
    unfolding local_dec_def by blast
  moreover from dec_length [OF assms] u(1) have "length u = length (enc x [])" by simp
  ultimately show ?thesis using enc_nonempty [of x] by (auto simp: to_vec_def)
qed

text \<open>Encodings form a uniquely decodable, prefix-free code on the values allowed.\<close>

lemma enc_prefix_free:
  assumes "ok x" "ok y" "to_vec enc x @ r = to_vec enc y @ r'"
  shows "x = y \<and> r = r'"
proof -
  from assms(3) have "dec (enc x [] @ r) = dec (enc y [] @ r')" by (simp only: to_vec_def)
  then show ?thesis using assms(1,2) by (simp only: dec_enc option.inject prod.inject)
qed

lemma encs_injective:
  assumes "list_all ok xs" "list_all ok ys"
    and "concat (map (to_vec enc) xs) = concat (map (to_vec enc) ys)"
  shows "xs = ys"
  using assms
proof (induction xs arbitrary: ys)
  case Nil
  with enc_nonempty show ?case by (cases ys) (simp_all add: to_vec_def)
next
  case (Cons x xs)
  note prems = Cons.prems
  show ?case
  proof (cases ys)
    case Nil
    with prems(3) enc_nonempty [of x] show ?thesis by (simp add: to_vec_def)
  next
    case (Cons y zs)
    with prems have "x = y \<and> concat (map (to_vec enc) xs) = concat (map (to_vec enc) zs)"
      by (intro enc_prefix_free) simp_all
    with Cons.IH [of zs] prems Cons show ?thesis by simp
  qed
qed

lemma dec_stable: "dec buf = Some (x, rest) \<Longrightarrow> dec (to_vec enc x) = Some (x, [])"
  using dec_enc [of x "[]"] dec_ok by (simp add: to_vec_def)

lemma from_framed_to_framed:
  assumes "ok x" "length (to_vec enc x) < 2 ^ 32"
  shows "from_framed dec (to_framed enc x @ rest) = Some (x, rest)"
proof -
  have "unat (of_nat (length (to_vec enc x)) :: u32) = length (to_vec enc x)"
    using assms(2) by (simp add: unat_of_nat_small)
  then show ?thesis
    using dec_enc [OF assms(1), of "[]"]
    by (simp add: from_framed_def to_framed_def Let_def read_u32_def to_vec_def)
qed

end

section \<open>Round trips of the primitives\<close>

named_theorems reads "decoding what was just encoded"

lemma push_append:
  "push_u8 buf v = buf @ push_u8 [] v" "push_u16 buf w = buf @ push_u16 [] w"
  "push_u32 buf d = buf @ push_u32 [] d" "push_u64 buf q = buf @ push_u64 [] q"
  "push_str buf s = buf @ push_str [] s"
  by (simp_all add: push_u8_def push_u16_def push_u32_def push_u64_def push_str_def)

lemma length_push [layout]:
  "length (push_u8 buf v) = length buf + 1" "length (push_u16 buf w) = length buf + 2"
  "length (push_u32 buf d) = length buf + 4" "length (push_u64 buf q) = length buf + 8"
  "length (push_str buf s) = length buf + 2 + length s"
  by (simp_all add: push_u8_def push_u16_def push_u32_def push_u64_def push_str_def)

lemma read_push [reads]:
  "read_u16 (le_bytes 2 w @ rest) = Some (w, rest)"
  "read_u32 (le_bytes 4 d @ rest) = Some (d, rest)"
  "read_u64 (le_bytes 8 q @ rest) = Some (q, rest)"
  by (simp_all add: read_u16_def read_u32_def read_u64_def)

lemma read_str_push [reads]:
  assumes "utf8_valid s" "length s < 65536"
  shows "read_str (push_str [] s @ rest) = Some (s, rest)"
proof -
  have "unat (of_nat (length s) :: u16) = length s"
    using assms(2) by (simp add: unat_of_nat_small)
  with assms show ?thesis
    by (simp add: read_str_def push_str_def push_u16_def reads Let_def)
qed

lemmas push_defs = push_u8_def push_u16_def push_u32_def push_u64_def

section \<open>Local decoders compose\<close>

named_theorems localI "building local decoders"

lemma local_decI:
  assumes "\<And>buf x rest. dec buf = Some (x, rest) \<Longrightarrow>
    \<exists>u. buf = u @ rest \<and> (\<forall>more. dec (u @ more) = Some (x, more))"
  shows "local_dec dec"
  using assms by (simp add: local_dec_def)

lemma local_return [localI]: "local_dec (\<lambda>buf. Some (x, buf))"
  by (simp add: local_dec_def)

lemma local_fail [localI]: "local_dec (\<lambda>buf. None)"
  by (simp add: local_dec_def)

lemma local_if [localI]:
  "local_dec d1 \<Longrightarrow> local_dec d2 \<Longrightarrow> local_dec (\<lambda>buf. if b then d1 buf else d2 buf)"
  by (cases b) simp_all

lemma local_bind [localI]:
  assumes d: "local_dec d" and f: "\<And>x. local_dec (f x)"
  shows "local_dec (\<lambda>buf. d buf \<bind> (\<lambda>(x, rest). f x rest))"
proof (rule local_decI)
  fix buf y rest
  assume "d buf \<bind> (\<lambda>(x, rest). f x rest) = Some (y, rest)"
  then obtain x r where x: "d buf = Some (x, r)" and y: "f x r = Some (y, rest)"
    by (auto simp: bind_eq_Some_conv)
  from d x obtain u where u: "buf = u @ r" "\<forall>more. d (u @ more) = Some (x, more)"
    unfolding local_dec_def by blast
  from f y obtain v where v: "r = v @ rest" "\<forall>more. f x (v @ more) = Some (y, more)"
    unfolding local_dec_def by blast
  from u v show "\<exists>w. buf = w @ rest \<and>
      (\<forall>more. (d (w @ more) \<bind> (\<lambda>(x, rest). f x rest)) = Some (y, more))"
    by (intro exI [of _ "u @ v"]) simp
qed

lemma local_read_u8 [localI]: "local_dec read_u8"
  by (auto simp: local_dec_def elim!: read_u8.elims intro!: exI [of _ "[_]"])

lemma local_fixed:
  assumes "\<And>buf. dec buf = (if length buf < n then None else Some (f (take n buf), drop n buf))"
  shows "local_dec dec"
proof (rule local_decI)
  fix buf x rest
  assume "dec buf = Some (x, rest)"
  then show "\<exists>u. buf = u @ rest \<and> (\<forall>more. dec (u @ more) = Some (x, more))"
    by (intro exI [of _ "take n buf"]) (auto simp: assms split: if_splits)
qed

lemma local_read_u [localI]: "local_dec read_u16" "local_dec read_u32" "local_dec read_u64"
  by (rule local_fixed, simp add: read_u16_def read_u32_def read_u64_def)+

lemma local_take:
  "local_dec (\<lambda>rest. if length rest < n then None
     else if P (take n rest) then Some (take n rest, drop n rest) else None)"
proof (rule local_decI)
  fix buf x rest
  assume "(if length buf < n then None
     else if P (take n buf) then Some (take n buf, drop n buf) else None) = Some (x, rest)"
  then show "\<exists>u. buf = u @ rest \<and> (\<forall>more. (if length (u @ more) < n then None
     else if P (take n (u @ more)) then Some (take n (u @ more), drop n (u @ more)) else None)
       = Some (x, more))"
    by (intro exI [of _ "take n buf"]) (auto split: if_splits)
qed

lemma local_read_str [localI]: "local_dec read_str"
  unfolding read_str_def Let_def by (intro localI local_take)

lemma frame_bytes_index:
  assumes "192 \<le> length buf" "i < 96"
  shows "take 192 buf ! (i * 2) = buf ! (i * 2)" "take 192 buf ! (i * 2 + 1) = buf ! (i * 2 + 1)"
  using assms by simp_all

lemma local_decode_AudioFrame [localI]: "local_dec decode_AudioFrame"
  by (rule local_fixed [where n = 192 and
        f = "\<lambda>b. AudioFrame (map (\<lambda>i. ucast (b ! (i * 2)) OR push_bit 8 (ucast (b ! (i * 2 + 1)))) [0..<96])"])
    (auto simp: decode_AudioFrame_def layout frame_bytes_index)

lemma local_decode_frames [localI]: "local_dec (decode_frames n)"
  by (induction n) (auto simp: fun_eq_iff intro!: localI cong: option.case_cong)

lemma local_decoders [localI]:
  "local_dec decode_StreamFlags" "local_dec decode_GpioState" "local_dec decode_LatencyStats"
  by (unfold decode_StreamFlags_def decode_GpioState_def decode_LatencyStats_def) (intro localI)+

lemma local_decode_RadioEvent [localI]: "local_dec decode_RadioEvent"
  unfolding decode_RadioEvent_def by (intro localI)

lemma local_decode_ClientMsg: "local_dec decode_ClientMsg"
  unfolding decode_ClientMsg_def by (intro localI)

lemma local_decode_ServerMsg: "local_dec decode_ServerMsg"
  unfolding decode_ServerMsg_def by (intro localI)

section \<open>Audio frames on the wire\<close>

lemma bit_mask_byte: "bit (255 :: 'a::len word) n \<longleftrightarrow> n < 8 \<and> n < LENGTH('a)"
proof -
  have "(255 :: 'a word) = mask 8" by (simp add: mask_eq_exp_minus_1)
  then show ?thesis by (simp only: bit_mask_iff) auto
qed

lemma sample_bytes_le: "sample_bytes s = le_bytes 2 s"
proof -
  have "ucast (s AND 0xff) = (ucast s :: u8)"
    by (rule bit_word_eqI) (simp only: bit_ucast_iff bit_and_iff bit_mask_byte, simp)
  moreover have "ucast (signed_drop_bit 8 s AND 0xff) = (ucast (drop_bit 8 s) :: u8)"
    by (rule bit_word_eqI)
      (simp only: bit_ucast_iff bit_and_iff bit_mask_byte bit_signed_drop_bit_iff bit_drop_bit_eq, simp)
  ultimately show ?thesis by (simp add: sample_bytes_def numeral_2_eq_2)
qed

lemma encode_AudioFrame_append:
  "encode_AudioFrame f buf = buf @ concat (map sample_bytes (samples f))"
proof -
  have "fold (\<lambda>s b. b @ sample_bytes s) xs buf = buf @ concat (map sample_bytes xs)" for xs
    by (induction xs arbitrary: buf) simp_all
  then show ?thesis by (simp add: encode_AudioFrame_def)
qed

lemma length_samples_bytes: "length (concat (map sample_bytes xs)) = 2 * length xs"
  by (induction xs) (simp_all add: sample_bytes_def)

lemma length_encode_AudioFrame [layout]:
  "length (encode_AudioFrame f buf) = length buf + 2 * length (samples f)"
  by (simp add: encode_AudioFrame_append length_samples_bytes)

lemma samples_bytes_nth:
  assumes "i < length xs"
  shows "concat (map sample_bytes xs) ! (i * 2) = sample_bytes (xs ! i) ! 0"
    "concat (map sample_bytes xs) ! Suc (i * 2) = sample_bytes (xs ! i) ! 1"
  using assms
proof (induction xs arbitrary: i)
  case (Cons x xs)
  {
    case 1
    with Cons.IH(1) show ?case by (cases i) (simp_all add: sample_bytes_def)
  next
    case 2
    with Cons.IH(2) show ?case by (cases i) (simp_all add: sample_bytes_def)
  }
qed simp_all

lemma sample_roundtrip:
  "(ucast (sample_bytes s ! 0) OR push_bit 8 (ucast (sample_bytes s ! Suc 0)) :: i16) = s"
  using of_le_bytes_le_bytes [of 2 s] by (simp add: sample_bytes_le numeral_2_eq_2)

lemma decode_encode_AudioFrame [reads]:
  assumes "frame_ok f"
  shows "decode_AudioFrame (encode_AudioFrame f [] @ rest) = Some (f, rest)"
proof -
  have len: "length (samples f) = 96" using assms by (simp add: layout)
  let ?b = "concat (map sample_bytes (samples f))"
  have "map (\<lambda>i. ucast ((?b @ rest) ! (i * 2)) OR push_bit 8 (ucast ((?b @ rest) ! (i * 2 + 1))))
      [0..<96] = samples f"
    by (rule nth_equalityI)
      (simp_all add: len nth_append length_samples_bytes samples_bytes_nth sample_roundtrip)
  then show ?thesis
    by (simp add: decode_AudioFrame_def encode_AudioFrame_append length_samples_bytes layout len)
qed

lemma decode_AudioFrame_ok:
  "decode_AudioFrame buf = Some (f, rest) \<Longrightarrow> frame_ok f \<and> length buf = 192 + length rest"
  by (auto simp: decode_AudioFrame_def layout split: if_splits)

lemma fold_encode_AudioFrame:
  "fold encode_AudioFrame fs buf = buf @ concat (map (\<lambda>f. encode_AudioFrame f []) fs)"
  by (induction fs arbitrary: buf) (simp_all add: encode_AudioFrame_append)

lemma decode_frames_encode [reads]:
  "list_all frame_ok fs \<Longrightarrow> decode_frames (length fs)
     (concat (map (\<lambda>f. encode_AudioFrame f []) fs) @ rest) = Some (fs, rest)"
  by (induction fs) (simp_all add: reads)

lemma decode_frames_ok:
  "decode_frames n buf = Some (fs, rest) \<Longrightarrow>
     length fs = n \<and> list_all frame_ok fs \<and> length buf = 192 * n + length rest"
  by (induction n arbitrary: buf fs)
    (auto simp: bind_eq_Some_conv dest!: decode_AudioFrame_ok)

lemma length_frames_bytes:
  "list_all frame_ok fs \<Longrightarrow> length (concat (map (\<lambda>f. encode_AudioFrame f []) fs)) = 192 * length fs"
  by (induction fs) (simp_all add: layout)

section \<open>Message types implement the interface\<close>

lemma read_u_Some:
  "read_u8 buf = Some (b, rest) \<Longrightarrow> buf = b # rest"
  "read_u16 buf = Some (w, rest) \<Longrightarrow> length buf = 2 + length rest"
  "read_u32 buf = Some (d, rest) \<Longrightarrow> length buf = 4 + length rest"
  "read_u64 buf = Some (q, rest) \<Longrightarrow> length buf = 8 + length rest"
  by (auto simp: read_u16_def read_u32_def read_u64_def elim: read_u8.elims split: if_splits)

lemma read_str_Some:
  assumes "read_str buf = Some (t, rest)"
  shows "utf8_valid t \<and> length t < 65536 \<and> length buf = 2 + length t + length rest"
proof -
  from assms obtain w r where w: "read_u16 buf = Some (w, r)" and "unat w \<le> length r"
    and t: "t = take (unat w) r" "rest = drop (unat w) r" "utf8_valid t"
    by (auto simp: read_str_def Let_def bind_eq_Some_conv split: if_splits)
  moreover have "unat w < 65536" using unsigned_less [of w, where 'a = nat] by simp
  ultimately show ?thesis using read_u_Some(2) [OF w] by simp
qed

lemma flags_roundtrip:
  "decode_StreamFlags (flag_bits st # rest) = Some (st, rest) \<longleftrightarrow> flags_ok st"
  by (cases st) (auto simp: decode_StreamFlags_def from_bits_truncate_def flags_ok_def)

lemma decode_StreamFlags_Some:
  "decode_StreamFlags buf = Some (st, rest) \<Longrightarrow> flags_ok st \<and> length buf = 1 + length rest"
  by (auto simp: decode_StreamFlags_def from_bits_truncate_def flags_ok_def bind_eq_Some_conv
      dest!: read_u_Some(1))

lemma decode_LatencyStats_encode [reads]:
  "decode_LatencyStats (encode_LatencyStats l [] @ rest) = Some (l, rest)"
  by (simp add: decode_LatencyStats_def encode_LatencyStats_def push_defs reads)

lemma decode_LatencyStats_Some:
  "decode_LatencyStats buf = Some (l, rest) \<Longrightarrow> length buf = 12 + length rest"
  by (auto simp: decode_LatencyStats_def bind_eq_Some_conv dest!: read_u_Some(3))

lemma decode_RadioEvent_encode [reads]:
  "decode_RadioEvent (encode_RadioEvent ev [] @ rest) = Some (ev, rest)"
  by (cases ev) (simp_all add: decode_RadioEvent_def encode_GpioState_def decode_GpioState_def push_defs)

lemma decode_RadioEvent_Some:
  "decode_RadioEvent buf = Some (ev, rest) \<Longrightarrow>
     length buf = length (encode_RadioEvent ev []) + length rest"
  by (auto simp: decode_RadioEvent_def decode_GpioState_def encode_GpioState_def push_defs
      bind_eq_Some_conv dest!: read_u_Some(1) split: if_splits)

lemma encode_append:
  "encode_StreamFlags st buf = buf @ encode_StreamFlags st []"
  "encode_LatencyStats l buf = buf @ encode_LatencyStats l []"
  "encode_RadioEvent ev buf = buf @ encode_RadioEvent ev []"
  by (simp_all add: encode_StreamFlags_def encode_LatencyStats_def push_defs)
    (cases ev, simp_all add: encode_GpioState_def push_defs)

lemma encode_ClientMsg_append: "encode_ClientMsg m buf = buf @ encode_ClientMsg m []"
  by (cases m) (simp_all add: push_defs encode_StreamFlags_def fold_encode_AudioFrame)

lemma encode_ServerMsg_append: "encode_ServerMsg m buf = buf @ encode_ServerMsg m []"
proof (cases m)
  case (RadioEv ev)
  then show ?thesis using encode_append(3) [of ev "push_u8 buf 1"] encode_append(3) [of ev "push_u8 [] 1"]
    by (simp add: push_u8_def)
qed (simp_all add: push_defs push_str_def encode_LatencyStats_def)

lemma decode_encode_ClientMsg:
  assumes "client_msg_ok m"
  shows "decode_ClientMsg (encode_ClientMsg m [] @ rest) = Some (m, rest)"
proof (cases m)
  case (Subscribe st)
  with assms flags_roundtrip [of st rest] show ?thesis
    by (simp add: decode_ClientMsg_def encode_StreamFlags_def push_defs)
next
  case (AudioWrite fs)
  with assms have "length fs < 2 ^ 32" and n: "length fs \<le> 65536" and ok: "list_all frame_ok fs"
    by simp_all
  then have u: "unat (of_nat (length fs) :: u32) = length fs" by simp
  with n have "\<not> (65536 :: u32) < of_nat (length fs)" by (simp add: word_less_nat_alt)
  with AudioWrite ok u show ?thesis
    by (simp add: decode_ClientMsg_def push_defs fold_encode_AudioFrame reads)
qed (simp_all add: decode_ClientMsg_def push_defs)

lemma decode_encode_ServerMsg:
  assumes "server_msg_ok m"
  shows "decode_ServerMsg (encode_ServerMsg m [] @ rest) = Some (m, rest)"
proof (cases m)
  case (AudioReady sq)
  then show ?thesis by (simp add: decode_ServerMsg_def push_defs reads)
next
  case (RadioEv ev)
  then show ?thesis using encode_append(3) [of ev "push_u8 [] 1"]
    by (simp add: decode_ServerMsg_def push_u8_def reads)
next
  case (Stats rx tx lat)
  then show ?thesis using encode_append(2) [of lat "push_u64 (push_u64 (push_u8 [] 2) rx) tx"]
    by (simp add: decode_ServerMsg_def push_defs reads)
next
  case Pong
  then show ?thesis by (simp add: decode_ServerMsg_def push_defs)
next
  case (ErrorMsg t)
  with assms show ?thesis using push_append(5) [of "push_u8 [] 4" t]
    by (simp add: decode_ServerMsg_def push_u8_def reads)
qed

lemma length_encode_ClientMsg [layout]:
  "length (encode_ClientMsg (Subscribe st) []) = 2"
  "length (encode_ClientMsg (SetGpio p h) []) = 3"
  "length (encode_ClientMsg Ping []) = 1"
  "length (encode_ClientMsg GetStats []) = 1"
  "list_all frame_ok fs \<Longrightarrow> length (encode_ClientMsg (AudioWrite fs) []) = 5 + 192 * length fs"
  by (simp_all add: encode_StreamFlags_def push_defs fold_encode_AudioFrame length_frames_bytes)

lemma length_encode_ServerMsg [layout]:
  "length (encode_ServerMsg (AudioReady sq) []) = 9"
  "length (encode_ServerMsg (RadioEv ev) []) = 1 + length (encode_RadioEvent ev [])"
  "length (encode_ServerMsg (Stats rx tx lat) []) = 29"
  "length (encode_ServerMsg Pong []) = 1"
  "length (encode_ServerMsg (ErrorMsg s) []) = 3 + length s"
  using encode_append(3) [of ev "push_u8 [] 1"]
  by (simp_all add: push_defs push_str_def encode_LatencyStats_def)

lemma decode_ClientMsg_Some:
  assumes "decode_ClientMsg buf = Some (m, rest)"
  shows "client_msg_ok m \<and> length buf = length (encode_ClientMsg m []) + length rest"
proof -
  have cap: "unat d \<le> 65536" if "d \<le> 65536" for d :: u32
    using that by (simp add: word_le_nat_alt)
  have aw: "length (encode_ClientMsg (AudioWrite fs) []) = 5 + 192 * unat d"
    if "decode_frames (unat d) r = Some (fs, r')" for d :: u32 and fs r r'
    using decode_frames_ok [OF that] by (simp only: length_encode_ClientMsg)
  from assms show ?thesis
    by (auto simp: decode_ClientMsg_def bind_eq_Some_conv layout cap aw not_less
        simp del: encode_ClientMsg.simps split: if_splits
        dest!: read_u_Some decode_StreamFlags_Some dest: decode_frames_ok)
qed

lemma decode_ServerMsg_Some:
  assumes "decode_ServerMsg buf = Some (m, rest)"
  shows "server_msg_ok m \<and> length buf = length (encode_ServerMsg m []) + length rest"
  using assms
  by (auto simp: decode_ServerMsg_def bind_eq_Some_conv layout
      simp del: encode_ServerMsg.simps split: if_splits
      dest!: read_u_Some decode_RadioEvent_Some decode_LatencyStats_Some read_str_Some)

interpretation client_codec: wire_codec encode_ClientMsg decode_ClientMsg client_msg_ok
proof unfold_locales
  show "encode_ClientMsg x [] \<noteq> []" for x
    by (cases x) (simp_all add: push_defs encode_StreamFlags_def fold_encode_AudioFrame)
qed (use encode_ClientMsg_append decode_encode_ClientMsg local_decode_ClientMsg
      decode_ClientMsg_Some in blast)+

interpretation server_codec: wire_codec encode_ServerMsg decode_ServerMsg server_msg_ok
proof unfold_locales
  show "encode_ServerMsg x [] \<noteq> []" for x
    using encode_ServerMsg_append [of x "[]"] length_encode_ServerMsg
    by (cases x) (auto simp: push_defs push_str_def encode_LatencyStats_def dest!: arg_cong [of _ _ length])
qed (use encode_ServerMsg_append decode_encode_ServerMsg local_decode_ServerMsg
      decode_ServerMsg_Some in blast)+

lemma length_encode_RadioEvent: "length (encode_RadioEvent ev []) \<le> 2"
  by (cases ev) (simp_all add: encode_GpioState_def push_defs)

lemma client_payload_bound:
  "client_msg_ok m \<Longrightarrow> length (to_vec encode_ClientMsg m) \<le> 12582917"
  by (cases m) (simp_all add: to_vec_def layout del: encode_ClientMsg.simps)

lemma server_payload_bound:
  "server_msg_ok m \<Longrightarrow> length (to_vec encode_ServerMsg m) \<le> 65538"
proof (cases m)
  case (RadioEv ev)
  then show ?thesis using length_encode_RadioEvent [of ev]
    by (simp add: to_vec_def layout del: encode_ServerMsg.simps)
qed (simp_all add: to_vec_def layout del: encode_ServerMsg.simps)

section \<open>Properties\<close>

text \<open>C12: Encoding a client message and decoding it gives the message back and leaves
  the bytes that follow it untouched, for every message the protocol can carry.\<close>

theorem client_msg_roundtrip:
  "client_msg_ok m \<Longrightarrow> decode_ClientMsg (to_vec encode_ClientMsg m @ rest) = Some (m, rest)"
  by (simp add: to_vec_def client_codec.dec_enc)

theorem client_msg_roundtrip_witness:
  "decode_ClientMsg (to_vec encode_ClientMsg (AudioWrite [AudioFrame_default]) @ [7]) =
     Some (AudioWrite [AudioFrame_default], [7])"
  by (rule client_msg_roundtrip) simp

text \<open>C13: Encoding a server message and decoding it gives the message back and leaves
  the bytes that follow it untouched, for every message the protocol can carry.\<close>

theorem server_msg_roundtrip:
  "server_msg_ok m \<Longrightarrow> decode_ServerMsg (to_vec encode_ServerMsg m @ rest) = Some (m, rest)"
  by (simp add: to_vec_def server_codec.dec_enc)

theorem server_msg_roundtrip_witness:
  "decode_ServerMsg (to_vec encode_ServerMsg (ErrorMsg [0x6f, 0xC3, 0xA9]) @ [1, 2]) =
     Some (ErrorMsg [0x6f, 0xC3, 0xA9], [1, 2])"
  by (rule server_msg_roundtrip) (simp add: cont_byte_def)

text \<open>Whatever bytes a client sends, a successful decode yields a well-formed
  message (only defined stream bits, at most 65536 complete frames), consumes a
  non-empty prefix of the input whose length is the length of the message's own
  encoding, looks at nothing behind that prefix, and re-encoding the message
  decodes to the same message.\<close>

lemma client_decode_sound:
  assumes "decode_ClientMsg buf = Some (m, rest)"
  shows "client_msg_ok m \<and>
    (\<exists>u. u \<noteq> [] \<and> buf = u @ rest \<and> length u = length (to_vec encode_ClientMsg m) \<and>
       (\<forall>more. decode_ClientMsg (u @ more) = Some (m, more))) \<and>
    decode_ClientMsg (to_vec encode_ClientMsg m) = Some (m, [])"
  using client_codec.dec_ok client_codec.dec_consumes client_codec.dec_stable assms by blast

text \<open>Two sequences of server messages with the same bytes on the wire are the
  same sequence: the encoding needs no separators to be unambiguous.\<close>

lemma server_stream_unambiguous:
  assumes "list_all server_msg_ok ms" and "list_all server_msg_ok ns"
    and "concat (map (to_vec encode_ServerMsg) ms) = concat (map (to_vec encode_ServerMsg) ns)"
  shows "ms = ns"
  using assms by (rule server_codec.encs_injective)

text \<open>C34: The 16-bit length prefix of strings: a valid UTF-8 error text survives the
  round trip exactly when it is shorter than 65536 bytes. A longer text is sent
  with a truncated length and is never received intact.\<close>

theorem error_text_length_limit:
  assumes "utf8_valid s"
  shows "decode_ServerMsg (to_vec encode_ServerMsg (ErrorMsg s) @ rest) = Some (ErrorMsg s, rest)
    \<longleftrightarrow> length s < 65536"
proof
  assume "decode_ServerMsg (to_vec encode_ServerMsg (ErrorMsg s) @ rest) = Some (ErrorMsg s, rest)"
  then have "server_msg_ok (ErrorMsg s)" by (rule server_codec.dec_ok)
  then show "length s < 65536" by simp
next
  assume "length s < 65536"
  with assms show "decode_ServerMsg (to_vec encode_ServerMsg (ErrorMsg s) @ rest) = Some (ErrorMsg s, rest)"
    using server_codec.dec_enc [of "ErrorMsg s" rest] by (simp add: to_vec_def)
qed

theorem error_text_length_limit_witness:
  "decode_ServerMsg (to_vec encode_ServerMsg (ErrorMsg (replicate 65536 0x61)) @ []) \<noteq>
     Some (ErrorMsg (replicate 65536 0x61), [])"
  using error_text_length_limit [of "replicate 65536 0x61" "[]"]
  by (simp add: utf8_valid_ascii)

text \<open>A subscription request survives the wire up to the reserved bits: the
  server sees exactly the three defined stream bits the client set.\<close>

lemma subscribe_truncates:
  "decode_ClientMsg (to_vec encode_ClientMsg (Subscribe st) @ rest) =
     Some (Subscribe (from_bits_truncate (flag_bits st)), rest)"
  by (simp add: decode_ClientMsg_def to_vec_def encode_StreamFlags_def push_defs
      decode_StreamFlags_def)

text \<open>The length-prefixed framing round-trips for both directions: a framed
  message followed by anything is read back as that message, and the reader is
  left exactly behind it.\<close>

lemma framed_roundtrip:
  assumes "client_msg_ok cm" and "server_msg_ok sm"
  shows "from_framed decode_ClientMsg (to_framed encode_ClientMsg cm @ rest) = Some (cm, rest) \<and>
    from_framed decode_ServerMsg (to_framed encode_ServerMsg sm @ rest) = Some (sm, rest)"
  using client_codec.from_framed_to_framed [OF assms(1)] client_payload_bound [OF assms(1)]
    server_codec.from_framed_to_framed [OF assms(2)] server_payload_bound [OF assms(2)]
  by simp

end
