(* ===== verification/Cm108_Framing.thy ===== *)
theory Cm108_Framing
  imports Cm108_Codec "HOL-Library.Sublist"
begin

text \<open>
  Message framing over a byte stream: \<open>write_msg\<close> and \<open>read_msg\<close> of
  \<^verbatim>\<open>crates/cm108-server/src/ipc.rs\<close>, \<open>write_client_msg\<close> and \<open>read_server_msg\<close> of
  \<^verbatim>\<open>crates/cm108-client/src/framing.rs\<close>. An input stream is the bytes that are
  still to be read and what a read finds behind them (end of file or an error);
  an output stream is what has been written and, where writing can fail, how many
  bytes the peer still takes. \<open>read_exact\<close> and \<open>write_all\<close> are those of
  \<open>std::io\<close>: a short read consumes what is there before it reports the error.
  The locale \<open>framed_link\<close> holds what one direction of the protocol promises.
\<close>

section \<open>Byte streams\<close>

record in_stream =
  inp :: bytes
  in_end :: "ErrorKind option"

record out_stream =
  outp :: bytes
  out_limit :: "(nat \<times> ErrorKind) option"

definition read_exact :: "nat \<Rightarrow> in_stream \<Rightarrow> (ErrorKind + bytes) \<times> in_stream" where
  "read_exact n s =
     (if n \<le> length (inp s) then (Inr (take n (inp s)), s\<lparr>inp := drop n (inp s)\<rparr>)
      else (Inl (case in_end s of None \<Rightarrow> UnexpectedEof | Some k \<Rightarrow> k), s\<lparr>inp := []\<rparr>))"

definition write_all :: "bytes \<Rightarrow> out_stream \<Rightarrow> (ErrorKind + unit) \<times> out_stream" where
  "write_all bs s =
     (case out_limit s of
        None \<Rightarrow> (Inr (), s\<lparr>outp := outp s @ bs\<rparr>)
      | Some (n, k) \<Rightarrow>
          if length bs \<le> n then (Inr (), s\<lparr>outp := outp s @ bs, out_limit := Some (n - length bs, k)\<rparr>)
          else (Inl k, s\<lparr>outp := outp s @ take n bs, out_limit := Some (0, k)\<rparr>))"

section \<open>The server side\<close>

definition write_msg :: "ServerMsg \<Rightarrow> out_stream \<Rightarrow> (ErrorKind + unit) \<times> out_stream" where
  "write_msg msg s =
     (let payload = to_vec encode_ServerMsg msg in
      case write_all (le_bytes 4 (of_nat (length payload) :: u32)) s of
        (Inl e, s1) \<Rightarrow> (Inl e, s1)
      | (Inr _, s1) \<Rightarrow> write_all payload s1)"

definition read_msg :: "in_stream \<Rightarrow> (ErrorKind + ClientMsg option) \<times> in_stream" where
  "read_msg s =
     (case read_exact 4 s of
        (Inl e, s1) \<Rightarrow> if e = UnexpectedEof then (Inr None, s1) else (Inl e, s1)
      | (Inr len_buf, s1) \<Rightarrow>
          let len = unat (of_le_bytes len_buf :: u32) in
          if len > 65536 then (Inl InvalidData, s1)
          else case read_exact len s1 of
            (Inl e, s2) \<Rightarrow> (Inl e, s2)
          | (Inr buf, s2) \<Rightarrow>
              (case from_bytes decode_ClientMsg buf of
                 None \<Rightarrow> (Inl InvalidData, s2)
               | Some m \<Rightarrow> (Inr (Some m), s2)))"

section \<open>The client side\<close>

definition write_client_msg :: "ClientMsg \<Rightarrow> out_stream \<Rightarrow> (ErrorKind + unit) \<times> out_stream" where
  "write_client_msg msg s =
     (let payload = to_vec encode_ClientMsg msg in
      case write_all (le_bytes 4 (of_nat (length payload) :: u32)) s of
        (Inl e, s1) \<Rightarrow> (Inl e, s1)
      | (Inr _, s1) \<Rightarrow> write_all payload s1)"

definition read_server_msg :: "in_stream \<Rightarrow> (ErrorKind + ServerMsg option) \<times> in_stream" where
  "read_server_msg s =
     (case read_exact 4 s of
        (Inl e, s1) \<Rightarrow>
          if e = UnexpectedEof \<or> e = WouldBlock then (Inr None, s1) else (Inl e, s1)
      | (Inr len_buf, s1) \<Rightarrow>
          let len = unat (of_le_bytes len_buf :: u32) in
          if len > 65536 then (Inl InvalidData, s1)
          else case read_exact len s1 of
            (Inl e, s2) \<Rightarrow> (Inl e, s2)
          | (Inr buf, s2) \<Rightarrow>
              (case from_bytes decode_ServerMsg buf of
                 None \<Rightarrow> (Inl InvalidData, s2)
               | Some m \<Rightarrow> (Inr (Some m), s2)))"

section \<open>Reading and writing whole conversations\<close>

text \<open>The read loop of \<open>handle_client\<close>: the messages it hands to the dispatcher and
  the error, if any, that ends it. Fuel bounds the number of reads; every message
  takes at least four bytes, so the length of the input is enough fuel
  (\<open>read_loop_enough\<close>).\<close>

fun read_loop :: "(in_stream \<Rightarrow> (ErrorKind + 'm option) \<times> in_stream) \<Rightarrow> nat \<Rightarrow> in_stream
    \<Rightarrow> 'm list \<times> ErrorKind option \<times> in_stream" where
  "read_loop rd 0 s = ([], None, s)"
| "read_loop rd (Suc n) s =
     (case rd s of
        (Inl e, s1) \<Rightarrow> ([], Some e, s1)
      | (Inr None, s1) \<Rightarrow> ([], None, s1)
      | (Inr (Some m), s1) \<Rightarrow> (let (ms, e, s2) = read_loop rd n s1 in (m # ms, e, s2)))"

fun write_seq :: "('m \<Rightarrow> out_stream \<Rightarrow> (ErrorKind + unit) \<times> out_stream) \<Rightarrow> 'm list \<Rightarrow> out_stream
    \<Rightarrow> (ErrorKind + unit) \<times> out_stream" where
  "write_seq wr [] s = (Inr (), s)"
| "write_seq wr (m # ms) s =
     (case wr m s of (Inl e, s1) \<Rightarrow> (Inl e, s1) | (Inr _, s1) \<Rightarrow> write_seq wr ms s1)"

definition fits_frame :: "'m encoder \<Rightarrow> 'm \<Rightarrow> bool" where
  "fits_frame enc m \<longleftrightarrow> length (to_vec enc m) \<le> 65536"

section \<open>One direction of the protocol\<close>

locale framed_link = wire_codec enc dec ok
  for enc :: "'m encoder" and dec :: "'m decoder" and ok :: "'m \<Rightarrow> bool" +
  fixes wr :: "'m \<Rightarrow> out_stream \<Rightarrow> (ErrorKind + unit) \<times> out_stream"
    and rd :: "in_stream \<Rightarrow> (ErrorKind + 'm option) \<times> in_stream"
  assumes wr_appends: "out_limit t = None \<Longrightarrow> wr m t = (Inr (), t\<lparr>outp := outp t @ to_framed enc m\<rparr>)"
    and rd_frame: "length payload \<le> 65536 \<Longrightarrow>
      rd \<lparr>inp = le_bytes 4 (of_nat (length payload) :: u32) @ payload @ rest, in_end = e\<rparr> =
        ((case dec payload of None \<Rightarrow> Inl InvalidData | Some (m, _) \<Rightarrow> Inr (Some m)),
         \<lparr>inp = rest, in_end = e\<rparr>)"
    and rd_eof: "inp s = [] \<Longrightarrow> in_end s = None \<Longrightarrow> rd s = (Inr None, s)"
    and rd_header: "length (inp s) < 4 \<Longrightarrow> \<exists>r. rd s = (r, s\<lparr>inp := []\<rparr>) \<and> (\<forall>m. r \<noteq> Inr (Some m))"
    and rd_body: "4 \<le> length (inp s) \<Longrightarrow> length (inp s) < 4 + unat (of_le_bytes (take 4 (inp s)) :: u32) \<Longrightarrow>
      \<exists>e s'. rd s = (Inl e, s')"
    and rd_consumes: "rd s = (Inr (Some m), s') \<Longrightarrow> length (inp s') + 4 \<le> length (inp s)"
begin

abbreviation wire :: "'m list \<Rightarrow> bytes" where
  "wire ms \<equiv> concat (map (to_framed enc) ms)"

lemma write_seq_appends:
  "out_limit s = None \<Longrightarrow> write_seq wr ms s = (Inr (), s\<lparr>outp := outp s @ wire ms\<rparr>)"
  by (induction ms arbitrary: s) (simp_all add: wr_appends)

lemma rd_sent:
  assumes "ok m" "fits_frame enc m"
  shows "rd \<lparr>inp = to_framed enc m @ rest, in_end = e\<rparr> = (Inr (Some m), \<lparr>inp = rest, in_end = e\<rparr>)"
  using assms rd_frame [of "to_vec enc m" rest e] dec_enc [of m "[]"]
  by (simp add: to_framed_def Let_def fits_frame_def to_vec_def)

lemma read_loop_sent:
  assumes "list_all ok ms" "list_all (fits_frame enc) ms" "length ms \<le> n"
  shows "read_loop rd n \<lparr>inp = wire ms @ rest, in_end = e\<rparr> =
    (let (ms', r) = read_loop rd (n - length ms) \<lparr>inp = rest, in_end = e\<rparr> in (ms @ ms', r))"
  using assms
proof (induction ms arbitrary: n)
  case Nil
  then show ?case by simp
next
  case (Cons m ms)
  then obtain n' where n: "n = Suc n'" "length ms \<le> n'" by (cases n) auto
  with Cons show ?case
    by (simp add: rd_sent split_beta Let_def)
qed

text \<open>A stream written whole is read whole.\<close>

lemma read_loop_wire:
  assumes "list_all ok ms" "list_all (fits_frame enc) ms"
  shows "read_loop rd (Suc (length ms)) \<lparr>inp = wire ms, in_end = None\<rparr> = (ms, None, \<lparr>inp = [], in_end = None\<rparr>)"
  using read_loop_sent [OF assms, of "Suc (length ms)" "[]" None]
  by (simp add: Suc_diff_le del: read_loop.simps) (simp add: rd_eof)

text \<open>The loop always ends with the stream's own end or an error when its fuel is
  at least the number of bytes: it never stops for lack of fuel.\<close>

lemma read_loop_enough:
  "length (inp s) < n \<Longrightarrow> length (inp s) < k \<Longrightarrow> read_loop rd n s = read_loop rd k s"
proof (induction n arbitrary: k s)
  case 0
  then show ?case by simp
next
  case (Suc n)
  then obtain k' where k: "k = Suc k'" by (cases k) auto
  have "read_loop rd n s1 = read_loop rd k' s1" if "rd s = (Inr (Some m), s1)" for m s1
    using Suc k rd_consumes [OF that] by (intro Suc.IH) simp_all
  then show ?case using k by (auto split: prod.splits sum.splits option.splits)
qed

lemma length_to_framed: "length (to_framed enc m) = 4 + length (to_vec enc m)"
  by (simp add: to_framed_def Let_def)

lemma rd_truncated:
  assumes "fits_frame enc m" "k < length (to_framed enc m)"
  shows "\<exists>r s'. rd \<lparr>inp = take k (to_framed enc m), in_end = e\<rparr> = (r, s') \<and> (\<forall>x. r \<noteq> Inr (Some x))"
proof (cases "k < 4")
  case True
  then have "length (take k (to_framed enc m)) < 4" by simp
  then show ?thesis using rd_header [of "\<lparr>inp = take k (to_framed enc m), in_end = e\<rparr>"]
    by (metis in_stream.select_convs(1))
next
  case False
  have "unat (of_nat (length (to_vec enc m)) :: u32) = length (to_vec enc m)"
    using assms(1) by (simp add: fits_frame_def)
  with False assms(2) show ?thesis
    using rd_body [of "\<lparr>inp = take k (to_framed enc m), in_end = e\<rparr>"] length_to_framed [of m]
    by (auto simp: to_framed_def Let_def)
qed

text \<open>Cutting the byte stream anywhere loses messages at the end only.\<close>

lemma read_loop_prefix:
  assumes "list_all ok ms" "list_all (fits_frame enc) ms"
  shows "prefix (fst (read_loop rd n \<lparr>inp = take k (wire ms), in_end = e\<rparr>)) ms"
  using assms
proof (induction ms arbitrary: k n)
  case Nil
  obtain r where "rd \<lparr>inp = [], in_end = e\<rparr> = (r, \<lparr>inp = [], in_end = e\<rparr>)" "\<forall>m. r \<noteq> Inr (Some m)"
    using rd_header [of "\<lparr>inp = [], in_end = e\<rparr>"] by auto
  then show ?case by (cases n) (auto split: sum.splits option.splits)
next
  case (Cons m ms)
  show ?case
  proof (cases n)
    case (Suc n')
    show ?thesis
    proof (cases "k < length (to_framed enc m)")
      case True
      with Cons.prems obtain r s' where
        "rd \<lparr>inp = take k (to_framed enc m), in_end = e\<rparr> = (r, s')" "\<forall>x. r \<noteq> Inr (Some x)"
        using rd_truncated [of m k e] by auto
      with True Suc show ?thesis by (auto split: sum.splits option.splits)
    next
      case False
      with Cons Suc show ?thesis by (simp add: rd_sent split_beta Let_def)
    qed
  qed simp
qed

end

section \<open>Both directions implement the link\<close>

lemma write_framed:
  "out_limit t = None \<Longrightarrow> write_msg sm t = (Inr (), t\<lparr>outp := outp t @ to_framed encode_ServerMsg sm\<rparr>)"
  "out_limit t = None \<Longrightarrow>
     write_client_msg cm t = (Inr (), t\<lparr>outp := outp t @ to_framed encode_ClientMsg cm\<rparr>)"
  by (simp_all add: write_msg_def write_client_msg_def write_all_def to_framed_def Let_def)

lemmas read_defs = read_msg_def read_server_msg_def read_exact_def Let_def from_bytes_def

lemma rd_consumes_msg:
  "read_msg s = (Inr (Some cm), s') \<Longrightarrow> length (inp s') + 4 \<le> length (inp s)"
  "read_server_msg s = (Inr (Some sm), s') \<Longrightarrow> length (inp s') + 4 \<le> length (inp s)"
  by (auto simp: read_defs split: if_splits option.splits)

interpretation to_server: framed_link encode_ClientMsg decode_ClientMsg client_msg_ok write_client_msg read_msg
proof unfold_locales
  fix payload rest e
  assume "length (payload :: bytes) \<le> 65536"
  then show "read_msg \<lparr>inp = le_bytes 4 (of_nat (length payload) :: u32) @ payload @ rest, in_end = e\<rparr> =
        ((case decode_ClientMsg payload of None \<Rightarrow> Inl InvalidData | Some (m, _) \<Rightarrow> Inr (Some m)),
         \<lparr>inp = rest, in_end = e\<rparr>)"
    by (simp add: read_defs split: option.split)
next
  show "length (inp s') + 4 \<le> length (inp s)" if "read_msg s = (Inr (Some m), s')" for s m s'
    using that by (rule rd_consumes_msg)
qed (auto simp: write_framed read_defs split: option.splits)

interpretation to_client: framed_link encode_ServerMsg decode_ServerMsg server_msg_ok write_msg read_server_msg
proof unfold_locales
  fix payload rest e
  assume "length (payload :: bytes) \<le> 65536"
  then show "read_server_msg \<lparr>inp = le_bytes 4 (of_nat (length payload) :: u32) @ payload @ rest, in_end = e\<rparr> =
        ((case decode_ServerMsg payload of None \<Rightarrow> Inl InvalidData | Some (m, _) \<Rightarrow> Inr (Some m)),
         \<lparr>inp = rest, in_end = e\<rparr>)"
    by (simp add: read_defs split: option.split)
next
  show "length (inp s') + 4 \<le> length (inp s)" if "read_server_msg s = (Inr (Some m), s')" for s m s'
    using that by (rule rd_consumes_msg)
qed (auto simp: write_framed read_defs split: option.splits)

lemma fits_client_msg:
  assumes "list_all frame_ok fs"
  shows "fits_frame encode_ClientMsg (AudioWrite fs) \<longleftrightarrow> length fs \<le> 341"
  using assms by (simp add: fits_frame_def to_vec_def layout del: encode_ClientMsg.simps) arith

lemma fits_client_small:
  "(\<forall>fs. m \<noteq> AudioWrite fs) \<Longrightarrow> fits_frame encode_ClientMsg m"
  by (cases m) (simp_all add: fits_frame_def to_vec_def layout del: encode_ClientMsg.simps)

section \<open>Properties\<close>

text \<open>A client that writes messages the protocol can carry, each within the
  65536-byte frame limit, is understood: the server's read loop hands exactly
  these messages to the dispatcher, in order, and ends cleanly when the client
  closes the connection.\<close>

lemma client_messages_delivered:
  assumes "list_all client_msg_ok ms" and "list_all (fits_frame encode_ClientMsg) ms"
    and "write_seq write_client_msg ms \<lparr>outp = [], out_limit = None\<rparr> = (r, t)"
    and "length ms < n"
  shows "read_loop read_msg n \<lparr>inp = outp t, in_end = None\<rparr> = (ms, None, \<lparr>inp = [], in_end = None\<rparr>)"
proof -
  obtain n' where n': "n - length ms = Suc n'" using assms(4) by (cases "n - length ms") auto
  have "outp t = to_server.wire ms @ []"
    using assms(3) by (auto simp: to_server.write_seq_appends)
  then show ?thesis
    using to_server.read_loop_sent [OF assms(1,2), of n "[]" None] assms(4) n'
    by (simp add: to_server.rd_eof)
qed

text \<open>C19: The stream from the server to a client, cut anywhere (a crash, a closed
  socket) and ended in any way: the client reads a prefix of the messages sent,
  never a message that was not sent and never one out of order.\<close>

theorem server_messages_prefix:
  assumes "list_all server_msg_ok ms" and "list_all (fits_frame encode_ServerMsg) ms"
    and "write_seq write_msg ms \<lparr>outp = [], out_limit = None\<rparr> = (r, t)"
  shows "prefix (fst (read_loop read_server_msg n \<lparr>inp = take k (outp t), in_end = e\<rparr>)) ms"
  using to_client.read_loop_prefix [OF assms(1,2)] assms(3)
  by (auto simp: to_client.write_seq_appends)

theorem server_messages_prefix_witness:
  "prefix (fst (read_loop read_server_msg 9 \<lparr>inp = take 7 (outp (snd (write_seq write_msg [Pong, Pong]
     \<lparr>outp = [], out_limit = None\<rparr>))), in_end = Some WouldBlock\<rparr>)) [Pong, Pong]"
  by (rule server_messages_prefix [where r = "Inr ()"])
    (simp_all add: fits_frame_def to_vec_def push_u8_def to_client.write_seq_appends del: write_seq.simps)

text \<open>C33: The limit on transmitted audio: one \<open>AudioWrite\<close> of complete frames gets
  through exactly when it has at most 341 frames. Anything longer is refused by
  the server's 65536-byte check, far below the 65536 frames the decoder allows.\<close>

theorem audio_write_limit:
  assumes "list_all frame_ok fs" and "length fs < 2 ^ 24"
    and "write_client_msg (AudioWrite fs) \<lparr>outp = [], out_limit = None\<rparr> = (r, t)"
  shows "fst (read_msg \<lparr>inp = outp t, in_end = e\<rparr>) =
    (if length fs \<le> 341 then Inr (Some (AudioWrite fs)) else Inl InvalidData)"
proof (cases "length fs \<le> 341")
  case True
  with assms to_server.rd_sent [of "AudioWrite fs" "[]" e] show ?thesis
    by (auto simp: fits_client_msg write_framed)
next
  case False
  let ?p = "to_vec encode_ClientMsg (AudioWrite fs)"
  have len: "length ?p = 5 + 192 * length fs"
    using assms(1) by (simp add: to_vec_def layout del: encode_ClientMsg.simps)
  with assms(2) have "unat (of_nat (length ?p) :: u32) = length ?p"
    by (intro unat_of_nat_small) simp
  with len False assms(3) show ?thesis
    by (auto simp: write_framed to_framed_def Let_def read_defs)
qed

theorem audio_write_limit_witness:
  "fst (read_msg \<lparr>inp = outp (snd (write_client_msg (AudioWrite (replicate 342 AudioFrame_default))
     \<lparr>outp = [], out_limit = None\<rparr>)), in_end = None\<rparr>) = Inl InvalidData"
  using audio_write_limit [of "replicate 342 AudioFrame_default" "Inr ()"
      "snd (write_client_msg (AudioWrite (replicate 342 AudioFrame_default)) \<lparr>outp = [], out_limit = None\<rparr>)"
      None]
  by (simp add: write_framed list_all_length)

end
