(* ===== verification/Cm108_Gpio.thy ===== *)
theory Cm108_Gpio
  imports Cm108_Types
begin

text \<open>
  GPIO over the HID interface: \<^verbatim>\<open>crates/cm108-hal/src/hid_gpio.rs\<close>, with the error
  type of \<^verbatim>\<open>crates/cm108-hal/src/lib.rs\<close>. The USB library \<open>rusb\<close> is not part of the
  repository: what a control or interrupt transfer returns is an argument of the
  definitions. \<open>set_pin\<close> returns the new register shadow, the control request it
  issued and the result handed to its caller.
\<close>

section \<open>Errors\<close>

text \<open>The two errors of \<open>rusb\<close> the sources name; any other carries a code.\<close>

datatype RusbError = Timeout | NotSupported | RusbOther nat

datatype HalError = Usb RusbError | NotFound | Hid rstring | Xrun

section \<open>The output register\<close>

definition HID_SET_REPORT_TYPE :: u8 where "HID_SET_REPORT_TYPE = 0x21"
definition HID_SET_REPORT_REQ :: u8 where "HID_SET_REPORT_REQ = 0x09"
definition HID_OUTPUT_REPORT :: u16 where "HID_OUTPUT_REPORT = 0x0200"
definition GPIO_DIR_RIM_LITE :: u8 where "GPIO_DIR_RIM_LITE = 0b00001001"

record HidGpio =
  gpio_out :: u8
  gpio_dir :: u8

definition HidGpio_new :: HidGpio where
  "HidGpio_new = \<lparr>gpio_out = 0, gpio_dir = GPIO_DIR_RIM_LITE\<rparr>"

record ctl_request =
  request_type :: u8
  request :: u8
  request_value :: u16
  request_index :: u16
  request_data :: bytes
  timeout_ms :: nat

type_synonym write_control = "ctl_request \<Rightarrow> RusbError + nat"

definition write_report :: "write_control \<Rightarrow> HidGpio \<Rightarrow> ctl_request \<times> (HalError + unit)" where
  "write_report wc g =
     (let req = \<lparr>request_type = HID_SET_REPORT_TYPE, request = HID_SET_REPORT_REQ,
                 request_value = HID_OUTPUT_REPORT, request_index = ucast IFACE_HID,
                 request_data = [0, gpio_out g, gpio_dir g, 0], timeout_ms = 100\<rparr>
      in (req, case wc req of Inl e \<Rightarrow> Inl (Usb e) | Inr _ \<Rightarrow> Inr ()))"

definition set_pin :: "profile \<Rightarrow> write_control \<Rightarrow> HidGpio \<Rightarrow> u8 \<Rightarrow> bool
    \<Rightarrow> (HidGpio \<times> ctl_request \<times> (HalError + unit)) outcome" where
  "set_pin p wc g n high =
     obind (debug_assert p (n < 4)) (\<lambda>_.
     obind (shl_p p (1 :: u8) (unat n)) (\<lambda>m.
     let g' = g\<lparr>gpio_out := (if high then gpio_out g OR m else gpio_out g AND NOT m)\<rparr> in
     Returns (g', write_report wc g')))"

section \<open>Input reports\<close>

text \<open>\<open>read_interrupt\<close> fills a zeroed four-byte buffer with what arrived.\<close>

definition read_state :: "RusbError + bytes \<Rightarrow> HalError + GpioState option" where
  "read_state res =
     (case res of
        Inr received \<Rightarrow> (let buf = take 4 (received @ replicate 4 0) in Inr (Some (GpioState (buf ! 1))))
      | Inl e \<Rightarrow> if e = Timeout then Inr None else Inl (Usb e))"

text \<open>The events of one state change, in the order they are sent.\<close>

definition gpio_events :: "profile \<Rightarrow> GpioState \<Rightarrow> GpioState \<Rightarrow> RadioEvent list outcome" where
  "gpio_events p state prev =
     obind (pin p state 0) (\<lambda>ptt. obind (pin p prev 0) (\<lambda>ptt0.
     obind (pin p state 1) (\<lambda>cos. obind (pin p prev 1) (\<lambda>cos0.
     Returns ((if ptt \<noteq> ptt0 then [if ptt then PttAssert else PttDeassert] else []) @
              (if cos \<noteq> cos0 then [if cos then CosActive else CosInactive] else []) @
              [GpioChange state])))))"

text \<open>One round of the poller of \<open>spawn_gpio_poller\<close>: the new previous state, the
  events sent to the channel, and the pause in milliseconds after an error.\<close>

definition poll_round :: "profile \<Rightarrow> GpioState \<Rightarrow> RusbError + bytes
    \<Rightarrow> (GpioState \<times> RadioEvent list \<times> nat) outcome" where
  "poll_round p prev res =
     (case read_state res of
        Inr (Some state) \<Rightarrow>
          if state \<noteq> prev then obind (gpio_events p state prev) (\<lambda>evs. Returns (state, evs, 0))
          else Returns (prev, [], 0)
      | Inr None \<Rightarrow> Returns (prev, [], 0)
      | Inl e \<Rightarrow> Returns (prev, [], 10))"

fun poll_rounds :: "profile \<Rightarrow> GpioState \<Rightarrow> (RusbError + bytes) list
    \<Rightarrow> (GpioState \<times> RadioEvent list) outcome" where
  "poll_rounds p prev [] = Returns (prev, [])"
| "poll_rounds p prev (r # rs) =
     obind (poll_round p prev r) (\<lambda>(prev', evs, _).
     obind (poll_rounds p prev' rs) (\<lambda>(last, evs').
     Returns (last, evs @ evs')))"

section \<open>Reading an event stream\<close>

text \<open>What a listener can reconstruct: the PTT line followed from its events (\<open>None\<close>
  when an event repeats the state already known), likewise the carrier line, and
  the last reported register.\<close>

fun follow_ptt :: "bool \<Rightarrow> RadioEvent list \<Rightarrow> bool option" where
  "follow_ptt b [] = Some b"
| "follow_ptt b (PttAssert # es) = (if b then None else follow_ptt True es)"
| "follow_ptt b (PttDeassert # es) = (if b then follow_ptt False es else None)"
| "follow_ptt b (_ # es) = follow_ptt b es"

fun follow_cos :: "bool \<Rightarrow> RadioEvent list \<Rightarrow> bool option" where
  "follow_cos b [] = Some b"
| "follow_cos b (CosActive # es) = (if b then None else follow_cos True es)"
| "follow_cos b (CosInactive # es) = (if b then follow_cos False es else None)"
| "follow_cos b (_ # es) = follow_cos b es"

fun follow_state :: "GpioState \<Rightarrow> RadioEvent list \<Rightarrow> GpioState" where
  "follow_state g [] = g"
| "follow_state g (GpioChange g' # es) = follow_state g' es"
| "follow_state g (_ # es) = follow_state g es"

text \<open>Reference: the registers the device reported, the second byte of each report and zero
  where a report is shorter; and the registers a listener is told, in order.\<close>

fun reported_registers :: "(RusbError + bytes) list \<Rightarrow> u8 list" where
  "reported_registers [] = []"
| "reported_registers (Inr (report_id # inputs # others) # rs) = inputs # reported_registers rs"
| "reported_registers (Inr _ # rs) = 0 # reported_registers rs"
| "reported_registers (Inl _ # rs) = reported_registers rs"

fun told_registers :: "RadioEvent list \<Rightarrow> u8 list" where
  "told_registers [] = []"
| "told_registers (GpioChange g # es) = gpio_bits g # told_registers es"
| "told_registers (_ # es) = told_registers es"

text \<open>Reference: the output and direction registers of the device. It takes the second and
  third byte of an output report of four bytes that a successful control transfer brings
  to its HID interface; any other transfer leaves them.\<close>

definition device_takes :: "write_control \<Rightarrow> u8 \<times> u8 \<Rightarrow> ctl_request \<Rightarrow> u8 \<times> u8" where
  "device_takes wc regs req =
     (case wc req of
        Inl e \<Rightarrow> regs
      | Inr n \<Rightarrow>
          if request_type req = 0x21 \<and> request req = 9 \<and> request_value req = 0x200 \<and> request_index req = 3 \<and>
             length (request_data req) = 4
          then (request_data req ! 1, request_data req ! 2) else regs)"

text \<open>Pin writes one after the other (PTT requests of clients and the heartbeat share
  one register); the level each pin was last set to.\<close>

definition set_pins :: "profile \<Rightarrow> write_control \<Rightarrow> HidGpio \<Rightarrow> (u8 \<times> bool) list \<Rightarrow> HidGpio outcome" where
  "set_pins p wc g ops =
     ofold (\<lambda>g (n, high). obind (set_pin p wc g n high) (\<lambda>(g', _). Returns g')) g ops"

fun last_level :: "nat \<Rightarrow> bool \<Rightarrow> (u8 \<times> bool) list \<Rightarrow> bool" where
  "last_level b level [] = level"
| "last_level b level ((n, high) # ops) = last_level b (if unat n = b then high else level) ops"

section \<open>Register lemmas\<close>

lemma less_4_unat: "(n :: u8) < 4 \<longleftrightarrow> unat n < 4"
  by (simp add: word_less_nat_alt)

lemma mask_bit: "m < 8 \<Longrightarrow> bit (push_bit m (1 :: u8)) b \<longleftrightarrow> b = m"
  by (auto simp: bit_exp_iff)

lemma pin_update_bits:
  assumes "m < 8" "b < 8"
  shows "bit (if high then x OR push_bit m 1 else x AND NOT (push_bit m 1)) b =
    (if b = m then high else bit (x :: u8) b)"
  using assms mask_bit [of m b] by (auto simp: bit_or_iff bit_and_iff bit_not_iff)

lemma set_pin_effect:
  assumes "set_pin p wc g n high = Returns (g', req, res)"
  shows "b < 8 \<Longrightarrow> bit (gpio_out g') b = (if b = unat n mod 8 then high else bit (gpio_out g) b)"
    and "gpio_dir g' = gpio_dir g" and "(req, res) = write_report wc g'"
proof -
  from assms have g': "g' = g\<lparr>gpio_out := (if high then gpio_out g OR push_bit (unat n mod 8) 1
      else gpio_out g AND NOT (push_bit (unat n mod 8) 1))\<rparr>"
    and w: "(req, res) = write_report wc g'"
    by (auto simp: set_pin_def shl_p_def Let_def split: if_splits)
  then show "gpio_dir g' = gpio_dir g" "(req, res) = write_report wc g'" by simp_all
  show "bit (gpio_out g') b = (if b = unat n mod 8 then high else bit (gpio_out g) b)" if "b < 8"
    using pin_update_bits [of "unat n mod 8" b high "gpio_out g"] that by (simp add: g')
qed

text \<open>The report a pin write sends: when it gets through, the device has the new register.\<close>

lemma set_pin_device:
  assumes "set_pin p wc g n high = Returns (g', req, res)"
  shows "device_takes wc regs req = (case wc req of Inl e \<Rightarrow> regs | Inr k \<Rightarrow> (gpio_out g', gpio_dir g))"
  using set_pin_effect(2,3) [OF assms]
  by (simp add: write_report_def Let_def device_takes_def HID_SET_REPORT_TYPE_def HID_SET_REPORT_REQ_def
      HID_OUTPUT_REPORT_def IFACE_HID_def split: sum.split)

lemma set_pin_returns:
  assumes "p = Release \<or> n < 4"
  shows "\<exists>g' req res. set_pin p wc g n high = Returns (g', req, res)"
  using assms
  by (cases p) (auto simp: set_pin_def debug_assert_def shl_p_def less_4_unat Let_def write_report_def)

lemma set_pins_effect:
  assumes "list_all (\<lambda>(n, _). n < 4) ops"
  shows "\<exists>g'. set_pins p wc g ops = Returns g' \<and> gpio_dir g' = gpio_dir g \<and>
    (\<forall>b<8. bit (gpio_out g') b = last_level b (bit (gpio_out g) b) ops)"
  using assms
proof (induction ops arbitrary: g)
  case Nil
  then show ?case by (simp add: set_pins_def)
next
  case (Cons op ops)
  obtain n high where op: "op = (n, high)" by force
  with Cons.prems have n: "n < 4" by simp
  then obtain g1 req res where g1: "set_pin p wc g n high = Returns (g1, req, res)"
    using set_pin_returns by blast
  have "unat n mod 8 = unat n" using n by (simp add: less_4_unat)
  with set_pin_effect [OF g1] have
    e: "\<And>b. b < 8 \<Longrightarrow> bit (gpio_out g1) b = (if unat n = b then high else bit (gpio_out g) b)"
       "gpio_dir g1 = gpio_dir g"
    by auto
  from Cons.IH [of g1] Cons.prems obtain g' where "set_pins p wc g1 ops = Returns g'"
    "gpio_dir g' = gpio_dir g1" "\<forall>b<8. bit (gpio_out g') b = last_level b (bit (gpio_out g1) b) ops"
    by auto
  with op g1 e show ?case by (simp add: set_pins_def)
qed

section \<open>Event lemmas\<close>

lemma gpio_events_eq [outcome_simps]:
  "gpio_events p state prev =
     Returns ((if bit (gpio_bits state) 0 \<noteq> bit (gpio_bits prev) 0
               then [if bit (gpio_bits state) 0 then PttAssert else PttDeassert] else []) @
              (if bit (gpio_bits state) 1 \<noteq> bit (gpio_bits prev) 1
               then [if bit (gpio_bits state) 1 then CosActive else CosInactive] else []) @
              [GpioChange state])"
  by (simp add: gpio_events_def pin_bit)

lemma follow_ptt_append: "follow_ptt b (es @ fs) = follow_ptt b es \<bind> (\<lambda>b'. follow_ptt b' fs)"
  by (induction b es rule: follow_ptt.induct) simp_all

lemma follow_cos_append: "follow_cos b (es @ fs) = follow_cos b es \<bind> (\<lambda>b'. follow_cos b' fs)"
  by (induction b es rule: follow_cos.induct) simp_all

lemma follow_state_append: "follow_state g (es @ fs) = follow_state (follow_state g es) fs"
  by (induction g es rule: follow_state.induct) simp_all

lemmas follow_append = follow_ptt_append follow_cos_append follow_state_append

lemma gpio_events_follow:
  assumes "gpio_events p state prev = Returns evs"
  shows "follow_ptt (bit (gpio_bits prev) 0) evs = Some (bit (gpio_bits state) 0)"
    and "follow_cos (bit (gpio_bits prev) 1) evs = Some (bit (gpio_bits state) 1)"
    and "follow_state prev evs = state"
  using assms by (auto simp: gpio_events_eq)

lemma poll_round_follow:
  "\<exists>g evs d. poll_round p prev r = Returns (g, evs, d) \<and>
     follow_ptt (bit (gpio_bits prev) 0) evs = Some (bit (gpio_bits g) 0) \<and>
     follow_cos (bit (gpio_bits prev) 1) evs = Some (bit (gpio_bits g) 1) \<and>
     follow_state prev evs = g"
proof (cases "read_state r")
  case (Inr st)
  then show ?thesis
  proof (cases st)
    case (Some state)
    obtain evs where "gpio_events p state prev = Returns evs" by (simp add: gpio_events_eq)
    with Inr Some gpio_events_follow [OF this] show ?thesis
      by (auto simp: poll_round_def)
  qed (simp add: poll_round_def)
qed (simp add: poll_round_def)

lemma poll_rounds_faithful:
  "\<exists>g evs. poll_rounds p prev rs = Returns (g, evs) \<and>
     follow_ptt (bit (gpio_bits prev) 0) evs = Some (bit (gpio_bits g) 0) \<and>
     follow_cos (bit (gpio_bits prev) 1) evs = Some (bit (gpio_bits g) 1) \<and>
     follow_state prev evs = g"
proof (induction rs arbitrary: prev)
  case Nil
  show ?case by simp
next
  case (Cons r rs)
  obtain g evs d where "poll_round p prev r = Returns (g, evs, d)"
    "follow_ptt (bit (gpio_bits prev) 0) evs = Some (bit (gpio_bits g) 0)"
    "follow_cos (bit (gpio_bits prev) 1) evs = Some (bit (gpio_bits g) 1)" "follow_state prev evs = g"
    using poll_round_follow by blast
  moreover obtain g' evs' where "poll_rounds p g rs = Returns (g', evs')"
    "follow_ptt (bit (gpio_bits g) 0) evs' = Some (bit (gpio_bits g') 0)"
    "follow_cos (bit (gpio_bits g) 1) evs' = Some (bit (gpio_bits g') 1)" "follow_state g evs' = g'"
    using Cons.IH by blast
  ultimately show ?case by (simp add: follow_append)
qed

lemma poll_rounds_follow:
  assumes "poll_rounds p prev rs = Returns (g, evs)"
  shows "follow_ptt (bit (gpio_bits prev) 0) evs = Some (bit (gpio_bits g) 0)"
    "follow_cos (bit (gpio_bits prev) 1) evs = Some (bit (gpio_bits g) 1)" "follow_state prev evs = g"
  using poll_rounds_faithful [of p prev rs] assms by auto

text \<open>A listener is told exactly the reported registers, without repetitions.\<close>

lemma read_state_reported:
  "reported_registers (r # rs) = (case read_state r of Inr (Some g) \<Rightarrow> [gpio_bits g] | _ \<Rightarrow> []) @ reported_registers rs"
proof (cases r)
  case (Inr b)
  then show ?thesis by (cases "r # rs" rule: reported_registers.cases) (simp_all add: read_state_def)
qed (simp add: read_state_def)

lemma told_registers_append: "told_registers (es @ fs) = told_registers es @ told_registers fs"
  by (induction es rule: told_registers.induct) simp_all

lemma poll_rounds_told:
  assumes "poll_rounds p prev rs = Returns (g, evs)"
  shows "gpio_bits prev # told_registers evs = remdups_adj (gpio_bits prev # reported_registers rs) \<and>
    gpio_bits g = last (gpio_bits prev # reported_registers rs)"
  using assms
proof (induction rs arbitrary: prev g evs)
  case (Cons r rs)
  obtain g1 evs1 d evs2 where one: "poll_round p prev r = Returns (g1, evs1, d)"
    and r: "poll_rounds p g1 rs = Returns (g, evs2)" and evs: "evs = evs1 @ evs2"
    using Cons.prems by (auto simp: obind_Returns_iff)
  show ?case
  proof (cases "\<exists>st. read_state r = Inr (Some st) \<and> st \<noteq> prev")
    case True
    then obtain st where st: "read_state r = Inr (Some st)" "st \<noteq> prev" by blast
    with one have g1: "g1 = st" "told_registers evs1 = [gpio_bits st]"
      by (auto simp: poll_round_def gpio_events_eq)
    have "gpio_bits prev \<noteq> gpio_bits st" using st(2) by (metis GpioState.expand)
    with Cons.IH [OF r] g1 st(1) evs show ?thesis
      by (simp add: read_state_reported told_registers_append del: reported_registers.simps)
  next
    case False
    then have "g1 = prev" "evs1 = []" "reported_registers (r # rs) = [gpio_bits prev] @ reported_registers rs \<or>
        reported_registers (r # rs) = reported_registers rs"
      using one by (auto simp: poll_round_def read_state_reported simp del: reported_registers.simps
          split: sum.splits option.splits if_splits)
    with Cons.IH [OF r] evs show ?thesis by (auto simp del: reported_registers.simps)
  qed
qed simp

section \<open>Properties\<close>

text \<open>The GPIO event stream is faithful to the hardware reports. Whatever the
  interrupt endpoint delivers (reports of any length, timeouts, errors), the poller
  never panics; in the events it sends, key-down and key-up alternate, as do
  carrier up and carrier down, both lines followed from the events end at the
  level last reported, and the last \<open>GpioChange\<close> is the register last reported.\<close>

lemma gpio_event_stream_faithful:
  "\<exists>g evs. poll_rounds p prev rs = Returns (g, evs) \<and>
     follow_ptt (bit (gpio_bits prev) 0) evs = Some (bit (gpio_bits g) 0) \<and>
     follow_cos (bit (gpio_bits prev) 1) evs = Some (bit (gpio_bits g) 1) \<and>
     follow_state prev evs = g"
  by (rule poll_rounds_faithful)

text \<open>The shared output register: after any sequence of writes to the four pins
  (PTT requests interleaved with the heartbeat, in either profile and whether or
  not the USB transfers succeed), every output bit has the level its own pin was
  last set to, pins never written keep theirs, and the direction register is
  unchanged.\<close>

lemma pin_writes_isolated:
  assumes "list_all (\<lambda>(n, _). n < 4) ops"
  shows "\<exists>g'. set_pins p wc g ops = Returns g' \<and> gpio_dir g' = gpio_dir g \<and>
    (\<forall>b<8. bit (gpio_out g') b = last_level b (bit (gpio_out g) b) ops)"
  using assms by (rule set_pins_effect)

text \<open>In the release profile the pin number of a request is used modulo eight:
  a request for pin 8 changes exactly the register bit of PTT (pin 0) and sends
  the same report to the device, while the debug profile stops with a panic.\<close>

lemma pin_number_wraps:
  "set_pin Release wc g n high = set_pin Release wc g (n mod 8) high \<and>
   set_pin Debug wc g 8 high = Panics"
proof -
  have "unat (n mod 8) = unat n mod 8" by (simp add: unat_mod_distrib)
  then show ?thesis by (simp add: set_pin_def shl_p_def debug_assert_def)
qed

end
