(* ===== verification/Cm108_Kernel.thy ===== *)
theory Cm108_Kernel
  imports Cm108_Types
begin

text \<open>
  The system calls of the program and its log. The kernel is outside the repository:
  it is an argument, a function that answers a call given the calls made before it, so
  that any deterministic environment is an instance. A thread's view of the process is
  the trace of its calls, the lines it printed and the log level. Here are also the
  kernel structures of \<^verbatim>\<open>crates/cm108-hal/src/usbfs.rs\<close> that calls carry, the log
  macros of \<^verbatim>\<open>crates/cm108-hal/src/lib.rs\<close> and decimal output.
\<close>

section \<open>Kernel structures\<close>

record UsbdevfsUrb =
  urb_type :: u8
  endpoint :: u8
  pad0 :: u16
  urb_status :: i32
  flags :: u32
  pad1 :: u32
  buffer :: u64
  buffer_length :: i32
  actual_length :: i32
  start_frame :: i32
  number_of_packets :: i32
  error_count :: i32
  signr :: u32
  usercontext :: u64

record UsbIsoPacketDesc =
  pkt_length :: u32
  pkt_actual_length :: u32
  pkt_status :: u32

record UsbdevfsSetInterface =
  interface :: u32
  altsetting :: u32

record SingleIsoUrb =
  hdr :: UsbdevfsUrb
  pkt :: UsbIsoPacketDesc

section \<open>System calls\<close>

text \<open>The argument of an \<open>ioctl\<close>; with a URB the kernel reads the buffer it points to.\<close>

datatype ioctl_arg =
    ArgU32 u32
  | ArgSetInterface UsbdevfsSetInterface
  | ArgUrb SingleIsoUrb bytes
  | ArgPtr

text \<open>A control message of \<open>sendmsg\<close> and \<open>recvmsg\<close>: level, type, the first integer it
  carries and those behind it. A buffer of \<open>CMSG_SPACE(4)\<close> bytes is padded to a multiple of
  eight, so that there is room for a second one.\<close>

record cmsg =
  cmsg_level :: i32
  cmsg_type :: i32
  cmsg_data :: i32
  cmsg_more :: "i32 list"

text \<open>Arguments in the order of the C functions: process, policy and priority;
  process, size and CPU mask; flags; path and flags; descriptor, request and argument;
  name and flags; descriptor and size; address, length, protection, flags, descriptor
  and offset; address and length; path; descriptor; descriptor, payload and control
  messages; descriptor, payload and control space; descriptor. Opening a file,
  connecting a Unix socket and duplicating a descriptor are what \<open>File\<close> and \<open>UnixStream\<close> of
  the standard library do as a whole, repetition after an interrupt included.\<close>

datatype os_call =
    SchedSetscheduler i32 i32 i32
  | SchedSetaffinity i32 u64 "u64 list"
  | Mlockall i32
  | OpenFile rstring i32
  | Ioctl i32 u64 ioctl_arg
  | MemfdCreate bytes u32
  | Ftruncate i32 u64
  | Mmap u64 u64 i32 i32 i32 u64
  | Munmap u64 u64
  | ConnectUnix rstring
  | DupFd i32
  | SendMsg i32 bytes "cmsg list"
  | RecvMsg i32 nat nat
  | CloseFd i32

text \<open>A call returns a C integer; \<open>stored\<close> is the pointer it returned or stored through
  its argument, \<open>errno\<close> the error number it left, \<open>control\<close> the control messages received.\<close>

record os_ret =
  ret :: i32
  stored :: u64
  errno :: nat
  control :: "cmsg list"

type_synonym kernel = "os_call list \<Rightarrow> os_call \<Rightarrow> os_ret"

record process =
  trace :: "os_call list"
  stderr :: "rstring list"
  log_level :: u8

definition syscall :: "kernel \<Rightarrow> os_call \<Rightarrow> process \<Rightarrow> os_ret \<times> process" where
  "syscall k c ps = (k (trace ps) c, ps\<lparr>trace := trace ps @ [c]\<rparr>)"

definition EAGAIN :: nat where "EAGAIN = 11"

definition last_os_error :: "os_ret \<Rightarrow> ErrorKind" where
  "last_os_error r = (if errno r = EAGAIN then WouldBlock else OtherKind (errno r))"

text \<open>The idiom of the sources: a negative result becomes the last error.\<close>

definition checked_call :: "kernel \<Rightarrow> os_call \<Rightarrow> process \<Rightarrow> (ErrorKind + os_ret) \<times> process" where
  "checked_call k c ps =
     (let (r, ps') = syscall k c ps in
      (if ret r <s 0 then Inl (last_os_error r) else Inr r, ps'))"

definition unit_call :: "kernel \<Rightarrow> os_call \<Rightarrow> process \<Rightarrow> (ErrorKind + unit) \<times> process" where
  "unit_call k c ps =
     (case checked_call k c ps of (Inl e, ps') \<Rightarrow> (Inl e, ps') | (Inr _, ps') \<Rightarrow> (Inr (), ps'))"

text \<open>Dropping an owned descriptor or file closes it; the result is ignored.\<close>

definition close_fd :: "kernel \<Rightarrow> i32 \<Rightarrow> process \<Rightarrow> process" where
  "close_fd k fd ps = snd (syscall k (CloseFd fd) ps)"

section \<open>Text and log\<close>

definition str :: "string \<Rightarrow> rstring" where
  "str s = map of_char s"

definition em_dash :: rstring where
  "em_dash = [0xE2, 0x80, 0x94]"

fun dec_nat :: "nat \<Rightarrow> rstring" where
  "dec_nat n = (if n < 10 then [of_nat (48 + n)] else dec_nat (n div 10) @ [of_nat (48 + n mod 10)])"

declare dec_nat.simps [simp del]

definition dec_i32 :: "i32 \<Rightarrow> rstring" where
  "dec_i32 w = (if w <s 0 then str ''-'' @ dec_nat (nat (- sint w)) else dec_nat (unat w))"

text \<open>\<open>:03\<close>: at least three digits.\<close>

definition pad3 :: "rstring \<Rightarrow> rstring" where
  "pad3 s = replicate (3 - length s) 48 @ s"

definition eprint_at :: "u8 \<Rightarrow> string \<Rightarrow> rstring \<Rightarrow> process \<Rightarrow> process" where
  "eprint_at bound tag line ps =
     (if log_level ps \<le> bound then ps\<lparr>stderr := stderr ps @ [str tag @ line]\<rparr> else ps)"

definition hal_log_info :: "rstring \<Rightarrow> process \<Rightarrow> process" where
  "hal_log_info = eprint_at 2 ''[INFO]  ''"

definition hal_log_warn :: "rstring \<Rightarrow> process \<Rightarrow> process" where
  "hal_log_warn = eprint_at 3 ''[WARN]  ''"

definition hal_log_debug :: "rstring \<Rightarrow> process \<Rightarrow> process" where
  "hal_log_debug = eprint_at 1 ''[DEBUG] ''"

section \<open>Lemmas\<close>

text \<open>The abstract contract of a set-up sequence: calls are made in order up to and
  including the first that fails.\<close>

fun run_calls :: "kernel \<Rightarrow> os_call list \<Rightarrow> os_call list \<Rightarrow> os_call list \<times> bool" where
  "run_calls k tr [] = ([], True)"
| "run_calls k tr (c # cs) =
     (if ret (k tr c) <s 0 then ([c], False)
      else case run_calls k (tr @ [c]) cs of (done_calls, ok) \<Rightarrow> (c # done_calls, ok))"

lemma run_calls_all: "run_calls k tr cs = (made, True) \<Longrightarrow> made = cs"
  by (induction k tr cs arbitrary: made rule: run_calls.induct) (auto split: if_splits prod.splits)

lemma trace_log [simp]:
  "trace (eprint_at b t l ps) = trace ps" "trace (hal_log_info l ps) = trace ps"
  "trace (hal_log_warn l ps) = trace ps" "trace (hal_log_debug l ps) = trace ps"
  by (simp_all add: eprint_at_def hal_log_info_def hal_log_warn_def hal_log_debug_def)

lemma level_log [simp]:
  "log_level (eprint_at b t l ps) = log_level ps" "log_level (hal_log_info l ps) = log_level ps"
  "log_level (hal_log_warn l ps) = log_level ps" "log_level (hal_log_debug l ps) = log_level ps"
  by (simp_all add: eprint_at_def hal_log_info_def hal_log_warn_def hal_log_debug_def)

lemma trace_calls [simp]:
  "trace (snd (syscall k c ps)) = trace ps @ [c]"
  "trace (snd (checked_call k c ps)) = trace ps @ [c]"
  "trace (snd (unit_call k c ps)) = trace ps @ [c]"
  "trace (close_fd k fd ps) = trace ps @ [CloseFd fd]"
  by (simp_all add: syscall_def checked_call_def unit_call_def close_fd_def split: sum.split)

lemma unit_call_eq:
  "unit_call k c ps =
     (if ret (k (trace ps) c) <s 0 then Inl (last_os_error (k (trace ps) c)) else Inr (),
      ps\<lparr>trace := trace ps @ [c]\<rparr>)"
  by (simp add: unit_call_def checked_call_def syscall_def)

lemma checked_call_eq:
  "checked_call k c ps =
     (if ret (k (trace ps) c) <s 0 then Inl (last_os_error (k (trace ps) c)) else Inr (k (trace ps) c),
      ps\<lparr>trace := trace ps @ [c]\<rparr>)"
  by (simp add: checked_call_def syscall_def)

end
