(* ===== verification/Cm108_Usbfs.thy ===== *)
theory Cm108_Usbfs
  imports Cm108_Gpio Cm108_Kernel
begin

text \<open>
  The raw USB device file layer of \<^verbatim>\<open>crates/cm108-hal/src/usbfs.rs\<close>: ioctl numbers,
  the layout of the URB structure, opening the device file and the wrappers around
  \<open>ioctl\<close>; and opening the device, \<^verbatim>\<open>crates/cm108-hal/src/device.rs\<close>. The library
  \<open>rusb\<close> is outside the repository: its calls are the fields of a record of functions.
\<close>

section \<open>ioctl numbers\<close>

definition USBDEVFS_SUBMITURB :: u64 where "USBDEVFS_SUBMITURB = 0x8038550a"
definition USBDEVFS_REAPURBNDELAY :: u64 where "USBDEVFS_REAPURBNDELAY = 0x4008550d"
definition USBDEVFS_CLAIMINTF :: u64 where "USBDEVFS_CLAIMINTF = 0x8004550f"
definition USBDEVFS_SETINTF :: u64 where "USBDEVFS_SETINTF = 0x80085504"
definition USBDEVFS_DISCARDURB :: u64 where "USBDEVFS_DISCARDURB = 0x0000550b"
definition URB_TYPE_ISO :: u8 where "URB_TYPE_ISO = 0"

section \<open>Layout of the kernel structures\<close>

text \<open>Offsets and size of a \<open>repr(C)\<close> struct whose fields have the given sizes, each
  aligned to its size.\<close>

definition align_up :: "nat \<Rightarrow> nat \<Rightarrow> nat" where
  "align_up a n = (n + a - 1) div a * a"

fun field_offsets :: "nat \<Rightarrow> nat list \<Rightarrow> nat list" where
  "field_offsets n [] = []"
| "field_offsets n (w # ws) = align_up w n # field_offsets (align_up w n + w) ws"

definition struct_size :: "nat list \<Rightarrow> nat" where
  "struct_size ws = align_up (foldr max ws 1) (last (field_offsets 0 ws) + last ws)"

definition urb_field_sizes :: "nat list" where
  "urb_field_sizes = [1, 1, 2, 4, 4, 4, 8, 4, 4, 4, 4, 4, 4, 8]"

section \<open>Device file and ioctl wrappers\<close>

definition O_RDWR :: i32 where "O_RDWR = 2"
definition O_CLOEXEC :: i32 where "O_CLOEXEC = 0x80000"

definition usbfs_path :: "u8 \<Rightarrow> u8 \<Rightarrow> rstring" where
  "usbfs_path bus_no addr =
     str ''/dev/bus/usb/'' @ pad3 (dec_nat (unat bus_no)) @ str ''/'' @ pad3 (dec_nat (unat addr))"

definition open_usbfs :: "kernel \<Rightarrow> u8 \<Rightarrow> u8 \<Rightarrow> process \<Rightarrow> (ErrorKind + i32) \<times> process" where
  "open_usbfs k bus_no addr ps =
     (case checked_call k (OpenFile (usbfs_path bus_no addr) (O_RDWR OR O_CLOEXEC)) ps of
        (Inl e, ps') \<Rightarrow> (Inl e, ps')
      | (Inr r, ps') \<Rightarrow> (Inr (ret r), ps'))"

definition claim_interface :: "kernel \<Rightarrow> i32 \<Rightarrow> u32 \<Rightarrow> process \<Rightarrow> (ErrorKind + unit) \<times> process" where
  "claim_interface k fd iface = unit_call k (Ioctl fd USBDEVFS_CLAIMINTF (ArgU32 iface))"

definition set_interface :: "kernel \<Rightarrow> i32 \<Rightarrow> u32 \<Rightarrow> u32 \<Rightarrow> process \<Rightarrow> (ErrorKind + unit) \<times> process" where
  "set_interface k fd iface alt =
     unit_call k (Ioctl fd USBDEVFS_SETINTF (ArgSetInterface \<lparr>interface = iface, altsetting = alt\<rparr>))"

text \<open>\<open>data\<close> is the memory \<open>buffer\<close> of the URB points to.\<close>

definition submit_urb :: "kernel \<Rightarrow> i32 \<Rightarrow> SingleIsoUrb \<Rightarrow> bytes \<Rightarrow> process \<Rightarrow> (ErrorKind + unit) \<times> process" where
  "submit_urb k fd urb data = unit_call k (Ioctl fd USBDEVFS_SUBMITURB (ArgUrb urb data))"

definition reap_urb :: "kernel \<Rightarrow> i32 \<Rightarrow> process \<Rightarrow> (ErrorKind + u64) \<times> process" where
  "reap_urb k fd ps =
     (case checked_call k (Ioctl fd USBDEVFS_REAPURBNDELAY ArgPtr) ps of
        (Inl e, ps') \<Rightarrow> (Inl e, ps')
      | (Inr r, ps') \<Rightarrow> (Inr (stored r), ps'))"

section \<open>Error texts\<close>

text \<open>\<open>rusb_text\<close> is the text of an error of \<open>rusb\<close>.\<close>

fun display_HalError :: "(RusbError \<Rightarrow> rstring) \<Rightarrow> HalError \<Rightarrow> rstring" where
  "display_HalError rusb_text (Usb e) = str ''USB error: '' @ rusb_text e"
| "display_HalError rusb_text NotFound = str ''no CM108/CM119 device found''"
| "display_HalError rusb_text (Hid s) = str ''HID report error: '' @ s"
| "display_HalError rusb_text Xrun = str ''ring buffer full '' @ em_dash @ str '' xrun''"

section \<open>Opening the device\<close>

record dev_desc =
  vendor_id :: u16
  product_id :: u16

record ('d, 'h) rusb_api =
  rusb_devices :: "RusbError + 'd list"
  device_descriptor :: "'d \<Rightarrow> RusbError + dev_desc"
  device_open :: "'d \<Rightarrow> RusbError + 'h"
  bus_number :: "'d \<Rightarrow> u8"
  dev_address :: "'d \<Rightarrow> u8"
  kernel_driver_active :: "'h \<Rightarrow> u8 \<Rightarrow> RusbError + bool \<times> 'h"
  detach_kernel_driver :: "'h \<Rightarrow> u8 \<Rightarrow> RusbError + 'h"
  rusb_claim_interface :: "'h \<Rightarrow> u8 \<Rightarrow> RusbError + 'h"
  release_interface :: "'h \<Rightarrow> u8 \<Rightarrow> 'h"
  attach_kernel_driver :: "'h \<Rightarrow> u8 \<Rightarrow> 'h"

record 'h Cm108Device =
  handle :: 'h
  pid :: u16
  bus :: u8
  address :: u8

definition bind_err :: "'e + 'a \<Rightarrow> ('a \<Rightarrow> 'e + 'b) \<Rightarrow> 'e + 'b" where
  "bind_err m f = (case m of Inl e \<Rightarrow> Inl e | Inr x \<Rightarrow> f x)"

definition usb_err :: "RusbError + 'a \<Rightarrow> HalError + 'a" where
  "usb_err m = (case m of Inl e \<Rightarrow> Inl (Usb e) | Inr x \<Rightarrow> Inr x)"

definition detach_if_active :: "('d, 'h) rusb_api \<Rightarrow> 'h \<Rightarrow> u8 \<Rightarrow> HalError + 'h" where
  "detach_if_active api h iface =
     (case kernel_driver_active api h iface of
        Inr (True, h') \<Rightarrow> usb_err (detach_kernel_driver api h' iface)
      | Inr (False, h') \<Rightarrow> Inr h'
      | Inl e \<Rightarrow> if e = NotSupported then Inr h else Inl (Usb e))"

fun detach_all :: "('d, 'h) rusb_api \<Rightarrow> 'h \<Rightarrow> u8 list \<Rightarrow> HalError + 'h" where
  "detach_all api h [] = Inr h"
| "detach_all api h (i # is) = bind_err (detach_if_active api h i) (\<lambda>h'. detach_all api h' is)"

definition is_cm108 :: "dev_desc \<Rightarrow> bool" where
  "is_cm108 d \<longleftrightarrow> vendor_id d = CM108_VID \<and> product_id d \<in> set CM108_PIDS"

definition take_device :: "('d, 'h) rusb_api \<Rightarrow> 'd \<Rightarrow> dev_desc \<Rightarrow> HalError + 'h Cm108Device" where
  "take_device api d desc =
     bind_err (usb_err (device_open api d)) (\<lambda>h0.
     bind_err (detach_all api h0 [IFACE_AUDIO_CTRL, IFACE_AUDIO_OUT, IFACE_AUDIO_IN, IFACE_HID]) (\<lambda>h1.
     bind_err (usb_err (rusb_claim_interface api h1 IFACE_AUDIO_CTRL)) (\<lambda>h2.
     bind_err (usb_err (rusb_claim_interface api h2 IFACE_HID)) (\<lambda>h3.
     Inr \<lparr>handle = h3, pid = product_id desc, bus = bus_number api d, address = dev_address api d\<rparr>))))"

fun open_scan :: "('d, 'h) rusb_api \<Rightarrow> 'd list \<Rightarrow> HalError + 'h Cm108Device" where
  "open_scan api [] = Inl NotFound"
| "open_scan api (d # ds) =
     bind_err (usb_err (device_descriptor api d)) (\<lambda>desc.
       if is_cm108 desc then take_device api d desc else open_scan api ds)"

definition device_open_first :: "('d, 'h) rusb_api \<Rightarrow> HalError + 'h Cm108Device" where
  "device_open_first api = bind_err (usb_err (rusb_devices api)) (open_scan api)"

definition device_drop :: "('d, 'h) rusb_api \<Rightarrow> 'h Cm108Device \<Rightarrow> 'h" where
  "device_drop api dev =
     fold (\<lambda>iface h. attach_kernel_driver api (release_interface api h iface) iface)
       [IFACE_AUDIO_CTRL, IFACE_HID] (handle dev)"

section \<open>Lemmas\<close>

lemma bind_err_Inr: "bind_err m f = Inr y \<longleftrightarrow> (\<exists>x. m = Inr x \<and> f x = Inr y)"
  by (cases m) (simp_all add: bind_err_def)

lemma usb_err_Inr [simp]: "usb_err m = Inr y \<longleftrightarrow> m = Inr y"
  by (cases m) (simp_all add: usb_err_def)

text \<open>The kernel's \<open>_IOC\<close> macro: direction, size, type and number.\<close>

definition IOC :: "u64 \<Rightarrow> u64 \<Rightarrow> u64 \<Rightarrow> u64 \<Rightarrow> u64" where
  "IOC dir sz ty nr = push_bit 30 dir OR push_bit 16 sz OR push_bit 8 ty OR nr"

section \<open>Properties\<close>

text \<open>The hand-written ioctl numbers and the compile-time size assertion agree
  with the structures: the numbers are the kernel's encoding of direction, argument
  size, type letter and number, with the size of the URB structure as laid out by
  \<open>repr(C)\<close> (56 bytes, buffer pointer at 16, user context at 48).\<close>

lemma usbfs_abi:
  "struct_size urb_field_sizes = 56 \<and>
   field_offsets 0 urb_field_sizes = [0, 1, 2, 4, 8, 12, 16, 24, 28, 32, 36, 40, 44, 48] \<and>
   USBDEVFS_SUBMITURB = IOC 2 (of_nat (struct_size urb_field_sizes)) 0x55 10 \<and>
   USBDEVFS_REAPURBNDELAY = IOC 1 8 0x55 13 \<and>
   USBDEVFS_CLAIMINTF = IOC 2 4 0x55 15 \<and>
   USBDEVFS_SETINTF = IOC 2 (of_nat (struct_size [4, 4])) 0x55 4 \<and>
   USBDEVFS_DISCARDURB = IOC 0 0 0x55 11"
  by (simp add: struct_size_def urb_field_sizes_def align_up_def IOC_def USBDEVFS_SUBMITURB_def
      USBDEVFS_REAPURBNDELAY_def USBDEVFS_CLAIMINTF_def USBDEVFS_SETINTF_def USBDEVFS_DISCARDURB_def)

text \<open>Opening succeeds only on a supported chip: the device returned is the first
  one in the bus scan with the vendor id and one of the known product ids, every
  device before it was readable and not supported, and it carries that device's
  product id, bus and address.\<close>

lemma open_picks_first_supported:
  assumes "open_scan api ds = Inr dev"
  shows "\<exists>pre d post desc. ds = pre @ d # post \<and>
    (\<forall>x \<in> set pre. \<exists>dx. device_descriptor api x = Inr dx \<and> \<not> is_cm108 dx) \<and>
    device_descriptor api d = Inr desc \<and> is_cm108 desc \<and>
    pid dev = product_id desc \<and> bus dev = bus_number api d \<and> address dev = dev_address api d"
  using assms
proof (induction ds)
  case Nil
  then show ?case by simp
next
  case (Cons d ds)
  then obtain desc where desc: "device_descriptor api d = Inr desc"
    and nxt: "(if is_cm108 desc then take_device api d desc else open_scan api ds) = Inr dev"
    by (auto simp: bind_err_Inr)
  show ?case
  proof (cases "is_cm108 desc")
    case True
    with desc nxt show ?thesis
      by (intro exI [of _ "[]"]) (auto simp: take_device_def bind_err_Inr)
  next
    case False
    with nxt Cons.IH obtain pre e post dsc where "ds = pre @ e # post"
      "\<forall>x \<in> set pre. \<exists>dx. device_descriptor api x = Inr dx \<and> \<not> is_cm108 dx"
      "device_descriptor api e = Inr dsc" "is_cm108 dsc" "pid dev = product_id dsc"
      "bus dev = bus_number api e" "address dev = dev_address api e"
      by auto
    with desc False show ?thesis
      by (intro exI [of _ "d # pre"] exI [of _ e] exI [of _ post] exI [of _ dsc]) auto
  qed
qed

end
