(* ===== verification/Cm108_Rt.thy ===== *)
theory Cm108_Rt
  imports Cm108_Kernel
begin

text \<open>
  Real-time configuration of a thread, \<^verbatim>\<open>crates/cm108-hal/src/rt.rs\<close>. \<open>CPU_ZERO\<close> and
  \<open>CPU_SET\<close> are functions of the crate \<open>libc\<close>, outside the repository: they are the
  fields of a record, and what is relied on is the hypothesis \<open>cpu_lib_ok\<close>, the
  documented meaning of a set of 1024 processors.
\<close>

section \<open>Model\<close>

definition SCHED_FIFO :: i32 where "SCHED_FIFO = 1"
definition MCL_CURRENT :: i32 where "MCL_CURRENT = 1"
definition MCL_FUTURE :: i32 where "MCL_FUTURE = 2"

text \<open>The words of a \<open>cpu_set_t\<close>; \<open>CPU_SET\<close> panics when its index is out of range.\<close>

type_synonym cpu_set = "u64 list"

record cpu_lib =
  CPU_ZERO :: "cpu_set \<Rightarrow> cpu_set"
  CPU_SET :: "nat \<Rightarrow> cpu_set \<Rightarrow> cpu_set outcome"

definition cpu_set_zeroed :: cpu_set where
  "cpu_set_zeroed = replicate 16 0"

definition set_sched_fifo :: "kernel \<Rightarrow> i32 \<Rightarrow> process \<Rightarrow> process" where
  "set_sched_fifo k priority ps =
     (case syscall k (SchedSetscheduler 0 SCHED_FIFO priority) ps of (r, ps') \<Rightarrow>
        if ret r \<noteq> 0
        then hal_log_warn (str ''sched_setscheduler failed '' @ em_dash @
               str '' running without RT priority priority='' @ dec_i32 priority @
               str '' errno='' @ dec_nat (errno r)) ps'
        else ps')"

definition set_affinity :: "kernel \<Rightarrow> cpu_lib \<Rightarrow> nat \<Rightarrow> process \<Rightarrow> process outcome" where
  "set_affinity k lib core ps =
     obind (CPU_SET lib core (CPU_ZERO lib cpu_set_zeroed)) (\<lambda>cs.
     Returns (case syscall k (SchedSetaffinity 0 128 cs) ps of (r, ps') \<Rightarrow>
       if ret r \<noteq> 0 then hal_log_warn (str ''sched_setaffinity failed core='' @ dec_nat core) ps' else ps'))"

definition mlockall :: "kernel \<Rightarrow> process \<Rightarrow> process" where
  "mlockall k ps =
     (case syscall k (Mlockall (MCL_CURRENT OR MCL_FUTURE)) ps of (r, ps') \<Rightarrow>
        if ret r \<noteq> 0
        then hal_log_warn (str ''mlockall failed '' @ em_dash @ str '' memory may be paged out under pressure'') ps'
        else ps')"

definition configure_rt :: "kernel \<Rightarrow> cpu_lib \<Rightarrow> i32 \<Rightarrow> nat \<Rightarrow> process \<Rightarrow> process outcome" where
  "configure_rt k lib priority core ps =
     obind (set_affinity k lib core (set_sched_fifo k priority ps)) (\<lambda>ps'.
     Returns (mlockall k ps'))"

section \<open>What is relied on\<close>

definition cpu_bit :: "cpu_set \<Rightarrow> nat \<Rightarrow> bool" where
  "cpu_bit cs i \<longleftrightarrow> bit (cs ! (i div 64)) (i mod 64)"

definition cpu_lib_ok :: "cpu_lib \<Rightarrow> bool" where
  "cpu_lib_ok lib \<longleftrightarrow>
     (\<forall>cs. length cs = 16 \<longrightarrow> CPU_ZERO lib cs = replicate 16 0) \<and>
     (\<forall>core cs. core < 1024 \<longrightarrow> length cs = 16 \<longrightarrow>
        (\<exists>cs'. CPU_SET lib core cs = Returns cs' \<and> length cs' = 16 \<and>
           (\<forall>i<1024. cpu_bit cs' i \<longleftrightarrow> i = core \<or> cpu_bit cs i)))"

text \<open>The set that holds one processor.\<close>

definition only_cpu :: "nat \<Rightarrow> cpu_set" where
  "only_cpu core = (replicate 16 0)[core div 64 := push_bit (core mod 64) 1]"

text \<open>The calls of a configuration, and the warnings it prints.\<close>

definition rt_calls :: "i32 \<Rightarrow> nat \<Rightarrow> os_call list" where
  "rt_calls priority core =
     [SchedSetscheduler 0 SCHED_FIFO priority, SchedSetaffinity 0 128 (only_cpu core),
      Mlockall (MCL_CURRENT OR MCL_FUTURE)]"

fun failures :: "kernel \<Rightarrow> os_call list \<Rightarrow> os_call list \<Rightarrow> nat" where
  "failures k tr [] = 0"
| "failures k tr (c # cs) = (if ret (k tr c) = 0 then 0 else 1) + failures k (tr @ [c]) cs"

section \<open>Lemmas\<close>

lemma only_cpu_bit: "core < 1024 \<Longrightarrow> i < 1024 \<Longrightarrow> cpu_bit (only_cpu core) i \<longleftrightarrow> i = core"
proof -
  assume b: "core < 1024" "i < 1024"
  then have "core div 64 < 16" "i div 64 < 16" by auto
  moreover have "i mod 64 < 64" "core mod 64 < 64" by auto
  moreover have "i = core \<longleftrightarrow> i div 64 = core div 64 \<and> i mod 64 = core mod 64"
    by (metis div_mult_mod_eq)
  ultimately show ?thesis
    by (auto simp: cpu_bit_def only_cpu_def nth_list_update bit_exp_iff)
qed

lemma cpu_set_eqI:
  assumes "length cs = 16" "length ds = 16" "\<And>i. i < 1024 \<Longrightarrow> cpu_bit cs i = cpu_bit ds i"
  shows "cs = ds"
proof (rule nth_equalityI)
  fix w assume "w < length cs"
  show "cs ! w = ds ! w"
  proof (rule bit_word_eqI)
    fix n assume n: "n < LENGTH(64)"
    then have "w * 64 + n < 1024" using \<open>w < length cs\<close> assms(1) by simp
    from assms(3) [OF this] n show "bit (cs ! w) n = bit (ds ! w) n"
      by (simp add: cpu_bit_def)
  qed
qed (use assms in simp)

lemma cpu_set_only:
  assumes "cpu_lib_ok lib" "core < 1024"
  shows "CPU_SET lib core (CPU_ZERO lib cpu_set_zeroed) = Returns (only_cpu core)"
proof -
  have zero: "CPU_ZERO lib cpu_set_zeroed = replicate 16 0"
    using assms(1) by (simp add: cpu_lib_ok_def cpu_set_zeroed_def)
  have "length (replicate 16 (0 :: u64)) = 16" by simp
  then obtain cs where cs: "CPU_SET lib core (replicate 16 0) = Returns cs" "length cs = 16"
    "\<forall>i<1024. cpu_bit cs i \<longleftrightarrow> i = core \<or> cpu_bit (replicate 16 0) i"
    using assms unfolding cpu_lib_ok_def by blast
  have "cs = only_cpu core"
  proof (rule cpu_set_eqI)
    fix i :: nat assume i: "i < 1024"
    then have "\<not> cpu_bit (replicate 16 0) i" by (simp add: cpu_bit_def)
    with cs(3) i assms(2) show "cpu_bit cs i = cpu_bit (only_cpu core) i" by (simp add: only_cpu_bit)
  qed (use cs in \<open>simp_all add: only_cpu_def\<close>)
  with cs(1) zero show ?thesis by simp
qed

text \<open>A configuration makes its three calls in order whatever they return, and prints
  one warning for each that failed unless warnings are off.\<close>

lemma configure_rt_calls:
  assumes "cpu_lib_ok lib" "core < 1024"
  shows "\<exists>ps'. configure_rt k lib priority core ps = Returns ps' \<and>
    trace ps' = trace ps @ rt_calls priority core \<and> log_level ps' = log_level ps \<and>
    length (stderr ps') = length (stderr ps) +
      (if log_level ps \<le> 3 then failures k (trace ps) (rt_calls priority core) else 0)"
  unfolding configure_rt_def set_affinity_def cpu_set_only [OF assms]
  by (simp add: set_sched_fifo_def mlockall_def syscall_def rt_calls_def hal_log_warn_def eprint_at_def)

text \<open>The functions of the crate as it implements them, an instance of the hypothesis.\<close>

definition demo_cpu_lib :: cpu_lib where
  "demo_cpu_lib = \<lparr>CPU_ZERO = (\<lambda>cs. map (\<lambda>_. 0) cs),
     CPU_SET = (\<lambda>core cs. if core div 64 < length cs
       then Returns (cs[core div 64 := cs ! (core div 64) OR push_bit (core mod 64) 1]) else Panics)\<rparr>"

lemma demo_cpu_lib_ok: "cpu_lib_ok demo_cpu_lib"
proof -
  have "cpu_bit (cs[core div 64 := cs ! (core div 64) OR push_bit (core mod 64) 1]) i \<longleftrightarrow>
      i = core \<or> cpu_bit cs i" if "core < 1024" "i < 1024" "length cs = 16" for core i cs
  proof -
    have "i = core \<longleftrightarrow> i div 64 = core div 64 \<and> i mod 64 = core mod 64" by (metis div_mult_mod_eq)
    moreover have "core div 64 < 16" using that(1) by auto
    ultimately show ?thesis using that(3)
      by (auto simp: cpu_bit_def nth_list_update bit_or_iff bit_exp_iff)
  qed
  then show ?thesis
    by (auto simp: cpu_lib_ok_def demo_cpu_lib_def map_replicate_const)
qed

end
