(* ===== verification/Cm108_Iso.thy ===== *)
theory Cm108_Iso
  imports Cm108_Usbfs Cm108_Rt Cm108_Codec "HOL-Library.Sublist"
begin

text \<open>
  The isochronous audio threads of \<^verbatim>\<open>crates/cm108-hal/src/iso_stream.rs\<close>. The ring
  buffers come from the crate \<open>rtrb\<close>, which is not part of the repository: its
  \<open>push\<close> and \<open>pop\<close> are arguments, and what the threads rely on is the hypothesis
  \<open>ring_fifo\<close> (a bounded first-in first-out queue; \<open>push\<close> fails exactly when it is
  full, \<open>pop\<close> exactly when it is empty). One round of each thread's loop is a
  function of the result of \<open>reap_urb\<close> and of the resubmission; \<open>rx_iterate\<close> and
  \<open>tx_iterate\<close> make the two system calls. What the kernel writes into a completed URB
  and its buffer is an event of its own.
\<close>

section \<open>Ring buffers\<close>

record 'r ring_api =
  ring_push :: "'r \<Rightarrow> AudioFrame \<Rightarrow> 'r option"
  ring_pop :: "'r \<Rightarrow> (AudioFrame \<times> 'r) option"

definition ring_fifo :: "'r ring_api \<Rightarrow> ('r \<Rightarrow> AudioFrame list) \<Rightarrow> nat \<Rightarrow> bool" where
  "ring_fifo api contents cap \<longleftrightarrow>
     (\<forall>r f. if length (contents r) < cap
        then \<exists>r'. ring_push api r f = Some r' \<and> contents r' = contents r @ [f]
        else ring_push api r f = None) \<and>
     (\<forall>r. case contents r of
        [] \<Rightarrow> ring_pop api r = None
      | f # fs \<Rightarrow> \<exists>r'. ring_pop api r = Some (f, r') \<and> contents r' = fs)"

section \<open>Constants and sample conversion\<close>

definition RING_CAPACITY :: nat where "RING_CAPACITY = 64"
definition N_URBS :: nat where "N_URBS = 8"
definition ISO_IN_PACKET :: nat where "ISO_IN_PACKET = 100"
definition ISO_OUT_PACKET :: nat where "ISO_OUT_PACKET = 96"

definition bytes_to_frame :: "bytes \<Rightarrow> AudioFrame" where
  "bytes_to_frame buf =
     (let count = min (length buf div 2) SAMPLES_PER_FRAME in
      AudioFrame (fold (\<lambda>i fr. let s = of_le_bytes [buf ! (i * 2), buf ! (i * 2 + 1)] in
          (fr[i * 2 := s])[i * 2 + 1 := s]) [0..<count] (samples AudioFrame_default)))"

definition frame_to_mono :: "AudioFrame \<Rightarrow> bytes \<Rightarrow> bytes" where
  "frame_to_mono frame buf =
     fold (\<lambda>i b. let le = le_bytes 2 (samples frame ! (i * 2)) in
         (b[i * 2 := le ! 0])[i * 2 + 1 := le ! 1]) [0..<SAMPLES_PER_FRAME] buf"

section \<open>URBs\<close>

definition init_rx_urb :: "u64 \<Rightarrow> nat \<Rightarrow> SingleIsoUrb" where
  "init_rx_urb buf_ptr idx =
     \<lparr>hdr = \<lparr>urb_type = URB_TYPE_ISO, endpoint = EP_ISO_IN, pad0 = 0, urb_status = 0, flags = 0, pad1 = 0,
        buffer = buf_ptr, buffer_length = of_nat ISO_IN_PACKET, actual_length = 0, start_frame = 0,
        number_of_packets = 1, error_count = 0, signr = 0, usercontext = of_nat idx\<rparr>,
      pkt = \<lparr>pkt_length = of_nat ISO_IN_PACKET, pkt_actual_length = 0, pkt_status = 0\<rparr>\<rparr>"

definition init_tx_urb :: "u64 \<Rightarrow> nat \<Rightarrow> SingleIsoUrb" where
  "init_tx_urb buf_ptr idx =
     \<lparr>hdr = \<lparr>urb_type = URB_TYPE_ISO, endpoint = EP_ISO_OUT, pad0 = 0, urb_status = 0, flags = 0, pad1 = 0,
        buffer = buf_ptr, buffer_length = of_nat ISO_OUT_PACKET, actual_length = 0, start_frame = 0,
        number_of_packets = 1, error_count = 0, signr = 0, usercontext = of_nat idx\<rparr>,
      pkt = \<lparr>pkt_length = of_nat ISO_OUT_PACKET, pkt_actual_length = 0, pkt_status = 0\<rparr>\<rparr>"

text \<open>The state both threads keep: URBs, their buffers and buffer addresses, one end of
  a ring, the overrun or underrun counter, and which URBs the kernel owns.\<close>

record 'r iso_thread =
  urbs :: "SingleIsoUrb list"
  bufs :: "bytes list"
  buf_ptrs :: "u64 list"
  ring :: 'r
  xruns :: u64
  owned :: "bool list"

text \<open>The URB whose index the kernel handed back is armed again and submitted;
  a failed submission is only logged.\<close>

definition resubmit :: "(u64 \<Rightarrow> nat \<Rightarrow> SingleIsoUrb) \<Rightarrow> nat \<Rightarrow> bool \<Rightarrow> 'r iso_thread \<Rightarrow> 'r iso_thread" where
  "resubmit init i ok s =
     s\<lparr>urbs := (urbs s)[i := init (buf_ptrs s ! i) i], owned := (owned s)[i := ok]\<rparr>"

datatype reap_result = ReapOk u64 | ReapWouldBlock | ReapError nat

section \<open>Thread start\<close>

text \<open>The first submissions, up to the first failure. \<open>io_text\<close> is the text of an error
  of the standard library.\<close>

fun submit_all :: "kernel \<Rightarrow> (ErrorKind \<Rightarrow> rstring) \<Rightarrow> rstring \<Rightarrow> (u64 \<Rightarrow> nat \<Rightarrow> SingleIsoUrb) \<Rightarrow> i32 \<Rightarrow> nat list
    \<Rightarrow> 'r iso_thread \<Rightarrow> process \<Rightarrow> 'r iso_thread option \<times> process" where
  "submit_all k io_text lbl init fd [] t ps = (Some t, ps)"
| "submit_all k io_text lbl init fd (i # is) t ps =
     (case submit_urb k fd (init (buf_ptrs t ! i) i) (bufs t ! i) ps of
        (Inl e, ps') \<Rightarrow>
          (None, hal_log_warn (lbl @ str '': initial submit failed i='' @ dec_nat i @ str '': '' @ io_text e) ps')
      | (Inr _, ps') \<Rightarrow> submit_all k io_text lbl init fd is (resubmit init i True t) ps')"

text \<open>The start of a thread: configuration, device file, interface and alternate setting,
  zeroed URBs and buffers, first submissions. \<open>None\<close> when the thread has logged a
  warning and ended; the device file is then closed.\<close>

definition iso_thread_start :: "rstring \<Rightarrow> (u64 \<Rightarrow> nat \<Rightarrow> SingleIsoUrb) \<Rightarrow> u8 \<Rightarrow> nat
    \<Rightarrow> kernel \<Rightarrow> cpu_lib \<Rightarrow> (ErrorKind \<Rightarrow> rstring) \<Rightarrow> i32 \<Rightarrow> nat \<Rightarrow> 'h Cm108Device \<Rightarrow> SingleIsoUrb \<Rightarrow> u64 list \<Rightarrow> 'r
    \<Rightarrow> process \<Rightarrow> (('r iso_thread \<times> i32) option \<times> process) outcome" where
  "iso_thread_start lbl init iface packet k lib io_text priority core dev zeroed ptrs r ps0 =
     obind (configure_rt k lib priority core ps0) (\<lambda>ps1. Returns
     (case open_usbfs k (bus dev) (address dev) ps1 of
        (Inl e, ps2) \<Rightarrow> (None, hal_log_warn (lbl @ str '': open usbfs failed: '' @ io_text e) ps2)
      | (Inr fd, ps2) \<Rightarrow>
          (case (case claim_interface k fd (ucast iface) ps2 of
                   (Inl e, ps3) \<Rightarrow> (Inl e, ps3)
                 | (Inr _, ps3) \<Rightarrow> set_interface k fd (ucast iface) 1 ps3) of
             (Inl e, ps4) \<Rightarrow> (None, close_fd k fd (hal_log_warn (lbl @ str '': setup failed: '' @ io_text e) ps4))
           | (Inr _, ps4) \<Rightarrow>
               (case submit_all k io_text lbl init fd [0..<N_URBS]
                       \<lparr>urbs = replicate N_URBS zeroed, bufs = replicate N_URBS (replicate packet 0),
                        buf_ptrs = ptrs, ring = r, xruns = 0, owned = replicate N_URBS False\<rparr> ps4 of
                  (None, ps5) \<Rightarrow> (None, close_fd k fd ps5)
                | (Some t, ps5) \<Rightarrow> (Some (t, fd), hal_log_debug (lbl @ str '' thread started'') ps5)))))"

definition rx_thread_start :: "kernel \<Rightarrow> cpu_lib \<Rightarrow> (ErrorKind \<Rightarrow> rstring) \<Rightarrow> i32 \<Rightarrow> nat \<Rightarrow> 'h Cm108Device
    \<Rightarrow> SingleIsoUrb \<Rightarrow> u64 list \<Rightarrow> 'r \<Rightarrow> process \<Rightarrow> (('r iso_thread \<times> i32) option \<times> process) outcome" where
  "rx_thread_start = iso_thread_start (str ''RX'') init_rx_urb IFACE_AUDIO_IN ISO_IN_PACKET"

definition tx_thread_start :: "kernel \<Rightarrow> cpu_lib \<Rightarrow> (ErrorKind \<Rightarrow> rstring) \<Rightarrow> i32 \<Rightarrow> nat \<Rightarrow> 'h Cm108Device
    \<Rightarrow> SingleIsoUrb \<Rightarrow> u64 list \<Rightarrow> 'r \<Rightarrow> process \<Rightarrow> (('r iso_thread \<times> i32) option \<times> process) outcome" where
  "tx_thread_start = iso_thread_start (str ''TX'') init_tx_urb IFACE_AUDIO_OUT ISO_OUT_PACKET"

text \<open>\<open>IsoStream::start\<close> from the results of spawning the two threads: the ends of the
  rings, and which threads were started; when the second cannot be spawned the first
  keeps running.\<close>

record 'r IsoStream =
  iso_rx_consumer :: 'r
  iso_tx_producer :: 'r
  iso_rx_xruns :: u64
  iso_tx_xruns :: u64

datatype iso_spawn = SpawnRx i32 nat | SpawnTx i32 nat

definition iso_stream_start :: "(nat \<Rightarrow> 'r) \<Rightarrow> (ErrorKind \<Rightarrow> rstring) \<Rightarrow> (iso_spawn \<Rightarrow> ErrorKind + unit)
    \<Rightarrow> i32 \<Rightarrow> i32 \<Rightarrow> nat \<Rightarrow> nat \<Rightarrow> (HalError + 'r IsoStream) \<times> iso_spawn list" where
  "iso_stream_start ring_new io_text spawn rx_priority tx_priority rx_core tx_core =
     (case spawn (SpawnRx rx_priority rx_core) of
        Inl e \<Rightarrow> (Inl (Hid (io_text e)), [])
      | Inr _ \<Rightarrow> (case spawn (SpawnTx tx_priority tx_core) of
          Inl e \<Rightarrow> (Inl (Hid (io_text e)), [SpawnRx rx_priority rx_core])
        | Inr _ \<Rightarrow> (Inr \<lparr>iso_rx_consumer = ring_new RING_CAPACITY, iso_tx_producer = ring_new RING_CAPACITY,
                          iso_rx_xruns = 0, iso_tx_xruns = 0\<rparr>,
                    [SpawnRx rx_priority rx_core, SpawnTx tx_priority tx_core])))"

section \<open>One round of each loop\<close>

text \<open>The frame of a completed RX packet; slicing the buffer beyond its end panics.\<close>

definition rx_packet :: "SingleIsoUrb \<Rightarrow> bytes \<Rightarrow> AudioFrame option outcome" where
  "rx_packet urb buf =
     (let n = unat (pkt_actual_length (pkt urb)) in
      if urb_status (hdr urb) = 0 \<and> n > 0
      then if n \<le> length buf then Returns (Some (bytes_to_frame (take n buf))) else Panics
      else Returns None)"

definition rx_push :: "'r ring_api \<Rightarrow> AudioFrame option \<Rightarrow> 'r iso_thread \<Rightarrow> 'r iso_thread" where
  "rx_push api fr s =
     (case fr of
        None \<Rightarrow> s
      | Some f \<Rightarrow> (case ring_push api (ring s) f of
          Some r \<Rightarrow> s\<lparr>ring := r\<rparr>
        | None \<Rightarrow> s\<lparr>xruns := xruns s + 1\<rparr>))"

text \<open>The second component is the pause in microseconds before the next round.\<close>

definition rx_round :: "'r ring_api \<Rightarrow> reap_result \<Rightarrow> bool \<Rightarrow> 'r iso_thread \<Rightarrow> ('r iso_thread \<times> nat) outcome" where
  "rx_round api reaped submit_ok s =
     (case reaped of
        ReapOk ctx \<Rightarrow>
          (let i = unat ctx in
           if i < N_URBS
           then obind (rx_packet (urbs s ! i) (bufs s ! i)) (\<lambda>fr.
                Returns (resubmit init_rx_urb i submit_ok (rx_push api fr s), 0))
           else Returns (s, 0))
      | ReapWouldBlock \<Rightarrow> Returns (s, 200)
      | ReapError e \<Rightarrow> Returns (s, 5000))"

definition tx_round :: "'r ring_api \<Rightarrow> reap_result \<Rightarrow> bool \<Rightarrow> 'r iso_thread \<Rightarrow> 'r iso_thread \<times> nat" where
  "tx_round api reaped submit_ok s =
     (case reaped of
        ReapOk ctx \<Rightarrow>
          (let i = unat ctx in
           if i < N_URBS
           then let s1 = (case ring_pop api (ring s) of
                    Some (f, r) \<Rightarrow> s\<lparr>ring := r, bufs := (bufs s)[i := frame_to_mono f (bufs s ! i)]\<rparr>
                  | None \<Rightarrow> s\<lparr>xruns := xruns s + 1, bufs := (bufs s)[i := replicate ISO_OUT_PACKET 0]\<rparr>)
                in (resubmit init_tx_urb i submit_ok s1, 0)
           else (s, 0))
      | ReapWouldBlock \<Rightarrow> (s, 200)
      | ReapError e \<Rightarrow> (s, 5000))"

section \<open>The loops against the kernel\<close>

definition reap_result_of :: "ErrorKind + u64 \<Rightarrow> reap_result" where
  "reap_result_of res =
     (case res of
        Inr ctx \<Rightarrow> ReapOk ctx
      | Inl WouldBlock \<Rightarrow> ReapWouldBlock
      | Inl (OtherKind n) \<Rightarrow> ReapError n
      | Inl _ \<Rightarrow> ReapError 0)"

text \<open>Whether the round submits, which URB, and with what result; failures are logged. The
  transmit thread fills the buffer before it submits.\<close>

definition submit_again :: "kernel \<Rightarrow> (ErrorKind \<Rightarrow> rstring) \<Rightarrow> rstring \<Rightarrow> (u64 \<Rightarrow> nat \<Rightarrow> SingleIsoUrb) \<Rightarrow> i32
    \<Rightarrow> ErrorKind + u64 \<Rightarrow> 'r iso_thread \<Rightarrow> process \<Rightarrow> bool \<times> process" where
  "submit_again k io_text lbl init fd res t ps =
     (case res of
        Inr ctx \<Rightarrow>
          (let i = unat ctx in
           if i < N_URBS
           then (case submit_urb k fd (init (buf_ptrs t ! i) i) (bufs t ! i) ps of
               (Inl e, ps') \<Rightarrow> (False, hal_log_warn (lbl @ str '': resubmit failed: '' @ io_text e) ps')
             | (Inr _, ps') \<Rightarrow> (True, ps'))
           else (False, ps))
      | Inl e \<Rightarrow>
          (False, if e = WouldBlock then ps else hal_log_warn (lbl @ str '': reap error: '' @ io_text e) ps))"

definition rx_iterate :: "kernel \<Rightarrow> (ErrorKind \<Rightarrow> rstring) \<Rightarrow> 'r ring_api \<Rightarrow> i32 \<Rightarrow> 'r iso_thread \<Rightarrow> process
    \<Rightarrow> ('r iso_thread \<times> nat \<times> process) outcome" where
  "rx_iterate k io_text api fd t ps =
     (case reap_urb k fd ps of (res, ps1) \<Rightarrow>
      case submit_again k io_text (str ''RX'') init_rx_urb fd res t ps1 of (ok, ps2) \<Rightarrow>
      obind (rx_round api (reap_result_of res) ok t) (\<lambda>(t', pause). Returns (t', pause, ps2)))"

definition tx_iterate :: "kernel \<Rightarrow> (ErrorKind \<Rightarrow> rstring) \<Rightarrow> 'r ring_api \<Rightarrow> i32 \<Rightarrow> 'r iso_thread \<Rightarrow> process
    \<Rightarrow> 'r iso_thread \<times> nat \<times> process" where
  "tx_iterate k io_text api fd t ps =
     (case reap_urb k fd ps of (res, ps1) \<Rightarrow>
      let filled = fst (tx_round api (reap_result_of res) False t) in
      case submit_again k io_text (str ''TX'') init_tx_urb fd res filled ps1 of (ok, ps2) \<Rightarrow>
      case tx_round api (reap_result_of res) ok t of (t', pause) \<Rightarrow> (t', pause, ps2))"

section \<open>The transmit path as a system\<close>

text \<open>Events: a connection handler queues a frame, the thread runs one iteration. Ghost:
  the frames the ring accepted. \<open>handed\<close> are the packets given to the kernel.\<close>

record 'r tx_sys =
  tthr :: "'r iso_thread"
  tproc :: process
  tqueued :: "AudioFrame list"

datatype tx_event = Writes AudioFrame | Iterates

fun tx_event_step :: "kernel \<Rightarrow> (ErrorKind \<Rightarrow> rstring) \<Rightarrow> 'r ring_api \<Rightarrow> i32 \<Rightarrow> tx_event \<Rightarrow> 'r tx_sys \<Rightarrow> 'r tx_sys" where
  "tx_event_step k io_text api fd (Writes f) y =
     (case ring_push api (ring (tthr y)) f of
        Some r \<Rightarrow> y\<lparr>tthr := (tthr y)\<lparr>ring := r\<rparr>, tqueued := tqueued y @ [f]\<rparr>
      | None \<Rightarrow> y)"
| "tx_event_step k io_text api fd Iterates y =
     (case tx_iterate k io_text api fd (tthr y) (tproc y) of
        (t, pause, ps) \<Rightarrow> y\<lparr>tthr := t, tproc := ps\<rparr>)"

fun handed :: "os_call list \<Rightarrow> bytes list" where
  "handed [] = []"
| "handed (Ioctl fd req (ArgUrb urb data) # cs) = data # handed cs"
| "handed (c # cs) = handed cs"

text \<open>Reference: a packet that plays a frame has the 48 samples of its left channel, those with
  even index, each with the low byte first; or it is silence.\<close>

definition tx_packet :: "AudioFrame option \<Rightarrow> bytes" where
  "tx_packet play =
     (case play of
        Some f \<Rightarrow> concat (map (\<lambda>i. [ucast (samples f ! (2 * i)), ucast (drop_bit 8 (samples f ! (2 * i)))]) [0..<48])
      | None \<Rightarrow> replicate 96 0)"

text \<open>Reference: what a packet of the device sounds like: 48 stereo samples, both channels
  alike, each from two bytes of the packet, the low one first, and silence where the packet
  has ended.\<close>

definition heard :: "bytes \<Rightarrow> AudioFrame" where
  "heard b = AudioFrame (concat (map (\<lambda>i.
     let s = (if 2 * i + 1 < length b then ucast (b ! (2 * i)) OR push_bit 8 (ucast (b ! (2 * i + 1))) else 0) in [s, s]) [0..<48]))"

text \<open>What the kernel reports of a completed URB: status, number of bytes and the buffer; and
  the frames of those that carry audio.\<close>

datatype completion = Completion (c_status: i32) (c_length: u32) (c_data: bytes)

definition good_packets :: "completion list \<Rightarrow> AudioFrame list" where
  "good_packets cs = map (\<lambda>c. heard (take (unat (c_length c)) (c_data c)))
     (filter (\<lambda>c. c_status c = 0 \<and> 0 < unat (c_length c)) cs)"

section \<open>The receive path as a system\<close>

text \<open>Events: the kernel completes a URB (status, length, packet bytes), the thread
  runs one round, the dispatch thread takes a frame. Ghosts: the frames of all good
  packets seen so far and the frames taken.\<close>

record 'r rx_sys =
  thr :: "'r iso_thread"
  seen :: "AudioFrame list"
  taken :: "AudioFrame list"

datatype rx_event = Completes nat i32 u32 bytes | Round reap_result bool | Takes

definition kernel_complete :: "nat \<Rightarrow> i32 \<Rightarrow> u32 \<Rightarrow> bytes \<Rightarrow> 'r iso_thread \<Rightarrow> 'r iso_thread" where
  "kernel_complete i st n data s =
     s\<lparr>urbs := (urbs s)[i := (urbs s ! i)\<lparr>hdr := (hdr (urbs s ! i))\<lparr>urb_status := st\<rparr>,
                                         pkt := (pkt (urbs s ! i))\<lparr>pkt_actual_length := n\<rparr>\<rparr>],
       bufs := (bufs s)[i := data]\<rparr>"

definition round_frame :: "reap_result \<Rightarrow> 'r iso_thread \<Rightarrow> AudioFrame list" where
  "round_frame reaped s =
     (case reaped of
        ReapOk ctx \<Rightarrow>
          if unat ctx < N_URBS
          then (case rx_packet (urbs s ! unat ctx) (bufs s ! unat ctx) of
                  Returns (Some f) \<Rightarrow> [f] | _ \<Rightarrow> [])
          else []
      | _ \<Rightarrow> [])"

fun rx_event_step :: "'r ring_api \<Rightarrow> 'r rx_sys \<Rightarrow> rx_event \<Rightarrow> 'r rx_sys outcome" where
  "rx_event_step api y (Completes i st n data) = Returns (y\<lparr>thr := kernel_complete i st n data (thr y)\<rparr>)"
| "rx_event_step api y (Round reaped ok) =
     obind (rx_round api reaped ok (thr y)) (\<lambda>(t, _).
     Returns (y\<lparr>thr := t, seen := seen y @ round_frame reaped (thr y)\<rparr>))"
| "rx_event_step api y Takes =
     (case ring_pop api (ring (thr y)) of
        None \<Rightarrow> Returns y
      | Some (f, r) \<Rightarrow> Returns (y\<lparr>thr := (thr y)\<lparr>ring := r\<rparr>, taken := taken y @ [f]\<rparr>))"

definition rx_run :: "'r ring_api \<Rightarrow> 'r rx_sys \<Rightarrow> rx_event list \<Rightarrow> 'r rx_sys outcome" where
  "rx_run api = ofold (rx_event_step api)"

text \<open>The kernel completes URBs of the array with a whole buffer and never reports
  more bytes than the buffer holds.\<close>

fun kernel_ok :: "rx_event \<Rightarrow> bool" where
  "kernel_ok (Completes i st n data) = (i < 8 \<and> length data = 100 \<and> unat n \<le> 100)"
| "kernel_ok _ = True"

definition iso_ok :: "'r iso_thread \<Rightarrow> bool" where
  "iso_ok s \<longleftrightarrow> length (urbs s) = 8 \<and> length (bufs s) = 8 \<and> length (owned s) = 8 \<and>
     list_all (\<lambda>b. length b = 100) (bufs s) \<and>
     list_all (\<lambda>u. unat (pkt_actual_length (pkt u)) \<le> 100) (urbs s)"

text \<open>All URBs armed and none completed, as after the start of the thread.\<close>

definition armed :: "'r iso_thread \<Rightarrow> bool" where
  "armed s \<longleftrightarrow> list_all (\<lambda>u. pkt_actual_length (pkt u) = 0) (urbs s)"

section \<open>Sample conversion lemmas\<close>

lemma length_fold_pairs:
  "length (fold (\<lambda>i b. (b[i * 2 := h i])[i * 2 + 1 := k i]) is xs) = length xs"
  by (induction "is" arbitrary: xs) simp_all

lemma fold_pairs_nth:
  assumes "j < length xs"
  shows "fold (\<lambda>i b. (b[i * 2 := h i])[i * 2 + 1 := k i]) [0..<c] xs ! j =
    (if j div 2 < c then if even j then h (j div 2) else k (j div 2) else xs ! j)"
proof (induction c)
  case 0
  then show ?case by simp
next
  case (Suc c)
  let ?ys = "fold (\<lambda>i b. (b[i * 2 := h i])[i * 2 + 1 := k i]) [0..<c] xs"
  have "j < length ?ys" using assms by (simp only: length_fold_pairs)
  then have "((?ys[c * 2 := h c])[c * 2 + 1 := k c]) ! j =
      (if j = c * 2 + 1 then k c else if j = c * 2 then h c else ?ys ! j)"
    by (simp add: nth_list_update)
  also have "\<dots> = (if j div 2 < Suc c then if even j then h (j div 2) else k (j div 2) else xs ! j)"
    unfolding Suc by (cases "j div 2 = c") (auto elim!: evenE oddE)
  finally show ?case by (simp add: fold_append)
qed

lemma bytes_to_frame_ok [simp]: "frame_ok (bytes_to_frame buf)"
  by (simp add: bytes_to_frame_def Let_def layout AudioFrame_default_def length_fold_pairs [unfolded Suc_eq_plus1 [symmetric]])

lemma bytes_to_frame_nth:
  assumes "j < 96"
  shows "samples (bytes_to_frame buf) ! j =
    (if j div 2 < length buf div 2
     then of_le_bytes [buf ! (j div 2 * 2), buf ! (j div 2 * 2 + 1)] else 0)"
  using assms fold_pairs_nth [of j "samples AudioFrame_default"
      "\<lambda>i. of_le_bytes [buf ! (i * 2), buf ! (i * 2 + 1)]" "\<lambda>i. of_le_bytes [buf ! (i * 2), buf ! (i * 2 + 1)]"
      "min (length buf div 2) 48"]
  by (auto simp: bytes_to_frame_def Let_def layout AudioFrame_default_def)

lemma frame_to_mono_nth:
  assumes "length buf = 96" "j < 96"
  shows "frame_to_mono f buf ! j = le_bytes 2 (samples f ! (j div 2 * 2)) ! (j mod 2)"
proof -
  have "j div 2 < 48" using assms(2) by simp
  then show ?thesis
    using fold_pairs_nth [of j buf "\<lambda>i. le_bytes 2 (samples f ! (i * 2)) ! 0"
        "\<lambda>i. le_bytes 2 (samples f ! (i * 2)) ! 1" 48] assms
    by (auto simp: frame_to_mono_def Let_def layout even_iff_mod_2_eq_zero odd_iff_mod_2_eq_one)
qed

lemma length_frame_to_mono [layout]: "length (frame_to_mono f buf) = length buf"
  using length_fold_pairs [of "\<lambda>i. le_bytes 2 (samples f ! (i * 2)) ! 0"
      "\<lambda>i. le_bytes 2 (samples f ! (i * 2)) ! 1" "[0..<SAMPLES_PER_FRAME]" buf]
  by (simp add: frame_to_mono_def Let_def)

lemma sample_bytes_back:
  "r < 2 \<Longrightarrow> le_bytes 2 (of_le_bytes [a, b] :: i16) ! r = [a, b] ! r"
  using le_bytes_of_le_bytes [of "[a, b]", where 'a = 16] by (simp add: numeral_2_eq_2)

lemma le_bytes_two: "le_bytes 2 (x :: i16) = [ucast x, ucast (drop_bit 8 x)]"
  by (simp add: numeral_2_eq_2)

lemma of_le_bytes_two: "(of_le_bytes [a, b] :: i16) = ucast a OR push_bit 8 (ucast b)"
  by simp

lemma frame_to_mono_packet:
  assumes "length buf = 96"
  shows "frame_to_mono f buf = tx_packet (Some f)"
proof (rule nth_equalityI)
  let ?ss = "map (\<lambda>i. [ucast (samples f ! (2 * i)) :: u8, ucast (drop_bit 8 (samples f ! (2 * i)))]) [0..<48]"
  have l: "length xs = 2" if "xs \<in> set ?ss" for xs using that by auto
  have "length (concat ?ss) = 96" by (simp add: length_concat comp_def sum_list_triv)
  then show "length (frame_to_mono f buf) = length (tx_packet (Some f))"
    using assms by (simp add: tx_packet_def length_frame_to_mono)
  fix j assume "j < length (frame_to_mono f buf)"
  then have j: "j < 96" "j div 2 < 48" using assms by (simp_all add: length_frame_to_mono)
  have "concat ?ss ! j = ?ss ! (j div 2) ! (j mod 2)" by (rule concat_nth_const [OF l]) (use j in simp_all)
  also have "\<dots> = le_bytes 2 (samples f ! (j div 2 * 2)) ! (j mod 2)" using j(2) by (simp add: le_bytes_two mult.commute)
  finally show "frame_to_mono f buf ! j = tx_packet (Some f) ! j"
    using frame_to_mono_nth [OF assms j(1)] by (simp add: tx_packet_def)
qed

lemma bytes_to_frame_heard: "bytes_to_frame b = heard b"
proof -
  let ?s = "\<lambda>i. if 2 * i + 1 < length b then ucast (b ! (2 * i)) OR push_bit 8 (ucast (b ! (2 * i + 1))) else (0 :: i16)"
  let ?ss = "map (\<lambda>i. [?s i, ?s i]) [0..<48]"
  have "samples (bytes_to_frame b) = concat ?ss"
  proof (rule nth_equalityI)
    have len: "length (samples (bytes_to_frame b)) = 96"
      using bytes_to_frame_ok [of b] by (simp add: frame_ok_def SAMPLES_PER_FRAME_def)
    then show "length (samples (bytes_to_frame b)) = length (concat ?ss)" by (simp add: length_concat comp_def sum_list_triv)
    fix j assume "j < length (samples (bytes_to_frame b))"
    with len have j: "j < 96" "j div 2 < 48" by simp_all
    have "concat ?ss ! j = ?ss ! (j div 2) ! (j mod 2)" by (rule concat_nth_const) (use j in auto)
    also have "\<dots> = ?s (j div 2)" using j(2) by (cases "j mod 2 = 0") auto
    also have "\<dots> = samples (bytes_to_frame b) ! j"
      using bytes_to_frame_nth [OF j(1), of b] by (auto simp: of_le_bytes_two mult.commute)
    finally show "samples (bytes_to_frame b) ! j = concat ?ss ! j" by simp
  qed
  then show ?thesis by (intro AudioFrame.expand) (simp add: heard_def Let_def)
qed

section \<open>Accounting of the receive path\<close>

definition rx_account :: "('r \<Rightarrow> AudioFrame list) \<Rightarrow> 'r iso_thread \<Rightarrow> 'r rx_sys \<Rightarrow> bool" where
  "rx_account contents t0 y \<longleftrightarrow>
     iso_ok (thr y) \<and>
     (\<exists>acc. subseq acc (seen y) \<and> contents (ring t0) @ acc = taken y @ contents (ring (thr y)) \<and>
        xruns (thr y) = xruns t0 + of_nat (length (seen y) - length acc))"

lemma ring_push_cases:
  assumes "ring_fifo api contents cap"
  obtains r where "ring_push api q f = Some r" "contents r = contents q @ [f]"
  | "ring_push api q f = None"
  using assms unfolding ring_fifo_def by metis

lemma ring_pop_Some:
  assumes "ring_fifo api contents cap" "ring_pop api q = Some (f, r)"
  shows "contents q = f # contents r"
proof -
  from assms(1) have *: "case contents q of [] \<Rightarrow> ring_pop api q = None
      | f # fs \<Rightarrow> \<exists>r'. ring_pop api q = Some (f, r') \<and> contents r' = fs"
    unfolding ring_fifo_def by blast
  with assms(2) show ?thesis by (cases "contents q") auto
qed

lemma iso_ok_complete:
  "iso_ok s \<Longrightarrow> i < 8 \<Longrightarrow> length data = 100 \<Longrightarrow> unat n \<le> 100 \<Longrightarrow> iso_ok (kernel_complete i st n data s)"
  by (auto simp: iso_ok_def kernel_complete_def list_all_length nth_list_update)

lemma iso_ok_resubmit: "iso_ok s \<Longrightarrow> i < 8 \<Longrightarrow> iso_ok (resubmit init_rx_urb i ok s)"
  by (auto simp: iso_ok_def resubmit_def list_all_length nth_list_update init_rx_urb_def)

lemma resubmit_fields [simp]:
  "ring (resubmit init i ok s) = ring s" "xruns (resubmit init i ok s) = xruns s"
  "bufs (resubmit init i ok s) = bufs s"
  by (simp_all add: resubmit_def)

lemma rx_packet_returns:
  assumes "iso_ok s" "i < 8"
  shows "\<exists>fr. rx_packet (urbs s ! i) (bufs s ! i) = Returns fr"
  using assms by (auto simp: rx_packet_def iso_ok_def list_all_length Let_def)

lemma rx_push_account:
  assumes fifo: "ring_fifo api contents cap" and acc: "rx_account contents t0 y"
  shows "\<exists>acc. subseq acc (seen y @ (case fr of Some f \<Rightarrow> [f] | None \<Rightarrow> [])) \<and>
    contents (ring t0) @ acc = taken y @ contents (ring (rx_push api fr (thr y))) \<and>
    xruns (rx_push api fr (thr y)) =
      xruns t0 + of_nat (length (seen y @ (case fr of Some f \<Rightarrow> [f] | None \<Rightarrow> [])) - length acc)"
proof -
  from acc obtain as where as: "subseq as (seen y)"
    "contents (ring t0) @ as = taken y @ contents (ring (thr y))"
    "xruns (thr y) = xruns t0 + of_nat (length (seen y) - length as)"
    by (auto simp: rx_account_def)
  have len: "length as \<le> length (seen y)" using as(1) by (rule list_emb_length)
  show ?thesis
  proof (cases fr)
    case None
    with as show ?thesis by (intro exI [of _ as]) (simp add: rx_push_def)
  next
    case (Some f)
    from fifo show ?thesis
    proof (cases rule: ring_push_cases [of api contents cap "ring (thr y)" f])
      case (1 r)
      with Some as show ?thesis
        by (intro exI [of _ "as @ [f]"]) (simp add: rx_push_def flip: append_assoc)
    next
      case 2
      with Some as len show ?thesis
        by (intro exI [of _ as]) (auto simp: rx_push_def Suc_diff_le intro: list_emb_append2)
    qed
  qed
qed

lemma iso_ok_rx_push: "iso_ok s \<Longrightarrow> iso_ok (rx_push api fr s)"
  by (auto simp: iso_ok_def rx_push_def split: option.splits)

lemma rx_round_account:
  assumes fifo: "ring_fifo api contents cap" and acc: "rx_account contents t0 y"
  shows "\<exists>y'. rx_event_step api y (Round reaped ok) = Returns y' \<and> rx_account contents t0 y'"
proof (cases "\<exists>ctx. reaped = ReapOk ctx \<and> unat ctx < 8")
  case True
  then obtain ctx where ctx: "reaped = ReapOk ctx" "unat ctx < 8" by auto
  have iok: "iso_ok (thr y)" using acc by (simp add: rx_account_def)
  then obtain fr where fr: "rx_packet (urbs (thr y) ! unat ctx) (bufs (thr y) ! unat ctx) = Returns fr"
    using rx_packet_returns ctx(2) by blast
  have "round_frame reaped (thr y) = (case fr of Some f \<Rightarrow> [f] | None \<Rightarrow> [])"
    using ctx fr by (simp add: round_frame_def N_URBS_def split: option.splits)
  with rx_push_account [OF fifo acc, of fr] ctx fr iok show ?thesis
    by (simp add: rx_round_def N_URBS_def Let_def rx_account_def iso_ok_resubmit iso_ok_rx_push)
next
  case False
  then obtain d where "rx_round api reaped ok (thr y) = Returns (thr y, d)"
    "round_frame reaped (thr y) = []"
    by (cases reaped) (simp_all add: rx_round_def round_frame_def N_URBS_def Let_def)
  with acc show ?thesis by (simp add: rx_account_def)
qed

lemma rx_event_account:
  assumes fifo: "ring_fifo api contents cap" and acc: "rx_account contents t0 y" and k: "kernel_ok e"
  shows "\<exists>y'. rx_event_step api y e = Returns y' \<and> rx_account contents t0 y'"
proof (cases e)
  case (Completes i st n data)
  with k acc show ?thesis
    by (simp add: rx_account_def iso_ok_complete) (simp add: kernel_complete_def)
next
  case (Round reaped ok)
  with rx_round_account [OF fifo acc] show ?thesis by simp
next
  case Takes
  show ?thesis
  proof (cases "ring_pop api (ring (thr y))")
    case None
    with Takes acc show ?thesis by simp
  next
    case (Some fr)
    obtain f r where fr: "fr = (f, r)" by force
    with Some ring_pop_Some [OF fifo, of "ring (thr y)" f r] Takes acc show ?thesis
      by (simp add: rx_account_def iso_ok_def)
  qed
qed

section \<open>Set-up against the kernel\<close>

definition submit_call :: "(u64 \<Rightarrow> nat \<Rightarrow> SingleIsoUrb) \<Rightarrow> i32 \<Rightarrow> u64 list \<Rightarrow> bytes list \<Rightarrow> nat \<Rightarrow> os_call" where
  "submit_call init fd ptrs datas i =
     Ioctl fd USBDEVFS_SUBMITURB (ArgUrb (init (ptrs ! i) i) (datas ! i))"

text \<open>The calls a thread plans after its configuration.\<close>

definition open_call :: "'h Cm108Device \<Rightarrow> os_call" where
  "open_call dev = OpenFile (usbfs_path (bus dev) (address dev)) (O_RDWR OR O_CLOEXEC)"

definition setup_calls :: "(u64 \<Rightarrow> nat \<Rightarrow> SingleIsoUrb) \<Rightarrow> u8 \<Rightarrow> nat \<Rightarrow> 'h Cm108Device \<Rightarrow> i32 \<Rightarrow> u64 list \<Rightarrow> os_call list" where
  "setup_calls init iface packet dev fd ptrs =
     open_call dev # Ioctl fd USBDEVFS_CLAIMINTF (ArgU32 (ucast iface)) #
     Ioctl fd USBDEVFS_SETINTF (ArgSetInterface \<lparr>interface = ucast iface, altsetting = 1\<rparr>) #
     map (submit_call init fd ptrs (replicate N_URBS (replicate packet 0))) [0..<N_URBS]"

lemma submit_all_run:
  assumes "run_calls k (trace ps) (map (submit_call init fd (buf_ptrs t) (bufs t)) is) = (made, ok)"
  shows "\<exists>res ps'. submit_all k io_text lbl init fd is t ps = (res, ps') \<and> trace ps' = trace ps @ made \<and>
    res = (if ok then Some (fold (\<lambda>i. resubmit init i True) is t) else None)"
  using assms
proof (induction "is" arbitrary: t ps made)
  case Nil
  then show ?case by simp
next
  case (Cons i "is")
  let ?c = "submit_call init fd (buf_ptrs t) (bufs t) i"
  have sub: "submit_urb k fd (init (buf_ptrs t ! i) i) (bufs t ! i) ps =
      (if ret (k (trace ps) ?c) <s 0 then Inl (last_os_error (k (trace ps) ?c)) else Inr (), ps\<lparr>trace := trace ps @ [?c]\<rparr>)"
    by (simp add: submit_urb_def unit_call_eq submit_call_def)
  show ?case
  proof (cases "ret (k (trace ps) ?c) <s 0")
    case True
    with Cons.prems sub show ?thesis by simp
  next
    case False
    let ?t = "resubmit init i True t" and ?ps = "ps\<lparr>trace := trace ps @ [?c]\<rparr>"
    have same: "buf_ptrs ?t = buf_ptrs t" "bufs ?t = bufs t" by (simp_all add: resubmit_def)
    obtain made1 where "run_calls k (trace ?ps) (map (submit_call init fd (buf_ptrs ?t) (bufs ?t)) is) = (made1, ok)"
      and made: "made = ?c # made1"
      using Cons.prems False unfolding same by (auto split: prod.splits)
    from Cons.IH [OF this(1)] made sub False show ?thesis by auto
  qed
qed

lemma submit_all_arms:
  fixes t :: "'r iso_thread"
  assumes "length (urbs t) = 8" "length (owned t) = 8"
  shows "urbs (fold (\<lambda>i. resubmit init i True) [0..<8] t) = map (\<lambda>i. init (buf_ptrs t ! i) i) [0..<8]"
    "owned (fold (\<lambda>i. resubmit init i True) [0..<8] t) = replicate 8 True"
    "ring (fold (\<lambda>i. resubmit init i True) [0..<8] t) = ring t"
    "xruns (fold (\<lambda>i. resubmit init i True) [0..<8] t) = xruns t"
    "bufs (fold (\<lambda>i. resubmit init i True) [0..<8] t) = bufs t"
    "buf_ptrs (fold (\<lambda>i. resubmit init i True) [0..<8] t) = buf_ptrs t"
proof -
  obtain a b c d e f g h where u: "urbs t = [a, b, c, d, e, f, g, h]"
    using assms(1) by (auto simp: numeral_eq_Suc length_Suc_conv)
  obtain a' b' c' d' e' f' g' h' where o: "owned t = [a', b', c', d', e', f', g', h']"
    using assms(2) by (auto simp: numeral_eq_Suc length_Suc_conv)
  have up: "[0..<8] = [0, 1, 2, 3, 4, 5, 6, 7 :: nat]" by (simp add: upt_rec)
  show "urbs (fold (\<lambda>i. resubmit init i True) [0..<8] t) = map (\<lambda>i. init (buf_ptrs t ! i) i) [0..<8]"
    "owned (fold (\<lambda>i. resubmit init i True) [0..<8] t) = replicate 8 True"
    "ring (fold (\<lambda>i. resubmit init i True) [0..<8] t) = ring t"
    "xruns (fold (\<lambda>i. resubmit init i True) [0..<8] t) = xruns t"
    "bufs (fold (\<lambda>i. resubmit init i True) [0..<8] t) = bufs t"
    "buf_ptrs (fold (\<lambda>i. resubmit init i True) [0..<8] t) = buf_ptrs t"
    unfolding up by (simp_all add: resubmit_def u o numeral_eq_Suc)
qed

section \<open>Accounting of the transmit path\<close>

definition tx_ok :: "'r iso_thread \<Rightarrow> bool" where
  "tx_ok t \<longleftrightarrow> length (urbs t) = 8 \<and> length (bufs t) = 8 \<and> length (owned t) = 8 \<and>
     list_all (\<lambda>b. length b = 96) (bufs t)"

lemma iso_thread_start_run:
  fixes dev :: "'h Cm108Device" and r :: 'r
  assumes "cpu_lib_ok lib" and "core < 1024" and "tr = trace ps @ rt_calls priority core"
    and "fd = ret (k tr (open_call dev))"
    and "run_calls k tr (setup_calls init iface packet dev fd ptrs) = (made, ok)"
  shows "\<exists>res ps'. iso_thread_start lbl init iface packet k lib io_text priority core dev zeroed ptrs r ps =
      Returns (res, ps') \<and>
    trace ps' = tr @ made @ (if ok \<or> length made = 1 then [] else [CloseFd fd]) \<and>
    (if ok then \<exists>t. res = Some (t, fd) \<and> urbs t = map (\<lambda>i. init (ptrs ! i) i) [0..<N_URBS] \<and>
         owned t = replicate N_URBS True \<and> bufs t = replicate N_URBS (replicate packet 0) \<and>
         buf_ptrs t = ptrs \<and> ring t = r \<and> xruns t = 0
     else res = None)"
proof -
  obtain ps1 where rt: "configure_rt k lib priority core ps = Returns ps1" "trace ps1 = tr"
    using configure_rt_calls [OF assms(1,2), of k priority ps] assms(3) by auto
  let ?open = "open_call dev" and ?claim = "Ioctl fd USBDEVFS_CLAIMINTF (ArgU32 (ucast iface))"
    and ?set = "Ioctl fd USBDEVFS_SETINTF (ArgSetInterface \<lparr>interface = ucast iface, altsetting = 1\<rparr>)"
  let ?t = "\<lparr>urbs = replicate N_URBS zeroed, bufs = replicate N_URBS (replicate packet 0),
      buf_ptrs = ptrs, ring = r, xruns = 0, owned = replicate N_URBS False\<rparr> :: 'r iso_thread"
  let ?tr3 = "tr @ [?open, ?claim, ?set]" and ?ps3 = "ps1\<lparr>trace := tr @ [?open, ?claim, ?set]\<rparr>"
  let ?subs = "map (submit_call init fd ptrs (replicate N_URBS (replicate packet 0))) [0..<N_URBS]"
  note steps = iso_thread_start_def rt open_usbfs_def claim_interface_def set_interface_def
    checked_call_eq unit_call_eq open_call_def [symmetric] assms(4) [symmetric]
  consider "ret (k tr ?open) <s 0" | "\<not> ret (k tr ?open) <s 0" "ret (k (tr @ [?open]) ?claim) <s 0"
    | "\<not> ret (k tr ?open) <s 0" "\<not> ret (k (tr @ [?open]) ?claim) <s 0" "ret (k (tr @ [?open, ?claim]) ?set) <s 0"
    | "\<not> ret (k tr ?open) <s 0" "\<not> ret (k (tr @ [?open]) ?claim) <s 0" "\<not> ret (k (tr @ [?open, ?claim]) ?set) <s 0"
    by blast
  then show ?thesis
  proof cases
    case 4
    obtain made1 where subs: "run_calls k ?tr3 ?subs = (made1, ok)" and made: "made = [?open, ?claim, ?set] @ made1"
      using 4 assms(5) by (auto simp: setup_calls_def split: prod.splits)
    obtain res ps' where sub: "submit_all k io_text lbl init fd [0..<N_URBS] ?t ?ps3 = (res, ps')"
      "trace ps' = ?tr3 @ made1" "res = (if ok then Some (fold (\<lambda>i. resubmit init i True) [0..<N_URBS] ?t) else None)"
      using submit_all_run [of k ?ps3 init fd ?t "[0..<N_URBS]" made1 ok io_text lbl] subs by auto
    have start: "iso_thread_start lbl init iface packet k lib io_text priority core dev zeroed ptrs r ps =
        Returns (case (res, ps') of (None, ps5) \<Rightarrow> (None, close_fd k fd ps5)
          | (Some t, ps5) \<Rightarrow> (Some (t, fd), hal_log_debug (lbl @ str '' thread started'') ps5))"
      using 4 sub(1) by (simp add: steps)
    show ?thesis
    proof (cases ok)
      case True
      with start sub(2,3) made submit_all_arms [of ?t init] show ?thesis by (simp add: N_URBS_def)
    qed (use start sub(2,3) made in simp)
  qed (use assms(5) in \<open>auto simp: steps setup_calls_def\<close>)
qed

text \<open>A thread that has started is in the state its loop needs.\<close>

lemma iso_thread_started:
  assumes "cpu_lib_ok lib" "core < 1024"
    "iso_thread_start lbl init iface packet k lib io_text priority core dev zeroed ptrs r ps = Returns (Some (t, fd), ps')"
  shows "urbs t = map (\<lambda>i. init (ptrs ! i) i) [0..<N_URBS]" "owned t = replicate N_URBS True"
    "bufs t = replicate N_URBS (replicate packet 0)" "ring t = r" "xruns t = 0"
proof -
  let ?tr = "trace ps @ rt_calls priority core"
  obtain made ok where "run_calls k ?tr (setup_calls init iface packet dev (ret (k ?tr (open_call dev))) ptrs) = (made, ok)"
    by force
  from iso_thread_start_run [OF assms(1,2) refl refl this, of lbl io_text zeroed r] assms(3)
  show "urbs t = map (\<lambda>i. init (ptrs ! i) i) [0..<N_URBS]" "owned t = replicate N_URBS True"
    "bufs t = replicate N_URBS (replicate packet 0)" "ring t = r" "xruns t = 0"
    by (auto split: if_splits)
qed

lemma rx_thread_started:
  assumes "cpu_lib_ok lib" "core < 1024"
    "rx_thread_start k lib io_text priority core dev zeroed ptrs r ps = Returns (Some (t, fd), ps')"
  shows "iso_ok t" "armed t"
  using iso_thread_started [OF assms(1,2) assms(3) [unfolded rx_thread_start_def]]
  by (simp_all add: iso_ok_def armed_def N_URBS_def ISO_IN_PACKET_def list_all_length init_rx_urb_def)

lemma tx_thread_started:
  assumes "cpu_lib_ok lib" "core < 1024"
    "tx_thread_start k lib io_text priority core dev zeroed ptrs r ps = Returns (Some (t, fd), ps')"
  shows "tx_ok t"
  using iso_thread_started [OF assms(1,2) assms(3) [unfolded tx_thread_start_def]]
  by (simp add: tx_ok_def N_URBS_def ISO_OUT_PACKET_def list_all_length)

definition tx_account :: "('r \<Rightarrow> AudioFrame list) \<Rightarrow> 'r iso_thread \<Rightarrow> process \<Rightarrow> 'r tx_sys \<Rightarrow> bool" where
  "tx_account contents t0 ps0 y \<longleftrightarrow>
     tx_ok (tthr y) \<and>
     (\<exists>plays. handed (trace (tproc y)) = handed (trace ps0) @ map tx_packet plays \<and>
        contents (ring t0) @ tqueued y = map the (filter (\<lambda>x. x \<noteq> None) plays) @ contents (ring (tthr y)) \<and>
        xruns (tthr y) = xruns t0 + of_nat (length (filter (\<lambda>x. x = None) plays)))"

lemma handed_append: "handed (xs @ ys) = handed xs @ handed ys"
  by (induction xs rule: handed.induct) simp_all

text \<open>The transmit thread: for each URB handed back it sends either the oldest
  queued frame (its left channel) or, when the queue is empty, 96 bytes of silence
  and one more counted underrun; in both cases the URB is armed again for the
  output endpoint with a 96-byte packet and its own index as context.\<close>

lemma tx_round_plays_or_pads:
  assumes "ring_fifo api contents RING_CAPACITY"
    and "unat ctx < N_URBS" and "length (bufs s) = N_URBS" and "length (urbs s) = N_URBS"
    and "tx_round api (ReapOk ctx) ok s = (s', pause)"
  shows "(case contents (ring s) of
      f # rest \<Rightarrow> contents (ring s') = rest \<and> bufs s' ! unat ctx = frame_to_mono f (bufs s ! unat ctx) \<and>
        xruns s' = xruns s
    | [] \<Rightarrow> ring s' = ring s \<and> bufs s' ! unat ctx = replicate 96 0 \<and> xruns s' = xruns s + 1) \<and>
    urbs s' ! unat ctx = init_tx_urb (buf_ptrs s ! unat ctx) (unat ctx) \<and>
    (\<forall>j<N_URBS. j \<noteq> unat ctx \<longrightarrow> bufs s' ! j = bufs s ! j \<and> urbs s' ! j = urbs s ! j)"
proof -
  from assms(1) have pop: "case contents (ring s) of [] \<Rightarrow> ring_pop api (ring s) = None
      | f # fs \<Rightarrow> \<exists>r'. ring_pop api (ring s) = Some (f, r') \<and> contents r' = fs"
    unfolding ring_fifo_def by blast
  show ?thesis
  proof (cases "contents (ring s)")
    case Nil
    with pop assms(2-) show ?thesis
      by (auto simp: tx_round_def Let_def resubmit_def ISO_OUT_PACKET_def)
  next
    case (Cons f rest)
    with pop obtain r where "ring_pop api (ring s) = Some (f, r)" "contents r = rest" by auto
    with Cons assms(2-) show ?thesis
      by (auto simp: tx_round_def Let_def resubmit_def)
  qed
qed

lemma tx_iterate_idle:
  assumes "case reap_urb k fd ps of (Inr ctx, _) \<Rightarrow> N_URBS \<le> unat ctx | _ \<Rightarrow> True"
  shows "\<exists>pause ps'. tx_iterate k io_text api fd t ps = (t, pause, ps') \<and> handed (trace ps') = handed (trace ps)"
proof -
  obtain res ps1 where r: "reap_urb k fd ps = (res, ps1)" by force
  then have tr: "handed (trace ps1) = handed (trace ps)"
    by (auto simp: reap_urb_def checked_call_eq handed_append split: if_splits)
  show ?thesis
  proof (cases res)
    case (Inl e)
    with r tr show ?thesis
      by (cases e) (simp_all add: tx_iterate_def submit_again_def reap_result_of_def tx_round_def)
  next
    case (Inr ctx)
    with r tr assms show ?thesis
      by (simp add: tx_iterate_def submit_again_def reap_result_of_def tx_round_def Let_def)
  qed
qed

lemma tx_iterate_pops:
  assumes ok: "tx_ok t"
    and r: "reap_urb k fd ps = (Inr ctx, ps1)" "unat ctx < N_URBS"
    and it: "tx_iterate k io_text api fd t ps = (t', pause, ps')"
  shows "tx_ok t' \<and>
    (case ring_pop api (ring t) of
       Some (f, q) \<Rightarrow> handed (trace ps') = handed (trace ps) @ [tx_packet (Some f)] \<and> ring t' = q \<and> xruns t' = xruns t
     | None \<Rightarrow> handed (trace ps') = handed (trace ps) @ [tx_packet None] \<and> ring t' = ring t \<and> xruns t' = xruns t + 1)"
proof -
  let ?i = "unat ctx"
  have i: "?i < 8" using r(2) by (simp add: N_URBS_def)
  have len: "length (bufs t ! ?i) = 96" "length (bufs t) = 8" using ok i by (auto simp: tx_ok_def list_all_length)
  have tr: "handed (trace ps1) = handed (trace ps)"
    using r(1) by (auto simp: reap_urb_def checked_call_eq handed_append split: if_splits)
  let ?fill = "\<lambda>b. fst (tx_round api (ReapOk ctx) b t)"
  obtain b ps2 where sub: "submit_again k io_text (str ''TX'') init_tx_urb fd (Inr ctx) (?fill False) ps1 = (b, ps2)" by force
  then have "handed (trace ps2) = handed (trace ps) @ [bufs (?fill False) ! ?i]"
    using r(2) by (auto simp: submit_again_def submit_urb_def unit_call_eq Let_def handed_append tr split: if_splits)
  moreover have "t' = ?fill b" "ps' = ps2"
    using it sub by (simp_all add: tx_iterate_def r(1) reap_result_of_def Let_def split: prod.splits)
  ultimately have t': "\<exists>b. t' = ?fill b" and ps': "handed (trace ps') = handed (trace ps) @ [bufs (?fill False) ! ?i]"
    by auto
  show ?thesis
  proof (cases "ring_pop api (ring t)")
    case None
    then have "handed (trace ps') = handed (trace ps) @ [tx_packet None]" "ring t' = ring t" "xruns t' = xruns t + 1"
      using t' ps' r(2) i len by (auto simp: tx_round_def Let_def tx_packet_def ISO_OUT_PACKET_def)
    moreover have "tx_ok t'" using t' None r(2) i ok
      by (auto simp: tx_round_def Let_def tx_ok_def resubmit_def ISO_OUT_PACKET_def list_all_length nth_list_update)
    ultimately show ?thesis using None by simp
  next
    case (Some fr)
    obtain f q where fr: "fr = (f, q)" by force
    have "tx_packet (Some f) = frame_to_mono f (bufs t ! ?i)"
      using frame_to_mono_packet [of "bufs t ! ?i" f] len by simp
    then have "handed (trace ps') = handed (trace ps) @ [tx_packet (Some f)]" "ring t' = q" "xruns t' = xruns t"
      using t' ps' r(2) i len Some fr by (auto simp: tx_round_def Let_def)
    moreover have "tx_ok t'" using t' Some fr r(2) i ok
      by (auto simp: tx_round_def Let_def tx_ok_def resubmit_def layout list_all_length nth_list_update)
    ultimately show ?thesis using Some fr by simp
  qed
qed

lemma tx_iterate_plays:
  assumes fifo: "ring_fifo api contents cap" and ok: "tx_ok t"
    and r: "reap_urb k fd ps = (Inr ctx, ps1)" "unat ctx < N_URBS"
    and it: "tx_iterate k io_text api fd t ps = (t', pause, ps')"
  shows "\<exists>play. handed (trace ps') = handed (trace ps) @ [tx_packet play] \<and> tx_ok t' \<and>
    (case play of Some f \<Rightarrow> contents (ring t) = f # contents (ring t') \<and> xruns t' = xruns t
     | None \<Rightarrow> ring t' = ring t \<and> xruns t' = xruns t + 1)"
proof (cases "ring_pop api (ring t)")
  case None
  with tx_iterate_pops [OF ok r it] show ?thesis by (intro exI [of _ None]) simp
next
  case (Some fr)
  obtain f q where fr: "fr = (f, q)" by force
  with Some ring_pop_Some [OF fifo, of "ring t" f q] tx_iterate_pops [OF ok r it] show ?thesis
    by (intro exI [of _ "Some f"]) simp
qed

lemma tx_event_account:
  assumes fifo: "ring_fifo api contents cap" and acc: "tx_account contents t0 ps0 y"
  shows "tx_account contents t0 ps0 (tx_event_step k io_text api fd e y)"
proof -
  from acc obtain plays where ok: "tx_ok (tthr y)"
    and h: "handed (trace (tproc y)) = handed (trace ps0) @ map tx_packet plays"
    and q: "contents (ring t0) @ tqueued y = map the (filter (\<lambda>x. x \<noteq> None) plays) @ contents (ring (tthr y))"
    and x: "xruns (tthr y) = xruns t0 + of_nat (length (filter (\<lambda>x. x = None) plays))"
    by (auto simp: tx_account_def)
  show ?thesis
  proof (cases e)
    case (Writes f)
    from fifo show ?thesis
    proof (cases rule: ring_push_cases [of api contents cap "ring (tthr y)" f])
      case (1 r)
      with Writes ok h q x show ?thesis
        by (auto simp: tx_account_def tx_ok_def simp flip: append_assoc intro!: exI [of _ plays])
    next
      case 2
      with Writes acc show ?thesis by simp
    qed
  next
    case Iterates
    obtain t' pause ps' where it: "tx_iterate k io_text api fd (tthr y) (tproc y) = (t', pause, ps')"
      by (metis prod_cases3)
    show ?thesis
    proof (cases "\<exists>ctx ps1. reap_urb k fd (tproc y) = (Inr ctx, ps1) \<and> unat ctx < N_URBS")
      case True
      then obtain play where "handed (trace ps') = handed (trace (tproc y)) @ [tx_packet play]" "tx_ok t'"
        "case play of Some f \<Rightarrow> contents (ring (tthr y)) = f # contents (ring t') \<and> xruns t' = xruns (tthr y)
         | None \<Rightarrow> ring t' = ring (tthr y) \<and> xruns t' = xruns (tthr y) + 1"
        using tx_iterate_plays [OF fifo ok _ _ it] by blast
      with Iterates it h q x show ?thesis
        by (auto simp: tx_account_def intro!: exI [of _ "plays @ [play]"] split: option.splits)
    next
      case False
      then have "case reap_urb k fd (tproc y) of (Inr ctx, _) \<Rightarrow> N_URBS \<le> unat ctx | _ \<Rightarrow> True"
        by (auto simp: not_less split: prod.split sum.split)
      from tx_iterate_idle [OF this, of io_text api "tthr y"] it acc Iterates show ?thesis
        by (auto simp: tx_account_def)
    qed
  qed
qed

section \<open>Properties\<close>

text \<open>The receive path neither loses a frame silently nor reorders or duplicates
  any. For every interleaving of kernel completions, rounds of the RX thread and
  frames taken by the dispatch thread, over a bounded first-in first-out ring and a
  kernel that respects the packet length: the thread never panics; the frames taken
  and still queued are, in order, a subsequence of the good packets seen; and the
  overrun counter has grown (modulo \<open>2^64\<close>) by exactly the number of frames that
  are missing.\<close>

lemma rx_no_silent_loss:
  assumes "ring_fifo api contents RING_CAPACITY" and "iso_ok t0" and "list_all kernel_ok es"
  shows "\<exists>y acc. rx_run api \<lparr>thr = t0, seen = [], taken = []\<rparr> es = Returns y \<and>
    subseq acc (seen y) \<and> contents (ring t0) @ acc = taken y @ contents (ring (thr y)) \<and>
    xruns (thr y) = xruns t0 + of_nat (length (seen y) - length acc)"
proof -
  have "rx_account contents t0 \<lparr>thr = t0, seen = [], taken = []\<rparr>"
    using assms(2) by (simp add: rx_account_def)
  then obtain y where "rx_run api \<lparr>thr = t0, seen = [], taken = []\<rparr> es = Returns y"
    "rx_account contents t0 y"
    using ofold_invariant [of "rx_account contents t0" _ es "rx_event_step api"]
      rx_event_account [OF assms(1)] assms(3)
    unfolding rx_run_def list_all_iff by metis
  then show ?thesis by (auto simp: rx_account_def)
qed

text \<open>A queue of at most 64 frames, and a thread over it.\<close>

definition list_ring :: "AudioFrame list ring_api" where
  "list_ring = \<lparr>ring_push = (\<lambda>q f. if length q < 64 then Some (q @ [f]) else None),
     ring_pop = (\<lambda>q. case q of [] \<Rightarrow> None | f # fs \<Rightarrow> Some (f, fs))\<rparr>"

definition demo_iso :: "AudioFrame list iso_thread" where
  "demo_iso = \<lparr>urbs = replicate 8 (init_rx_urb 0 0), bufs = replicate 8 (replicate 100 0),
     buf_ptrs = replicate 8 0, ring = [], xruns = 0, owned = replicate 8 True\<rparr>"

lemma list_ring_fifo: "ring_fifo list_ring (\<lambda>q. q) RING_CAPACITY"
  by (auto simp: ring_fifo_def list_ring_def RING_CAPACITY_def split: list.split)

lemma demo_iso_ok: "iso_ok demo_iso" "armed demo_iso"
  by (simp_all add: armed_def iso_ok_def demo_iso_def init_rx_urb_def list_all_length)

text \<open>A received packet becomes a stereo frame of the right shape: 96 samples,
  left equal to right, each pair the little-endian sample of the packet at that
  position, and silence behind the end of a short packet (a trailing odd byte is
  ignored).\<close>

lemma rx_frame_contents:
  "frame_ok (bytes_to_frame buf) \<and>
   (\<forall>i<48. samples (bytes_to_frame buf) ! (2 * i) = samples (bytes_to_frame buf) ! (2 * i + 1) \<and>
      samples (bytes_to_frame buf) ! (2 * i) =
        (if 2 * i + 1 < length buf then of_le_bytes [buf ! (2 * i), buf ! (2 * i + 1)] else 0))"
proof -
  have "i < length buf div 2 \<longleftrightarrow> 2 * i + 1 < length buf" for i by arith
  then show ?thesis by (auto simp: bytes_to_frame_nth mult.commute)
qed

text \<open>What is received and sent out again is the same sound: converting a full
  96-byte mono packet to a frame and that frame to an outgoing packet gives the
  packet back, whatever the outgoing buffer held before; the adaptive slack behind
  byte 96 of a longer packet is dropped.\<close>

lemma mono_roundtrip:
  assumes "96 \<le> length packet" and "length buf = ISO_OUT_PACKET"
  shows "frame_to_mono (bytes_to_frame packet) buf = take 96 packet"
proof (rule nth_equalityI)
  show "length (frame_to_mono (bytes_to_frame packet) buf) = length (take 96 packet)"
    using assms by (simp add: layout ISO_OUT_PACKET_def)
next
  fix j assume "j < length (frame_to_mono (bytes_to_frame packet) buf)"
  then have j: "j < 96" using assms(2) by (simp add: layout ISO_OUT_PACKET_def)
  let ?k = "j div 2 * 2"
  have k: "?k < 96" "?k div 2 = j div 2" using j by auto
  have "j div 2 < length packet div 2"
    using j div_le_mono [OF assms(1), of 2] by simp
  have "frame_to_mono (bytes_to_frame packet) buf ! j =
      le_bytes 2 (of_le_bytes [packet ! ?k, packet ! (?k + 1)] :: i16) ! (j mod 2)"
    using assms(2) j k \<open>j div 2 < length packet div 2\<close> by (simp add: frame_to_mono_nth bytes_to_frame_nth ISO_OUT_PACKET_def)
  also have "\<dots> = [packet ! ?k, packet ! (?k + 1)] ! (j mod 2)"
    by (rule sample_bytes_back) simp
  also have "\<dots> = packet ! (?k + j mod 2)"
    by (cases "even j") (simp_all add: odd_iff_mod_2_eq_one)
  finally show "frame_to_mono (bytes_to_frame packet) buf ! j = take 96 packet ! j"
    using j by simp
qed

text \<open>C35: The threads act on a completion only when the pointer the kernel hands back
  is one of the eight small indices stored as user context. If every pointer is
  something else (such as the address of the URB itself), no frame is ever
  delivered, nothing is counted and no URB is submitted again, whatever packets
  arrive.\<close>

theorem foreign_context_starves:
  assumes "list_all (\<lambda>e. case e of Round (ReapOk ctx) _ \<Rightarrow> N_URBS \<le> unat ctx | Takes \<Rightarrow> False | _ \<Rightarrow> True) es"
  shows "\<exists>y. rx_run api \<lparr>thr = t0, seen = [], taken = []\<rparr> es = Returns y \<and>
    seen y = [] \<and> ring (thr y) = ring t0 \<and> xruns (thr y) = xruns t0 \<and> owned (thr y) = owned t0"
proof -
  define P where "P y \<longleftrightarrow> seen y = [] \<and> ring (thr y) = ring t0 \<and> xruns (thr y) = xruns t0 \<and>
      owned (thr y) = owned t0" for y :: "'a rx_sys"
  have "\<exists>y'. rx_event_step api y e = Returns y' \<and> P y'" if "P y" "e \<in> set es" for y e
  proof (cases e)
    case (Round reaped ok)
    with that assms show ?thesis
      by (cases reaped) (auto simp: list_all_iff P_def rx_round_def round_frame_def Let_def)
  qed (use that assms in \<open>auto simp: list_all_iff P_def kernel_complete_def\<close>)
  moreover have "P \<lparr>thr = t0, seen = [], taken = []\<rparr>" by (simp add: P_def)
  ultimately obtain y where "rx_run api \<lparr>thr = t0, seen = [], taken = []\<rparr> es = Returns y" "P y"
    using ofold_invariant [of P] unfolding rx_run_def by metis
  then show ?thesis by (auto simp: P_def)
qed

theorem foreign_context_starves_witness:
  "\<exists>y. rx_run list_ring \<lparr>thr = demo_iso, seen = [], taken = []\<rparr>
     [Completes 0 0 96 (replicate 100 7), Round (ReapOk 0x7f0000001000) True] = Returns y \<and>
    seen y = [] \<and> ring (thr y) = ring demo_iso \<and> xruns (thr y) = xruns demo_iso \<and>
    owned (thr y) = owned demo_iso"
  by (rule foreign_context_starves) (simp add: N_URBS_def)

text \<open>C23: The start of the audio threads refines its plan, whatever the kernel answers: the
  scheduling calls are made first and never stop the thread; then the device file is
  opened, the streaming interface claimed, its alternate setting selected and the eight
  URBs submitted, in this order, up to and including the first call that fails. If none
  fails, the thread runs with every URB armed with its own index and buffer and owned by
  the kernel; if one fails, the thread ends and the device file, if it was opened, is
  closed.\<close>

theorem iso_thread_start_refines:
  fixes dev :: "'h Cm108Device" and r :: 'r
  assumes "cpu_lib_ok lib" and "core < 1024" and "tr = trace ps @ rt_calls priority core"
    and "fd = ret (k tr (open_call dev))"
    and "run_calls k tr (setup_calls init iface packet dev fd ptrs) = (made, ok)"
  shows "\<exists>res ps'. iso_thread_start lbl init iface packet k lib io_text priority core dev zeroed ptrs r ps =
      Returns (res, ps') \<and>
    trace ps' = tr @ made @ (if ok \<or> length made = 1 then [] else [CloseFd fd]) \<and>
    (if ok then \<exists>t. res = Some (t, fd) \<and> urbs t = map (\<lambda>i. init (ptrs ! i) i) [0..<N_URBS] \<and>
         owned t = replicate N_URBS True \<and> bufs t = replicate N_URBS (replicate packet 0) \<and>
         buf_ptrs t = ptrs \<and> ring t = r \<and> xruns t = 0
     else res = None)"
  by (rule iso_thread_start_run [OF assms])

text \<open>A kernel that opens the device file as descriptor 7 and refuses the fourth URB.\<close>

definition demo_kernel :: kernel where
  "demo_kernel tr c =
     (case c of
        OpenFile path fl \<Rightarrow> \<lparr>ret = 7, stored = 0, errno = 0, control = []\<rparr>
      | Ioctl fd req (ArgUrb urb data) \<Rightarrow>
          \<lparr>ret = (if usercontext (hdr urb) = 3 then - 1 else 0), stored = 0, errno = 28, control = []\<rparr>
      | _ \<Rightarrow> \<lparr>ret = 0, stored = 0, errno = 0, control = []\<rparr>)"

definition demo_device :: "unit Cm108Device" where
  "demo_device = \<lparr>handle = (), pid = 0x013a, bus = 1, address = 12\<rparr>"

definition demo_process :: process where
  "demo_process = \<lparr>trace = [], stderr = [], log_level = 2\<rparr>"

theorem iso_thread_start_refines_witness:
  "\<exists>ps' made. rx_thread_start demo_kernel demo_cpu_lib (\<lambda>_. []) 90 1 demo_device (init_rx_urb 0 0) (replicate 8 0)
     ([] :: AudioFrame list) demo_process = Returns (None, ps') \<and> length made = 7 \<and>
    trace ps' = rt_calls 90 1 @ made @ [CloseFd 7]"
proof -
  let ?made = "take 7 (setup_calls init_rx_urb IFACE_AUDIO_IN ISO_IN_PACKET demo_device 7 (replicate 8 0))"
  have up: "[0..<8] = [0, 1, 2, 3, 4, 5, 6, 7 :: nat]" by (simp add: upt_rec)
  have seven: "\<not> (7 :: i32) <s 0" by (simp add: word_sless_alt)
  have run: "run_calls demo_kernel (rt_calls 90 1)
      (setup_calls init_rx_urb IFACE_AUDIO_IN ISO_IN_PACKET demo_device 7 (replicate 8 0)) = (?made, False)"
    by (simp add: setup_calls_def N_URBS_def up submit_call_def open_call_def demo_kernel_def init_rx_urb_def seven)
  have len: "length ?made = 7" by (simp add: setup_calls_def N_URBS_def)
  have "7 = ret (demo_kernel (rt_calls 90 1) (open_call demo_device))" by (simp add: demo_kernel_def open_call_def)
  from iso_thread_start_refines [OF demo_cpu_lib_ok _ _ this run, of 1 demo_process 90 "str ''RX''" "\<lambda>_. []"
      "init_rx_urb 0 0" "[] :: AudioFrame list"] len
  show ?thesis by (auto simp: rx_thread_start_def demo_process_def)
qed

text \<open>The transmit path plays what the clients queued. For every interleaving of frames
  queued by connection handlers and iterations of the TX thread against any kernel,
  over a bounded first-in first-out ring: the packets handed to the kernel are, in order,
  the left channels of the queued frames with silent packets between them; each frame
  is handed over once, those not yet handed over are still in the ring, and the underrun
  counter has grown (modulo \<open>2^64\<close>) by exactly the number of silent packets.\<close>

lemma tx_plays_in_order:
  assumes "ring_fifo api contents RING_CAPACITY" and "tx_ok t0"
  shows "\<exists>y plays. fold (tx_event_step k io_text api fd) es \<lparr>tthr = t0, tproc = ps0, tqueued = []\<rparr> = y \<and>
    handed (trace (tproc y)) = handed (trace ps0) @ map tx_packet plays \<and>
    contents (ring t0) @ tqueued y = map the (filter (\<lambda>x. x \<noteq> None) plays) @ contents (ring (tthr y)) \<and>
    xruns (tthr y) = xruns t0 + of_nat (length (filter (\<lambda>x. x = None) plays))"
proof -
  have "tx_account contents t0 ps0 (fold (tx_event_step k io_text api fd) es y)"
    if "tx_account contents t0 ps0 y" for y
    using that tx_event_account [OF assms(1)] by (induction es arbitrary: y) simp_all
  from this [of "\<lparr>tthr = t0, tproc = ps0, tqueued = []\<rparr>"] assms(2) show ?thesis
    by (auto simp: tx_account_def)
qed

end
