(* ===== verification/Cm108_Ipc.thy ===== *)
theory Cm108_Ipc
  imports Cm108_Framing Cm108_Iso
begin

text \<open>
  The server's IPC layer, \<^verbatim>\<open>crates/cm108-server/src/ipc.rs\<close>: the registry of clients
  with their outgoing message queues, the dispatcher of client messages, and the
  connection handler. A client's \<open>SyncSender\<close> is the bounded channel of the standard
  library (128 messages; \<open>try_send\<close> fails when it is full or the writer thread is
  gone, and every caller ignores the failure). The hash map of clients is a map; no
  operation depends on its iteration order, because each client has its own queue.
  The registry mutex is never poisoned (no code panics under it); the GPIO and
  transmit mutexes carry their poison flag.
\<close>

section \<open>Standard library pieces\<close>

record channel =
  queued :: "ServerMsg list"
  receiver_alive :: bool

definition CHANNEL_BOUND :: nat where "CHANNEL_BOUND = 128"

definition sync_channel :: channel where
  "sync_channel = \<lparr>queued = [], receiver_alive = True\<rparr>"

text \<open>\<open>try_send\<close> with its result ignored.\<close>

definition try_send :: "ServerMsg \<Rightarrow> channel \<Rightarrow> channel" where
  "try_send m c =
     (if receiver_alive c \<and> length (queued c) < CHANNEL_BOUND then c\<lparr>queued := queued c @ [m]\<rparr> else c)"

record 'a mutex =
  guarded :: 'a
  poisoned :: bool

section \<open>Client registry\<close>

type_synonym ClientId = u64

record ClientHandle =
  h_id :: ClientId
  h_streams :: StreamFlags
  h_sender :: channel

record ClientRegistry =
  clients :: "ClientId \<rightharpoonup> ClientHandle"
  next_id :: u64

definition ClientRegistry_new :: ClientRegistry where
  "ClientRegistry_new = \<lparr>clients = Map.empty, next_id = 1\<rparr>"

definition allocate_id :: "ClientRegistry \<Rightarrow> ClientId \<times> ClientRegistry" where
  "allocate_id r = (next_id r, r\<lparr>next_id := next_id r + 1\<rparr>)"

definition register :: "ClientHandle \<Rightarrow> ClientRegistry \<Rightarrow> ClientRegistry" where
  "register h r = r\<lparr>clients := (clients r)(h_id h \<mapsto> h)\<rparr>"

definition unregister :: "ClientId \<Rightarrow> ClientRegistry \<Rightarrow> ClientRegistry" where
  "unregister cid r = r\<lparr>clients := (clients r)(cid := None)\<rparr>"

definition update_streams :: "ClientId \<Rightarrow> StreamFlags \<Rightarrow> ClientRegistry \<Rightarrow> ClientRegistry" where
  "update_streams cid st r =
     (case clients r cid of
        Some h \<Rightarrow> r\<lparr>clients := (clients r)(cid \<mapsto> h\<lparr>h_streams := st\<rparr>)\<rparr>
      | None \<Rightarrow> r)"

text \<open>The loop over \<open>clients.values()\<close> that sends to the handles satisfying a test.\<close>

definition send_where :: "(ClientHandle \<Rightarrow> bool) \<Rightarrow> ServerMsg \<Rightarrow> ClientRegistry \<Rightarrow> ClientRegistry" where
  "send_where test msg r =
     r\<lparr>clients := (\<lambda>cid. map_option (\<lambda>h. if test h then h\<lparr>h_sender := try_send msg (h_sender h)\<rparr> else h)
                    (clients r cid))\<rparr>"

definition broadcast_radio_event :: "RadioEvent \<Rightarrow> ClientRegistry \<Rightarrow> ClientRegistry" where
  "broadcast_radio_event ev = send_where (\<lambda>h. contains (h_streams h) GPIO_EVENTS) (RadioEv ev)"

definition notify_audio_ready :: "u64 \<Rightarrow> ClientRegistry \<Rightarrow> ClientRegistry" where
  "notify_audio_ready sq = send_where (\<lambda>h. contains (h_streams h) AUDIO_IN) (AudioReady sq)"

definition broadcast_stats :: "u64 \<Rightarrow> u64 \<Rightarrow> LatencyStats \<Rightarrow> ClientRegistry \<Rightarrow> ClientRegistry" where
  "broadcast_stats rx tx lat = send_where (\<lambda>_. True) (Stats rx tx lat)"

definition send_to :: "ClientId \<Rightarrow> ServerMsg \<Rightarrow> ClientRegistry \<Rightarrow> ClientRegistry" where
  "send_to cid msg r =
     (case clients r cid of
        Some h \<Rightarrow> r\<lparr>clients := (clients r)(cid \<mapsto> h\<lparr>h_sender := try_send msg (h_sender h)\<rparr>)\<rparr>
      | None \<Rightarrow> r)"

text \<open>The receiving end of a client's queue is dropped.\<close>

definition hang_up :: "ClientId \<Rightarrow> ClientRegistry \<Rightarrow> ClientRegistry" where
  "hang_up cid r =
     (case clients r cid of
        Some h \<Rightarrow> r\<lparr>clients := (clients r)(cid \<mapsto> h\<lparr>h_sender := (h_sender h)\<lparr>receiver_alive := False\<rparr>\<rparr>)\<rparr>
      | None \<Rightarrow> r)"

section \<open>Shared context and message dispatch\<close>

text \<open>\<open>ctl_log\<close> records the control requests issued to the device, newest last.\<close>

record 'r ClientContext =
  registry :: ClientRegistry
  rx_shmem_fd :: i32
  gpio :: "HidGpio mutex"
  tx_producer :: "'r mutex"
  rx_xruns :: u64
  tx_xruns :: u64
  last_latency :: LatencyStats
  last_activity_ms :: u64
  ctl_log :: "ctl_request list"

text \<open>\<open>SystemTime::now\<close> in milliseconds since the epoch; \<open>None\<close> before the epoch.\<close>

definition wall_ms :: "nat option \<Rightarrow> u64" where
  "wall_ms now = of_nat (case now of None \<Rightarrow> 0 | Some n \<Rightarrow> n)"

text \<open>Locking the GPIO state and setting a pin: skipped when the mutex is poisoned; a
  panic inside poisons it.\<close>

definition locked_set_pin :: "profile \<Rightarrow> write_control \<Rightarrow> u8 \<Rightarrow> bool \<Rightarrow> 'r ClientContext
    \<Rightarrow> 'r ClientContext \<times> bool" where
  "locked_set_pin p wc n high ctx =
     (if poisoned (gpio ctx) then (ctx, False)
      else case set_pin p wc (guarded (gpio ctx)) n high of
        Returns (g, req, res) \<Rightarrow>
          (ctx\<lparr>gpio := (gpio ctx)\<lparr>guarded := g\<rparr>, ctl_log := ctl_log ctx @ [req]\<rparr>, False)
      | Panics \<Rightarrow> (ctx\<lparr>gpio := (gpio ctx)\<lparr>poisoned := True\<rparr>\<rparr>, True))"

fun push_frames :: "'r ring_api \<Rightarrow> AudioFrame list \<Rightarrow> 'r \<Rightarrow> u64 \<Rightarrow> 'r \<times> u64" where
  "push_frames api [] q x = (q, x)"
| "push_frames api (f # fs) q x =
     (case ring_push api q f of
        Some q' \<Rightarrow> push_frames api fs q' x
      | None \<Rightarrow> push_frames api fs q (x + 1))"

text \<open>The flag says that the handler thread panicked.\<close>

definition dispatch_client_msg :: "profile \<Rightarrow> write_control \<Rightarrow> 'r ring_api \<Rightarrow> nat option \<Rightarrow> ClientId
    \<Rightarrow> ClientMsg \<Rightarrow> 'r ClientContext \<Rightarrow> 'r ClientContext \<times> bool" where
  "dispatch_client_msg p wc api now cid msg ctx0 =
     (let ctx = ctx0\<lparr>last_activity_ms := wall_ms now\<rparr> in
      case msg of
        Subscribe st \<Rightarrow> (ctx\<lparr>registry := update_streams cid st (registry ctx)\<rparr>, False)
      | SetGpio n high \<Rightarrow> locked_set_pin p wc n high ctx
      | AudioWrite fs \<Rightarrow>
          (if poisoned (tx_producer ctx) then (ctx, False)
           else let (q, x) = push_frames api fs (guarded (tx_producer ctx)) (tx_xruns ctx)
                in (ctx\<lparr>tx_producer := (tx_producer ctx)\<lparr>guarded := q\<rparr>, tx_xruns := x\<rparr>, False))
      | Ping \<Rightarrow> (ctx\<lparr>registry := send_to cid Pong (registry ctx)\<rparr>, False)
      | GetStats \<Rightarrow>
          (ctx\<lparr>registry := send_to cid (Stats (rx_xruns ctx) (tx_xruns ctx) (last_latency ctx))
                            (registry ctx)\<rparr>, False))"

section \<open>Connection handler\<close>

text \<open>The read loop, with fuel for the number of reads (one more than the number of
  input bytes is enough: \<open>client_loop_dispatches\<close> with \<open>to_server.read_loop_enough\<close>)
  and the wall clock at each message.\<close>

fun client_loop :: "profile \<Rightarrow> write_control \<Rightarrow> 'r ring_api \<Rightarrow> (nat \<Rightarrow> nat option) \<Rightarrow> ClientId \<Rightarrow> nat
    \<Rightarrow> in_stream \<Rightarrow> 'r ClientContext \<Rightarrow> 'r ClientContext \<times> bool" where
  "client_loop p wc api clock cid 0 s ctx = (ctx, False)"
| "client_loop p wc api clock cid (Suc n) s ctx =
     (case read_msg s of
        (Inr (Some msg), s') \<Rightarrow>
          (case dispatch_client_msg p wc api (clock 0) cid msg ctx of
             (ctx', True) \<Rightarrow> (ctx', True)
           | (ctx', False) \<Rightarrow> client_loop p wc api (\<lambda>k. clock (Suc k)) cid n s' ctx')
      | (Inr None, s') \<Rightarrow> (ctx, False)
      | (Inl e, s') \<Rightarrow> (ctx, False))"

text \<open>The same loop as it stands, without a bound: \<open>None\<close> would be a loop that never
  ends.\<close>

partial_function (option) serve_loop :: "profile \<Rightarrow> write_control \<Rightarrow> 'r ring_api \<Rightarrow> (nat \<Rightarrow> nat option) \<Rightarrow> ClientId
    \<Rightarrow> in_stream \<Rightarrow> 'r ClientContext \<Rightarrow> ('r ClientContext \<times> bool) option" where
  "serve_loop p wc api clock cid s ctx =
     (case read_msg s of
        (res, s') \<Rightarrow>
          (case res of
             Inl e \<Rightarrow> Some (ctx, False)
           | Inr m \<Rightarrow>
               (case m of
                  None \<Rightarrow> Some (ctx, False)
                | Some msg \<Rightarrow>
                    (case dispatch_client_msg p wc api (clock 0) cid msg ctx of
                       (ctx', panicked) \<Rightarrow>
                         if panicked then Some (ctx', True)
                         else serve_loop p wc api (\<lambda>k. clock (Suc k)) cid s' ctx'))))"

text \<open>\<open>fd_sent\<close>, \<open>cloned\<close> and \<open>spawned\<close>: the results of sending the descriptor, of cloning the
  stream and of starting the writer thread. \<open>thread::spawn\<close> panics when the thread cannot
  be created, and drops the receiving end of the queue with its closure. The flag says
  that the handler panicked and the process went on without it; \<open>Panics\<close> is the end of the
  whole daemon.\<close>

definition handle_client :: "profile \<Rightarrow> write_control \<Rightarrow> 'r ring_api \<Rightarrow> (nat \<Rightarrow> nat option) \<Rightarrow> bool \<Rightarrow> bool \<Rightarrow> bool
    \<Rightarrow> in_stream \<Rightarrow> 'r ClientContext \<Rightarrow> ('r ClientContext \<times> bool) outcome" where
  "handle_client p wc api clock fd_sent cloned spawned s ctx =
     (let (cid, reg) = allocate_id (registry ctx);
          ctx1 = ctx\<lparr>registry := register \<lparr>h_id = cid, h_streams = flags_empty, h_sender = sync_channel\<rparr> reg\<rparr>
      in if \<not> fd_sent then Returns (ctx1\<lparr>registry := unregister cid (registry ctx1)\<rparr>, False)
         else if \<not> cloned then Returns (ctx1\<lparr>registry := unregister cid (registry ctx1)\<rparr>, False)
         else if \<not> spawned then thread_panic p (ctx1\<lparr>registry := hang_up cid (registry ctx1)\<rparr>, True)
         else case client_loop p wc api clock cid (Suc (length (inp s))) s ctx1 of
           (ctx2, True) \<Rightarrow> thread_panic p (ctx2, True)
         | (ctx2, False) \<Rightarrow> Returns (ctx2\<lparr>registry := unregister cid (registry ctx2)\<rparr>, False))"

text \<open>The writer thread: the queued messages, until a write fails.\<close>

definition writer_thread :: "channel \<Rightarrow> out_stream \<Rightarrow> (ErrorKind + unit) \<times> out_stream" where
  "writer_thread c t = write_seq write_msg (queued c) t"

section \<open>Reference definitions\<close>

text \<open>The dispatcher applied to a list of messages, up to a panic; the reply a message
  has; the context of a freshly connected client.\<close>

fun dispatch_seq :: "profile \<Rightarrow> write_control \<Rightarrow> 'r ring_api \<Rightarrow> (nat \<Rightarrow> nat option) \<Rightarrow> ClientId
    \<Rightarrow> ClientMsg list \<Rightarrow> 'r ClientContext \<Rightarrow> 'r ClientContext \<times> bool" where
  "dispatch_seq p wc api clock cid [] ctx = (ctx, False)"
| "dispatch_seq p wc api clock cid (m # ms) ctx =
     (case dispatch_client_msg p wc api (clock 0) cid m ctx of
        (ctx', True) \<Rightarrow> (ctx', True)
      | (ctx', False) \<Rightarrow> dispatch_seq p wc api (\<lambda>k. clock (Suc k)) cid ms ctx')"

fun reply_of :: "'r ClientContext \<Rightarrow> ClientMsg \<Rightarrow> ServerMsg list" where
  "reply_of ctx Ping = [Pong]"
| "reply_of ctx GetStats = [Stats (rx_xruns ctx) (tx_xruns ctx) (last_latency ctx)]"
| "reply_of ctx _ = []"

definition connected :: "'r ClientContext \<Rightarrow> 'r ClientContext" where
  "connected ctx =
     ctx\<lparr>registry := register \<lparr>h_id = fst (allocate_id (registry ctx)), h_streams = flags_empty,
                                h_sender = sync_channel\<rparr> (snd (allocate_id (registry ctx)))\<rparr>"

section \<open>A concrete context\<close>

text \<open>One client, subscribed to radio events.\<close>

definition demo_registry :: ClientRegistry where
  "demo_registry =
     register \<lparr>h_id = 1, h_streams = GPIO_EVENTS, h_sender = sync_channel\<rparr>
       (snd (allocate_id ClientRegistry_new))"

definition demo_ctx :: "AudioFrame list ClientContext" where
  "demo_ctx =
     \<lparr>registry = demo_registry, rx_shmem_fd = 5, gpio = \<lparr>guarded = HidGpio_new, poisoned = False\<rparr>,
      tx_producer = \<lparr>guarded = [], poisoned = False\<rparr>, rx_xruns = 0, tx_xruns = 0,
      last_latency = LatencyStats_default, last_activity_ms = 0, ctl_log = []\<rparr>"

section \<open>Registry invariant\<close>

definition handle_ok :: "nat \<Rightarrow> ClientId \<Rightarrow> ClientHandle \<Rightarrow> bool" where
  "handle_ok n cid h \<longleftrightarrow>
     h_id h = cid \<and> 0 < unat cid \<and> unat cid \<le> n \<and> length (queued (h_sender h)) \<le> CHANNEL_BOUND"

definition registry_ok :: "nat \<Rightarrow> ClientRegistry \<Rightarrow> bool" where
  "registry_ok n r \<longleftrightarrow>
     next_id r = of_nat (Suc n) \<and> (\<forall>cid h. clients r cid = Some h \<longrightarrow> handle_ok n cid h)"

section \<open>Bounded queues that drop the newest\<close>

locale mailbox =
  fixes put :: "'m \<Rightarrow> 'c \<Rightarrow> 'c"
    and contents_of :: "'c \<Rightarrow> 'm list"
    and live :: "'c \<Rightarrow> bool"
    and bound :: nat
  assumes put_contents: "contents_of (put m c) =
      (if live c \<and> length (contents_of c) < bound then contents_of c @ [m] else contents_of c)"
    and put_live: "live (put m c) = live c"
begin

lemma put_all:
  assumes "live c" "length (contents_of c) \<le> bound"
  shows "contents_of (fold put ms c) = contents_of c @ take (bound - length (contents_of c)) ms"
  using assms
proof (induction ms arbitrary: c)
  case Nil
  then show ?case by simp
next
  case (Cons m ms)
  show ?case
  proof (cases "length (contents_of c) < bound")
    case True
    then obtain k where k: "bound - length (contents_of c) = Suc k"
      by (cases "bound - length (contents_of c)") auto
    with True Cons.prems have "contents_of (put m c) = contents_of c @ [m]" by (simp add: put_contents)
    with True Cons.prems Cons.IH [of "put m c"] k show ?thesis
      by (simp add: put_live) (metis Suc_diff_Suc diff_Suc_1 k)
  next
    case False
    with Cons.prems Cons.IH [of "put m c"] show ?thesis by (simp add: put_contents put_live)
  qed
qed

lemma put_all_live: "live (fold put ms c) = live c"
  by (induction ms arbitrary: c) (simp_all add: put_live)

lemma put_bounded: "length (contents_of c) \<le> bound \<Longrightarrow> length (contents_of (put m c)) \<le> bound"
  by (simp add: put_contents)

lemma put_keeps: "prefix (contents_of c) (contents_of (put m c))"
  by (simp add: put_contents)

end

interpretation chan: mailbox try_send queued receiver_alive CHANNEL_BOUND
  by unfold_locales (simp_all add: try_send_def)

section \<open>Registry lemmas\<close>

named_theorems reg_simps "lookups after registry operations"

lemma clients_register [reg_simps]:
  "clients (register h r) cid = (if cid = h_id h then Some h else clients r cid)"
  by (simp add: register_def)

lemma clients_unregister [reg_simps]:
  "clients (unregister i r) cid = (if cid = i then None else clients r cid)"
  by (simp add: unregister_def)

lemma clients_update_streams [reg_simps]:
  "clients (update_streams i st r) cid =
     (if cid = i then map_option (\<lambda>h. h\<lparr>h_streams := st\<rparr>) (clients r cid) else clients r cid)"
  by (simp add: update_streams_def split: option.split)

lemma clients_send_where [reg_simps]:
  "clients (send_where test msg r) cid =
     map_option (\<lambda>h. if test h then h\<lparr>h_sender := try_send msg (h_sender h)\<rparr> else h) (clients r cid)"
  by (simp add: send_where_def)

lemma clients_send_to [reg_simps]:
  "clients (send_to i msg r) cid =
     (if cid = i then map_option (\<lambda>h. h\<lparr>h_sender := try_send msg (h_sender h)\<rparr>) (clients r cid) else clients r cid)"
  by (simp add: send_to_def split: option.split)

lemma clients_hang_up [reg_simps]:
  "clients (hang_up i r) cid =
     (if cid = i then map_option (\<lambda>h. h\<lparr>h_sender := (h_sender h)\<lparr>receiver_alive := False\<rparr>\<rparr>) (clients r cid)
      else clients r cid)"
  by (simp add: hang_up_def split: option.split)

lemma next_id_simps [reg_simps]:
  "next_id (register h r) = next_id r" "next_id (unregister i r) = next_id r"
  "next_id (update_streams i st r) = next_id r" "next_id (send_where test msg r) = next_id r"
  "next_id (send_to i msg r) = next_id r" "next_id (hang_up i r) = next_id r"
  by (simp_all add: register_def unregister_def update_streams_def send_where_def send_to_def hang_up_def
      split: option.split)

lemma registry_ok_new: "registry_ok 0 ClientRegistry_new"
  by (simp add: registry_ok_def ClientRegistry_new_def)

lemma handle_ok_updates:
  assumes "handle_ok n cid h"
  shows "handle_ok n cid (h\<lparr>h_streams := st\<rparr>)"
    and "handle_ok n cid (h\<lparr>h_sender := try_send msg (h_sender h)\<rparr>)"
    and "handle_ok n cid (h\<lparr>h_sender := (h_sender h)\<lparr>receiver_alive := b\<rparr>\<rparr>)"
  using assms chan.put_bounded by (simp_all add: handle_ok_def)

lemma registry_okI:
  assumes "registry_ok n r" "next_id r' = next_id r"
    "\<And>cid h. clients r' cid = Some h \<Longrightarrow> handle_ok n cid h"
  shows "registry_ok n r'"
  using assms by (simp add: registry_ok_def)

lemma registry_okD: "registry_ok n r \<Longrightarrow> clients r cid = Some h \<Longrightarrow> handle_ok n cid h"
  by (simp add: registry_ok_def)

lemma registry_ok_ops:
  assumes "registry_ok n r"
  shows "registry_ok n (unregister i r)" "registry_ok n (update_streams i st r)"
    "registry_ok n (send_where test msg r)" "registry_ok n (send_to i msg r)" "registry_ok n (hang_up i r)"
  by (rule registry_okI [OF assms]; auto simp: reg_simps split: if_splits
      intro: handle_ok_updates registry_okD [OF assms])+

lemma registry_ok_connect:
  assumes "registry_ok n r" "allocate_id r = (cid, r')" "length (queued c) \<le> CHANNEL_BOUND"
    and n: "n + 1 < 2 ^ 64"
  shows "registry_ok (Suc n) (register \<lparr>h_id = cid, h_streams = st, h_sender = c\<rparr> r')"
proof -
  have r': "cid = of_nat (Suc n)" "r' = r\<lparr>next_id := next_id r + 1\<rparr>" "next_id r = of_nat (Suc n)"
    using assms(1,2) by (auto simp: allocate_id_def registry_ok_def)
  have u: "unat (of_nat (Suc n) :: u64) = Suc n" using n by (intro unat_of_nat_small) simp
  have "handle_ok (Suc n) i h" if "clients r i = Some h" for i h
    using registry_okD [OF assms(1) that] by (simp add: handle_ok_def)
  with r' u assms(3) show ?thesis
    by (auto simp: registry_ok_def reg_simps handle_ok_def split: if_splits)
qed

lemma fresh_id:
  assumes "registry_ok n r" "n + 1 < 2 ^ 64"
  shows "clients r (fst (allocate_id r)) = None"
proof (rule ccontr)
  assume "clients r (fst (allocate_id r)) \<noteq> None"
  then obtain h where "handle_ok n (of_nat (Suc n)) h"
    using assms(1) by (auto simp: registry_ok_def allocate_id_def)
  moreover have "unat (of_nat (Suc n) :: u64) = Suc n" using assms(2) by (intro unat_of_nat_small) simp
  ultimately show False by (simp add: handle_ok_def)
qed

section \<open>Dispatch lemmas\<close>

lemma locked_set_pin_frame:
  assumes "locked_set_pin p wc n high ctx = (ctx', b)"
  shows "registry ctx' = registry ctx" "last_latency ctx' = last_latency ctx"
    "tx_producer ctx' = tx_producer ctx" "tx_xruns ctx' = tx_xruns ctx" "rx_xruns ctx' = rx_xruns ctx"
  using assms by (auto simp: locked_set_pin_def split: if_splits outcome.splits)

lemma locked_set_pin_release: "snd (locked_set_pin Release wc n high ctx) = False"
proof -
  obtain g req res where "set_pin Release wc (guarded (gpio ctx)) n high = Returns (g, req, res)"
    using set_pin_returns by blast
  then show ?thesis by (simp add: locked_set_pin_def)
qed

lemma dispatch_release: "\<not> snd (dispatch_client_msg Release wc api now cid msg ctx)"
  by (cases msg) (simp_all add: dispatch_client_msg_def Let_def locked_set_pin_release split_beta)

lemma dispatch_registry:
  assumes "dispatch_client_msg p wc api now cid msg ctx = (ctx', b)"
  shows "registry ctx' = registry ctx \<or> (\<exists>st. registry ctx' = update_streams cid st (registry ctx)) \<or>
    (\<exists>m. registry ctx' = send_to cid m (registry ctx))"
proof (cases msg)
  case (SetGpio n high)
  with assms locked_set_pin_frame(1) show ?thesis
    by (fastforce simp: dispatch_client_msg_def Let_def)
qed (use assms in \<open>auto simp: dispatch_client_msg_def Let_def split: if_splits prod.splits\<close>)

lemma dispatch_other:
  assumes "dispatch_client_msg p wc api now cid msg ctx = (ctx', b)" "i \<noteq> cid"
  shows "clients (registry ctx') i = clients (registry ctx) i"
  using dispatch_registry [OF assms(1)] assms(2) by (auto simp: reg_simps)

lemma dispatch_next_id:
  assumes "dispatch_client_msg p wc api now cid msg ctx = (ctx', b)"
  shows "next_id (registry ctx') = next_id (registry ctx)"
  using dispatch_registry [OF assms] by (auto simp: reg_simps)

lemma dispatch_registry_ok:
  assumes "dispatch_client_msg p wc api now cid msg ctx = (ctx', b)" "registry_ok n (registry ctx)"
  shows "registry_ok n (registry ctx')"
  using dispatch_registry [OF assms(1)] assms(2) registry_ok_ops by auto

lemma dispatch_seq_frame:
  assumes "dispatch_seq p wc api clock cid ms ctx = (ctx', b)"
  shows "(\<forall>i. i \<noteq> cid \<longrightarrow> clients (registry ctx') i = clients (registry ctx) i) \<and>
    next_id (registry ctx') = next_id (registry ctx) \<and> (p = Release \<longrightarrow> \<not> b)"
  using assms
proof (induction ms arbitrary: ctx clock)
  case Nil
  then show ?case by simp
next
  case (Cons m ms)
  obtain ctx1 b1 where d: "dispatch_client_msg p wc api (clock 0) cid m ctx = (ctx1, b1)" by force
  note f = dispatch_other [OF d] dispatch_next_id [OF d]
  have r: "p = Release \<longrightarrow> \<not> b1" using dispatch_release d by (metis snd_conv)
  show ?case
  proof (cases b1)
    case True
    with Cons.prems d f r show ?thesis by auto
  next
    case False
    with Cons.prems d have "dispatch_seq p wc api (\<lambda>k. clock (Suc k)) cid ms ctx1 = (ctx', b)" by simp
    from Cons.IH [OF this] f show ?thesis by simp
  qed
qed

lemma client_loop_dispatches:
  "client_loop p wc api clock cid n s ctx = dispatch_seq p wc api clock cid (fst (read_loop read_msg n s)) ctx"
proof (induction n arbitrary: s ctx clock)
  case 0
  then show ?case by simp
next
  case (Suc n)
  obtain r s1 where r: "read_msg s = (r, s1)" by force
  show ?case
  proof (cases r)
    case (Inr o')
    with Suc r show ?thesis by (cases o') (auto simp: split_beta split: bool.splits)
  qed (use r in simp)
qed

lemma serve_loop_returns:
  "length (inp s) < n \<Longrightarrow> serve_loop p wc api clock cid s ctx = Some (client_loop p wc api clock cid n s ctx)"
proof (induction n arbitrary: s ctx clock)
  case (Suc n)
  obtain r s1 where r: "read_msg s = (r, s1)" by force
  show ?case
  proof (cases "\<exists>m. r = Inr (Some m)")
    case True
    then obtain m where m: "r = Inr (Some m)" ..
    obtain c b where d: "dispatch_client_msg p wc api (clock 0) cid m ctx = (c, b)" by force
    have "length (inp s1) < n" using Suc.prems rd_consumes_msg(1) [of s m s1] r m by simp
    from Suc.IH [OF this] r m d show ?thesis
      by (subst serve_loop.simps) (cases b; simp)
  next
    case False
    with r show ?thesis by (subst serve_loop.simps) (auto split: sum.split option.split)
  qed
qed simp

lemma handle_client_eq:
  "handle_client p wc api clock True True True s ctx =
     (let cid = fst (allocate_id (registry ctx));
          (ctx2, b) = dispatch_seq p wc api clock cid
             (fst (read_loop read_msg (Suc (length (inp s))) s)) (connected ctx)
      in if b then thread_panic p (ctx2, True) else Returns (ctx2\<lparr>registry := unregister cid (registry ctx2)\<rparr>, False))"
  unfolding handle_client_def connected_def Let_def client_loop_dispatches
  by (auto simp del: read_loop.simps split: prod.splits bool.splits)

lemma handle_client_refused:
  assumes "\<not> (fd_sent \<and> cloned)"
  shows "handle_client p wc api clock fd_sent cloned spawned s ctx =
    Returns ((connected ctx)\<lparr>registry := unregister (fst (allocate_id (registry ctx))) (registry (connected ctx))\<rparr>, False)"
  using assms by (cases fd_sent; cases cloned)
    (simp_all add: handle_client_def connected_def Let_def split_beta del: client_loop.simps)

lemma handle_client_no_writer:
  "handle_client p wc api clock True True False s ctx =
    thread_panic p ((connected ctx)\<lparr>registry := hang_up (fst (allocate_id (registry ctx))) (registry (connected ctx))\<rparr>, True)"
  by (simp add: handle_client_def connected_def Let_def split_beta del: client_loop.simps)

lemma push_frames_fifo:
  assumes "ring_fifo api contents cap" "length (contents q) \<le> cap" "push_frames api fs q x = (q', x')"
  shows "contents q' = contents q @ take (cap - length (contents q)) fs \<and>
    x' = x + of_nat (length fs - (cap - length (contents q)))"
  using assms(2,3)
proof (induction fs arbitrary: q x)
  case Nil
  then show ?case by simp
next
  case (Cons f fs)
  show ?case
  proof (cases "length (contents q) < cap")
    case True
    then obtain q1 where q1: "ring_push api q f = Some q1" "contents q1 = contents q @ [f]"
      using assms(1) unfolding ring_fifo_def by meson
    then obtain k where k: "cap - length (contents q) = Suc k" "cap - length (contents q1) = k"
      using True by (cases "cap - length (contents q)") auto
    moreover have "Suc (length fs + length (contents q)) - cap = length fs - k"
      using k(1) by arith
    ultimately show ?thesis using Cons.IH [of q1 x] Cons.prems q1 True by simp
  next
    case False
    then have "ring_push api q f = None" using assms(1) unfolding ring_fifo_def by meson
    with False Cons.IH [of q "x + 1"] Cons.prems show ?thesis by (simp add: algebra_simps)
  qed
qed

lemma fold_broadcast:
  "clients (fold broadcast_radio_event evs r) i =
     map_option (\<lambda>h. if contains (h_streams h) GPIO_EVENTS
        then h\<lparr>h_sender := fold try_send (map RadioEv evs) (h_sender h)\<rparr> else h) (clients r i)"
proof (induction evs arbitrary: r)
  case Nil
  then show ?case by (simp add: option.map_ident_strong)
next
  case (Cons e evs)
  then show ?case
    by (cases "clients r i") (simp_all add: broadcast_radio_event_def reg_simps)
qed

lemma allocate_id_simps:
  "clients (snd (allocate_id r)) = clients r" "next_id (snd (allocate_id r)) = next_id r + 1"
  by (simp_all add: allocate_id_def)

lemma connected_other:
  "i \<noteq> fst (allocate_id (registry ctx)) \<Longrightarrow>
     clients (registry (connected ctx)) i = clients (registry ctx) i"
  "next_id (registry (connected ctx)) = next_id (registry ctx) + 1"
  by (simp_all add: connected_def reg_simps allocate_id_simps)

lemma handle_client_sent:
  assumes "list_all client_msg_ok ms" and "list_all (fits_frame encode_ClientMsg) ms"
    and "write_seq write_client_msg ms \<lparr>outp = [], out_limit = None\<rparr> = (r, t)"
  shows "\<exists>ctx2 b. dispatch_seq p wc api clock (fst (allocate_id (registry ctx))) ms (connected ctx) = (ctx2, b) \<and>
    handle_client p wc api clock True True True \<lparr>inp = outp t, in_end = None\<rparr> ctx =
      (if b then thread_panic p (ctx2, True)
       else Returns (ctx2\<lparr>registry := unregister (fst (allocate_id (registry ctx))) (registry ctx2)\<rparr>, False)) \<and>
    (p = Release \<longrightarrow> \<not> b) \<and>
    (\<forall>i. i \<noteq> fst (allocate_id (registry ctx)) \<longrightarrow> clients (registry ctx2) i = clients (registry ctx) i)"
proof -
  let ?cid = "fst (allocate_id (registry ctx))"
  have t: "outp t = to_server.wire ms" using assms(3) by (auto simp: to_server.write_seq_appends)
  have "length ms \<le> length (to_server.wire ms)"
    by (induction ms) (simp_all add: to_server.length_to_framed)
  then obtain k where k: "Suc (length (outp t)) - length ms = Suc k"
    using t by (metis Suc_diff_le)
  have "fst (read_loop read_msg (Suc (length (outp t))) \<lparr>inp = outp t, in_end = None\<rparr>) = ms"
    using to_server.read_loop_sent [OF assms(1,2), of "Suc (length (outp t))" "[]" None] t k
      \<open>length ms \<le> length (to_server.wire ms)\<close>
    by (simp add: to_server.rd_eof del: read_loop.simps) (simp add: to_server.rd_eof)
  moreover obtain ctx2 b where d: "dispatch_seq p wc api clock ?cid ms (connected ctx) = (ctx2, b)" by force
  ultimately show ?thesis
    using dispatch_seq_frame [OF d] connected_other
    by (auto simp: handle_client_eq simp del: read_loop.simps)
qed

lemma demo_registry_ok: "registry_ok 1 demo_registry"
  using registry_ok_connect [OF registry_ok_new, of 1 "snd (allocate_id ClientRegistry_new)" sync_channel GPIO_EVENTS]
  by (simp add: demo_registry_def allocate_id_def ClientRegistry_new_def sync_channel_def)

lemma demo_client:
  "clients demo_registry 1 = Some \<lparr>h_id = 1, h_streams = GPIO_EVENTS, h_sender = sync_channel\<rparr>"
  by (simp add: demo_registry_def reg_simps)

section \<open>Properties\<close>

text \<open>A whole client session, from the bytes the client wrote to the state of the
  daemon. The handler connects the client under a fresh id, executes exactly the
  messages the client wrote, in order, and in a release build always removes the
  registration again at the end; executing messages never touches the registration,
  subscription or queue of another client.\<close>

lemma session_executes_messages:
  assumes "list_all client_msg_ok ms" and "list_all (fits_frame encode_ClientMsg) ms"
    and "write_seq write_client_msg ms \<lparr>outp = [], out_limit = None\<rparr> = (r, t)"
  shows "\<exists>ctx2 b. dispatch_seq p wc api clock (fst (allocate_id (registry ctx))) ms (connected ctx) = (ctx2, b) \<and>
    handle_client p wc api clock True True True \<lparr>inp = outp t, in_end = None\<rparr> ctx =
      (if b then thread_panic p (ctx2, True)
       else Returns (ctx2\<lparr>registry := unregister (fst (allocate_id (registry ctx))) (registry ctx2)\<rparr>, False)) \<and>
    (p = Release \<longrightarrow> \<not> b) \<and>
    (\<forall>i. i \<noteq> fst (allocate_id (registry ctx)) \<longrightarrow> clients (registry ctx2) i = clients (registry ctx) i)"
  using assms by (rule handle_client_sent)

text \<open>Connections leave no trace in the registry. Whatever bytes a client sends
  and however the connection ends, while fewer than $2^{64} - 1$ ids were handed out
  the new id was not in use, no other client's entry changes, and unless the handler
  panicked the registry holds afterwards exactly the clients it held before, so no
  later broadcast is sent to a dead connection. In a release build the daemon does not
  outlive a panic of a handler.\<close>

lemma connection_leaves_no_trace:
  assumes "registry_ok n (registry ctx)" and "n + 1 < 2 ^ 64"
    and "handle_client p wc api clock fd_sent cloned spawned s ctx = Returns (ctx', panicked)"
  shows "clients (registry ctx) (fst (allocate_id (registry ctx))) = None \<and>
    (\<forall>i. i \<noteq> fst (allocate_id (registry ctx)) \<longrightarrow> clients (registry ctx') i = clients (registry ctx) i) \<and>
    (\<not> panicked \<longrightarrow> clients (registry ctx') = clients (registry ctx)) \<and>
    next_id (registry ctx') = next_id (registry ctx) + 1 \<and> (p = Release \<longrightarrow> \<not> panicked)"
proof -
  let ?cid = "fst (allocate_id (registry ctx))"
  have fresh: "clients (registry ctx) ?cid = None" using assms(1,2) by (rule fresh_id)
  have gone: "clients (unregister ?cid r) = clients (registry ctx)"
    if "\<And>i. i \<noteq> ?cid \<Longrightarrow> clients r i = clients (registry ctx) i" for r
    using that fresh by (auto simp: reg_simps fun_eq_iff)
  show ?thesis
  proof (cases "fd_sent \<and> cloned")
    case fc: True
    show ?thesis
    proof (cases spawned)
      case sp: True
      note True = fc sp
      obtain ctx2 b where d: "dispatch_seq p wc api clock ?cid
          (fst (read_loop read_msg (Suc (length (inp s))) s)) (connected ctx) = (ctx2, b)" by force
      note f = dispatch_seq_frame [OF d]
      have o: "\<And>i. i \<noteq> ?cid \<Longrightarrow> clients (registry ctx2) i = clients (registry ctx) i"
        using f connected_other(1) [of _ ctx] by simp
      have "ctx' = (if b then ctx2 else ctx2\<lparr>registry := unregister ?cid (registry ctx2)\<rparr>) \<and> panicked = b"
        using assms(3) True d by (auto simp: handle_client_eq simp del: read_loop.simps)
      moreover have "p = Release \<longrightarrow> \<not> b" using f by blast
      ultimately show ?thesis
        using f o fresh gone [OF o] connected_other(2) [of ctx] by (cases b) (simp_all add: reg_simps)
    next
      case False
      with assms(3) fc have "ctx' = (connected ctx)\<lparr>registry := hang_up ?cid (registry (connected ctx))\<rparr>" "panicked" "p = Debug"
        by (auto simp: handle_client_no_writer)
      then show ?thesis
        using fresh connected_other(1) [of _ ctx] connected_other(2) [of ctx] False by (simp add: reg_simps)
    qed
  next
    case False
    then have "ctx' = (connected ctx)\<lparr>registry := unregister ?cid (registry (connected ctx))\<rparr> \<and> \<not> panicked"
      using assms(3) by (simp add: handle_client_refused)
    then show ?thesis
      using fresh gone [of "registry (connected ctx)"] connected_other(1) [of _ ctx] connected_other(2) [of ctx] by (simp add: reg_simps)
  qed
qed

text \<open>C24: Every connection ends. The loop of the connection handler, which has no bound of
  its own, returns for every input, whatever bytes the client sent and however the
  stream ends, and its result is the one the bounded loop computes with one more round
  than there are bytes.\<close>

theorem connection_loop_terminates:
  "serve_loop p wc api clock cid s ctx = Some (client_loop p wc api clock cid (Suc (length (inp s))) s ctx)"
  by (rule serve_loop_returns) simp

text \<open>Replies go to the client that asked and to nobody else: a message extends
  the sender's queue by its reply (a pong, or the current counters) when the queue
  has room and is otherwise dropped; every other client keeps its entry, and no
  queue ever holds more than 128 messages.\<close>

lemma replies_only_to_sender:
  assumes "dispatch_client_msg p wc api now cid msg ctx = (ctx', b)"
    and "registry_ok n (registry ctx)" and "clients (registry ctx) cid = Some h"
  shows "registry_ok n (registry ctx') \<and>
    (\<forall>i. i \<noteq> cid \<longrightarrow> clients (registry ctx') i = clients (registry ctx) i) \<and>
    (\<exists>h'. clients (registry ctx') cid = Some h' \<and>
       queued (h_sender h') = queued (h_sender h) @
         (if receiver_alive (h_sender h) \<and> length (queued (h_sender h)) < 128 then reply_of ctx msg else []) \<and>
       h_streams h' = (case msg of Subscribe st \<Rightarrow> st | _ \<Rightarrow> h_streams h))"
proof -
  have "\<exists>h'. clients (registry ctx') cid = Some h' \<and>
       queued (h_sender h') = queued (h_sender h) @
         (if receiver_alive (h_sender h) \<and> length (queued (h_sender h)) < 128 then reply_of ctx msg else []) \<and>
       h_streams h' = (case msg of Subscribe st \<Rightarrow> st | _ \<Rightarrow> h_streams h)"
  proof (cases msg)
    case (SetGpio n high)
    with assms(1,3) show ?thesis
      using locked_set_pin_frame(1) [of p wc n high "ctx\<lparr>last_activity_ms := wall_ms now\<rparr>" ctx' b]
      by (simp add: dispatch_client_msg_def)
  qed (use assms(1,3) in \<open>auto simp: dispatch_client_msg_def Let_def reg_simps chan.put_contents
        CHANNEL_BOUND_def split: if_splits prod.splits\<close>)
  with dispatch_registry_ok [OF assms(1,2)] dispatch_other [OF assms(1)] show ?thesis by blast
qed

text \<open>Transmit accounting. An \<open>AudioWrite\<close> appends to the transmit ring, in order,
  as many of its frames as there is room for, drops the rest, and adds exactly the
  number of dropped frames to the transmit overrun counter.\<close>

lemma audio_write_accounting:
  assumes "ring_fifo api contents cap" and "\<not> poisoned (tx_producer ctx)"
    and "length (contents (guarded (tx_producer ctx))) \<le> cap"
    and "dispatch_client_msg p wc api now cid (AudioWrite fs) ctx = (ctx', b)"
  shows "let room = cap - length (contents (guarded (tx_producer ctx))) in
    contents (guarded (tx_producer ctx')) = contents (guarded (tx_producer ctx)) @ take room fs \<and>
    tx_xruns ctx' = tx_xruns ctx + of_nat (length fs - room) \<and> registry ctx' = registry ctx \<and> \<not> b"
proof -
  obtain q x where "push_frames api fs (guarded (tx_producer ctx)) (tx_xruns ctx) = (q, x)" by force
  with push_frames_fifo [OF assms(1,3) this] assms(2,4) show ?thesis
    by (auto simp: dispatch_client_msg_def Let_def)
qed

text \<open>Events reach exactly their subscribers. After a sequence of radio events,
  every subscribed client with a live connection has in its queue the events in
  order, the oldest first, as many as its 128-message queue still had room for; a
  client that did not subscribe has no more than before, and no client appears or
  disappears.\<close>

lemma broadcast_reaches_subscribers:
  assumes "registry_ok n r"
  shows "(case clients r i of
      None \<Rightarrow> clients (fold broadcast_radio_event evs r) i = None
    | Some h \<Rightarrow> \<exists>h'. clients (fold broadcast_radio_event evs r) i = Some h' \<and> h_streams h' = h_streams h \<and>
        queued (h_sender h') = queued (h_sender h) @
          (if contains (h_streams h) GPIO_EVENTS \<and> receiver_alive (h_sender h)
           then take (128 - length (queued (h_sender h))) (map RadioEv evs) else []))"
proof (cases "clients r i")
  case (Some h)
  have b: "length (queued (h_sender h)) \<le> CHANNEL_BOUND"
    using registry_okD [OF assms Some] by (simp add: handle_ok_def)
  have "queued (fold try_send ms (h_sender h)) = queued (h_sender h)" if "\<not> receiver_alive (h_sender h)" for ms
    by (induction ms) (simp_all add: try_send_def that)
  with Some chan.put_all [OF _ b] show ?thesis
    by (simp add: fold_broadcast CHANNEL_BOUND_def)
qed (simp add: fold_broadcast)

end
