(* ===== verification/Cm108_Latency.thy ===== *)
theory Cm108_Latency
  imports Cm108_Types "HOL-Library.Multiset"
begin

text \<open>
  The dispatch latency histogram of \<^verbatim>\<open>crates/cm108-server/src/latency.rs\<close>:
  64 power-of-two buckets with \<open>u64\<close> counters. Additions and multiplications are
  those of the build profile, so a counter overflow is a panic in the debug
  profile and a wrap-around in the release profile. The abstraction \<open>hist_abs\<close>
  relates a histogram to the list of recorded samples; the reported statistics
  are proved against that list.
\<close>

section \<open>Histogram\<close>

record LatencyHistogram =
  buckets :: "u64 list"
  total :: u64
  h_min_us :: u32
  h_max_us :: u32

definition hist_new :: LatencyHistogram where
  "hist_new = \<lparr>buckets = replicate 64 0, total = 0, h_min_us = 0xFFFFFFFF, h_max_us = 0\<rparr>"

text \<open>\<open>u32::checked_ilog2\<close> of the standard library.\<close>

fun ilog2 :: "nat \<Rightarrow> nat" where
  "ilog2 n = (if n < 2 then 0 else Suc (ilog2 (n div 2)))"

declare ilog2.simps [simp del]

definition checked_ilog2 :: "u32 \<Rightarrow> nat option" where
  "checked_ilog2 us = (if us = 0 then None else Some (ilog2 (unat us)))"

definition hist_record :: "profile \<Rightarrow> LatencyHistogram \<Rightarrow> u32 \<Rightarrow> LatencyHistogram outcome" where
  "hist_record p h us =
     (let k = (case checked_ilog2 us of None \<Rightarrow> 0 | Some n \<Rightarrow> n); i = min k 63 in
      obind (add_p p (buckets h ! i) 1) (\<lambda>b.
      obind (add_p p (total h) 1) (\<lambda>t.
      Returns \<lparr>buckets = (buckets h)[i := b], total = t,
        h_min_us = (if us < h_min_us h then us else h_min_us h),
        h_max_us = (if us > h_max_us h then us else h_max_us h)\<rparr>)))"

text \<open>\<open>1u32.checked_shl(n).unwrap_or(u32::MAX)\<close>: the upper bound of a bucket.\<close>

definition bucket_bound :: "nat \<Rightarrow> u32" where
  "bucket_bound n = (if n < 32 then push_bit n 1 else 0xFFFFFFFF)"

fun p99_scan :: "profile \<Rightarrow> u64 \<Rightarrow> u32 \<Rightarrow> u64 \<Rightarrow> nat \<Rightarrow> u64 list \<Rightarrow> u32 outcome" where
  "p99_scan p threshold mx cumulative i [] = Returns mx"
| "p99_scan p threshold mx cumulative i (cnt # cs) =
     obind (add_p p cumulative cnt) (\<lambda>c.
       if c \<ge> threshold then Returns (bucket_bound (i + 1))
       else p99_scan p threshold mx c (Suc i) cs)"

definition hist_p99_us :: "profile \<Rightarrow> LatencyHistogram \<Rightarrow> u32 outcome" where
  "hist_p99_us p h =
     (if total h = 0 then Returns 0
      else obind (mul_p p (total h) 99) (\<lambda>m.
           obind (add_p p m 99) (\<lambda>a.
           p99_scan p (a div 100) (h_max_us h) 0 0 (buckets h))))"

definition to_stats :: "profile \<Rightarrow> LatencyHistogram \<Rightarrow> LatencyStats outcome" where
  "to_stats p h =
     obind (hist_p99_us p h) (\<lambda>p99.
     Returns \<lparr>min_us = (if total h = 0 then 0 else h_min_us h),
              max_us = (if total h = 0 then 0 else h_max_us h),
              p99_us = p99\<rparr>)"

definition hist_reset :: "LatencyHistogram \<Rightarrow> LatencyHistogram" where
  "hist_reset h = hist_new"

section \<open>Abstraction to the recorded samples\<close>

definition bucket_of :: "u32 \<Rightarrow> nat" where
  "bucket_of us = ilog2 (unat us)"

definition count_upto :: "u32 list \<Rightarrow> nat \<Rightarrow> nat" where
  "count_upto xs k = length (filter (\<lambda>x. bucket_of x < k) xs)"

definition hist_abs :: "LatencyHistogram \<Rightarrow> u32 list \<Rightarrow> bool" where
  "hist_abs h xs \<longleftrightarrow>
     length (buckets h) = 64 \<and>
     (\<forall>k<64. unat (buckets h ! k) = length (filter (\<lambda>x. bucket_of x = k) xs)) \<and>
     unat (total h) = length xs \<and>
     h_min_us h = (if xs = [] then 0xFFFFFFFF else Min (set xs)) \<and>
     h_max_us h = (if xs = [] then 0 else Max (set xs))"

text \<open>The reference: sort the samples and look the values up. The percentile is the value
  of rank \<open>\<lceil>0.99 n\<rceil>\<close>, reported as the next power of two above it (at least 2, and the
  largest 32-bit number from $2^{31}$ on).\<close>

definition rank99 :: "u32 list \<Rightarrow> u32" where
  "rank99 xs = sort xs ! ((length xs * 99 + 99) div 100 - 1)"

definition reference_stats :: "u32 list \<Rightarrow> LatencyStats" where
  "reference_stats xs =
     \<lparr>min_us = hd (sort xs), max_us = last (sort xs),
      p99_us = (let v = unat (rank99 xs) in
        if 2 ^ 31 \<le> v then 0xFFFFFFFF else of_nat (2 ^ Suc (ilog2 v)))\<rparr>"

section \<open>Bucket arithmetic\<close>

lemma ilog2_less_iff: "ilog2 n < Suc k \<longleftrightarrow> n < 2 ^ Suc k"
proof (induction n arbitrary: k rule: ilog2.induct)
  case (1 n)
  show ?case
  proof (cases "n < 2")
    case True
    then have "n < 2 ^ Suc k" by (rule less_le_trans) simp
    with True show ?thesis by (simp add: ilog2.simps [of n])
  next
    case False
    show ?thesis
    proof (cases k)
      case 0
      with False show ?thesis by (simp add: ilog2.simps [of n])
    next
      case (Suc j)
      with False 1 [of j] show ?thesis
        by (simp add: ilog2.simps [of n] div_less_iff_less_mult mult.commute)
    qed
  qed
qed

lemma bucket_less_iff: "bucket_of x < Suc k \<longleftrightarrow> unat x < 2 ^ Suc k"
  by (simp add: bucket_of_def ilog2_less_iff)

lemma bucket_bounded: "bucket_of x < 32"
proof -
  have "unat x < 2 ^ 32" using unsigned_less [of x, where 'a = nat] by simp
  then show ?thesis using bucket_less_iff [of x 31] by simp
qed

lemma record_index: "min (case checked_ilog2 us of None \<Rightarrow> 0 | Some n \<Rightarrow> n) 63 = bucket_of us"
  using bucket_bounded [of us]
  by (auto simp: checked_ilog2_def bucket_of_def ilog2.simps [of 0])

lemma count_upto_Suc:
  "count_upto xs (Suc k) = count_upto xs k + length (filter (\<lambda>x. bucket_of x = k) xs)"
  by (induction xs) (auto simp: count_upto_def less_Suc_eq)

lemma count_upto_0 [simp]: "count_upto xs 0 = 0"
  by (simp add: count_upto_def)

lemma count_upto_le: "count_upto xs k \<le> length xs"
  by (simp add: count_upto_def)

lemma count_upto_all: "32 \<le> k \<Longrightarrow> count_upto xs k = length xs"
  by (simp add: count_upto_def filter_True less_le_trans [OF bucket_bounded])

lemma threshold_iff: "(n * 99 + 99) div 100 \<le> c \<longleftrightarrow> 99 * n \<le> 100 * (c :: nat)"
  by arith

lemma if_less_min: "(if a < b then a else b) = min a (b :: 'a::linorder)"
  by (auto simp: min_def)

lemma if_less_max: "(if b < a then a else b) = max a (b :: 'a::linorder)"
  by (auto simp: max_def)

section \<open>Refinement\<close>

lemma hist_abs_new: "hist_abs hist_new []"
  by (simp add: hist_abs_def hist_new_def)

lemma hist_abs_record:
  assumes "hist_abs h xs" "length xs + 1 < 2 ^ 64"
  shows "\<exists>h'. hist_record p h us = Returns h' \<and> hist_abs h' (us # xs)"
proof -
  let ?i = "bucket_of us"
  have i: "?i < 64" using bucket_bounded [of us] by simp
  have b: "unat (buckets h ! ?i) = length (filter (\<lambda>x. bucket_of x = ?i) xs)"
    and t: "unat (total h) = length xs"
    using assms(1) i by (simp_all add: hist_abs_def)
  have lb: "unat (buckets h ! ?i) + unat (1 :: u64) < 2 ^ LENGTH(64)"
    using b assms(2) le_less_trans [OF length_filter_le [of "\<lambda>x. bucket_of x = ?i" xs], of "2 ^ 64 - 1"]
    by simp
  have lt: "unat (total h) + unat (1 :: u64) < 2 ^ LENGTH(64)"
    using t assms(2) by simp
  have mn: "(if us < h_min_us h then us else h_min_us h) = Min (set (us # xs))"
  proof (cases "xs = []")
    case True
    have "us \<le> 0xFFFFFFFF" using unsigned_less [of us, where 'a = nat] by (simp add: word_le_nat_alt)
    with True assms(1) show ?thesis by (auto simp: hist_abs_def)
  next
    case False
    with assms(1) have "h_min_us h = Min (set xs)" by (simp add: hist_abs_def)
    with False show ?thesis by (simp only: if_less_min) simp
  qed
  have mx: "(if us > h_max_us h then us else h_max_us h) = Max (set (us # xs))"
  proof (cases "xs = []")
    case False
    with assms(1) have "h_max_us h = Max (set xs)" by (simp add: hist_abs_def)
    with False show ?thesis by (simp only: if_less_max) simp
  qed (use assms(1) in \<open>auto simp: hist_abs_def word_gt_0\<close>)
  show ?thesis
    using assms(1) i b t mn mx add_p_small [OF lb] add_p_small [OF lt]
    by (simp add: hist_record_def record_index Let_def hist_abs_def nth_list_update)
qed

lemma hist_abs_records:
  "length xs < 2 ^ 64 \<Longrightarrow> \<exists>h. ofold (hist_record p) hist_new xs = Returns h \<and> hist_abs h (rev xs)"
proof (induction xs rule: rev_induct)
  case Nil
  then show ?case by (simp add: hist_abs_new)
next
  case (snoc x xs)
  then obtain h where "ofold (hist_record p) hist_new xs = Returns h" "hist_abs h (rev xs)" by auto
  moreover obtain h' where "hist_record p h x = Returns h'" "hist_abs h' (x # rev xs)"
    using hist_abs_record [OF \<open>hist_abs h (rev xs)\<close>, of p x] snoc.prems by auto
  ultimately show ?case by (simp add: ofold_append)
qed

section \<open>The percentile\<close>

lemma p99_scan_finds:
  assumes "hist_abs h xs" "length xs < 2 ^ 64"
    and "unat thr = (length xs * 99 + 99) div 100"
    and "unat c = count_upto xs i" "100 * count_upto xs i < 99 * length xs"
  shows "\<exists>j. i \<le> j \<and> j < 32 \<and> p99_scan p thr mx c i (drop i (buckets h)) = Returns (bucket_bound (Suc j)) \<and>
    99 * length xs \<le> 100 * count_upto xs (Suc j) \<and> 100 * count_upto xs j < 99 * length xs"
  using assms(4,5)
proof (induction "64 - i" arbitrary: i c)
  case 0
  then show ?case using count_upto_all [of i xs] by simp
next
  case (Suc d)
  then have i: "i < 32" using count_upto_all [of i xs] by (cases "i < 32") simp_all
  let ?b = "buckets h ! i"
  have cs: "drop i (buckets h) = ?b # drop (Suc i) (buckets h)"
    using assms(1) i by (simp add: hist_abs_def Cons_nth_drop_Suc)
  have sum: "unat c + unat ?b = count_upto xs (Suc i)"
    using assms(1) i Suc.prems(1) by (simp add: hist_abs_def count_upto_Suc)
  then have lim: "unat c + unat ?b < 2 ^ LENGTH(64)"
    using count_upto_le [of xs "Suc i"] assms(2) by simp
  note add = add_p_small [OF lim]
  show ?case
  proof (cases "thr \<le> c + ?b")
    case True
    then have "99 * length xs \<le> 100 * count_upto xs (Suc i)"
      using add(2) sum assms(3) by (simp add: word_le_nat_alt threshold_iff)
    with True i Suc.prems(2) show ?thesis
      by (intro exI [of _ i]) (simp add: cs add(1))
  next
    case False
    then have "100 * count_upto xs (Suc i) < 99 * length xs"
      using add(2) sum assms(3) threshold_iff [of "length xs" "count_upto xs (Suc i)"]
      by (simp add: word_le_nat_alt)
    moreover have "d = 64 - Suc i" using Suc.hyps(2) by simp
    ultimately obtain j where "Suc i \<le> j" "j < 32"
      "p99_scan p thr mx (c + ?b) (Suc i) (drop (Suc i) (buckets h)) = Returns (bucket_bound (Suc j))"
      "99 * length xs \<le> 100 * count_upto xs (Suc j)" "100 * count_upto xs j < 99 * length xs"
      using Suc.hyps(1) [of "Suc i" "c + ?b"] add(2) sum by auto
    with False show ?thesis by (intro exI [of _ j]) (simp add: cs add(1))
  qed
qed

lemma threshold_word:
  assumes "unat (t :: u64) = n" "n * 99 + 99 < 2 ^ 64"
  shows "mul_p p t 99 = Returns (t * 99)" "add_p p (t * 99) 99 = Returns (t * 99 + 99)"
    "unat ((t * 99 + 99) div 100) = (n * 99 + 99) div 100"
proof -
  have m: "unat t * unat (99 :: u64) < 2 ^ LENGTH(64)" using assms by simp
  note mul = mul_p_small [OF m]
  have a: "unat (t * 99) + unat (99 :: u64) < 2 ^ LENGTH(64)" using mul(2) assms by simp
  note add = add_p_small [OF a]
  show "mul_p p t 99 = Returns (t * 99)" "add_p p (t * 99) 99 = Returns (t * 99 + 99)"
    using mul(1) add(1) by simp_all
  show "unat ((t * 99 + 99) div 100) = (n * 99 + 99) div 100"
    using mul(2) add(2) assms(1) by (simp add: unat_div_distrib)
qed

lemma bucket_bound_val:
  assumes "j < 32"
  shows "unat (bucket_bound (Suc j)) = (if j = 31 then 2 ^ 32 - 1 else 2 ^ Suc j)"
proof (cases "j = 31")
  case False
  with assms have "(2 :: nat) ^ Suc j < 2 ^ LENGTH(32)"
    by (intro power_strict_increasing) simp_all
  then have "unat (of_nat (2 ^ Suc j) :: u32) = 2 ^ Suc j" by (rule unat_of_nat_small)
  with assms False show ?thesis by (simp add: bucket_bound_def)
qed (simp add: bucket_bound_def)

lemma bucket_bound_covers: "j < 32 \<Longrightarrow> bucket_of x < Suc j \<Longrightarrow> x \<le> bucket_bound (Suc j)"
  using unsigned_less [of x, where 'a = nat]
  by (auto simp: bucket_less_iff word_le_nat_alt bucket_bound_val)

text \<open>What the statistics promise of a list of samples: the exact extremes, and a
  percentile bound that covers 99 percent of the samples while less than 99
  percent lie below half of it.\<close>

definition stats_of :: "u32 list \<Rightarrow> LatencyStats \<Rightarrow> bool" where
  "stats_of xs st \<longleftrightarrow>
     min_us st = Min (set xs) \<and> max_us st = Max (set xs) \<and>
     99 * length xs \<le> 100 * length (filter (\<lambda>x. x \<le> p99_us st) xs) \<and>
     (2 < p99_us st \<longrightarrow>
        100 * length (filter (\<lambda>x. 2 * unat x < unat (p99_us st)) xs) < 99 * length xs)"

lemma sorted_nth_filter:
  assumes "sorted ys" "i < length ys" "\<And>x y. x \<le> y \<Longrightarrow> P y \<Longrightarrow> P x"
  shows "P (ys ! i) \<longleftrightarrow> i < length (filter P ys)"
  using assms
proof (induction ys arbitrary: i)
  case (Cons y ys)
  show ?case
  proof (cases "P y")
    case True
    with Cons show ?thesis by (cases i) auto
  next
    case False
    have "\<not> P z" if "z \<in> set ys" for z using Cons.prems False that by auto
    then have "filter P ys = []" by (simp add: filter_empty_conv)
    with False Cons.prems \<open>\<And>z. z \<in> set ys \<Longrightarrow> \<not> P z\<close> show ?thesis by (cases i) auto
  qed
qed simp

lemma bucket_mono: "x \<le> y \<Longrightarrow> bucket_of y < k \<Longrightarrow> bucket_of x < k"
  by (cases k) (auto simp: bucket_less_iff word_le_nat_alt)

lemma bucket_rank99:
  assumes "xs \<noteq> []" "99 * length xs \<le> 100 * count_upto xs (Suc j)" "100 * count_upto xs j < 99 * length xs"
  shows "bucket_of (rank99 xs) = j"
proof -
  let ?i = "(length xs * 99 + 99) div 100 - 1"
  have i: "?i < length (sort xs)" "?i < count_upto xs (Suc j)" "\<not> ?i < count_upto xs j"
    using assms by (auto simp: Suc_le_eq length_greater_0_conv [symmetric] simp del: length_greater_0_conv)
  have "bucket_of (rank99 xs) < k \<longleftrightarrow> ?i < count_upto xs k" for k
  proof -
    have "length (filter (\<lambda>x. bucket_of x < k) (sort xs)) = count_upto xs k"
      by (simp add: count_upto_def filter_sort)
    with sorted_nth_filter [OF sorted_sort i(1), of "\<lambda>x. bucket_of x < k"] bucket_mono
    show ?thesis by (simp add: rank99_def)
  qed
  with i(2,3) show ?thesis by (meson less_Suc_eq)
qed

lemma bucket_bound_rank:
  "bucket_bound (Suc (bucket_of v)) =
     (if 2 ^ 31 \<le> unat v then 0xFFFFFFFF else of_nat (2 ^ Suc (ilog2 (unat v))))"
proof -
  have "bucket_of v = 31 \<longleftrightarrow> 2 ^ 31 \<le> unat v"
    using bucket_less_iff [of v 30] bucket_bounded [of v] by auto
  then show ?thesis using bucket_bounded [of v]
    by (auto simp: bucket_bound_def bucket_of_def push_bit_eq_mult)
qed

lemma sorted_ends:
  assumes "sorted ys" "ys \<noteq> []"
  shows "hd ys = Min (set ys)" "last ys = Max (set ys)"
proof -
  have "hd ys \<le> y" "y \<le> last ys" if "y \<in> set ys" for y
    using that assms by (auto simp: in_set_conv_nth hd_conv_nth last_conv_nth sorted_iff_nth_mono)
  with assms(2) show "hd ys = Min (set ys)" "last ys = Max (set ys)"
    by (auto intro!: Min_eqI [symmetric] Max_eqI [symmetric])
qed

text \<open>The statistics name the bucket in which the cumulative count passes 99 percent.\<close>

lemma to_stats_bucket:
  assumes "hist_abs h xs" "xs \<noteq> []" "length xs * 99 + 99 < 2 ^ 64"
  shows "\<exists>j<32. to_stats p h =
      Returns \<lparr>min_us = Min (set xs), max_us = Max (set xs), p99_us = bucket_bound (Suc j)\<rparr> \<and>
    99 * length xs \<le> 100 * count_upto xs (Suc j) \<and> 100 * count_upto xs j < 99 * length xs"
proof -
  have n: "unat (total h) = length xs" and t0: "total h \<noteq> 0"
    using assms(1,2) by (auto simp: hist_abs_def)
  note th = threshold_word [OF n assms(3)]
  have z: "unat (0 :: u64) = count_upto xs 0" "100 * count_upto xs 0 < 99 * length xs"
    using assms(2) by simp_all
  obtain j where "j < 32"
    "p99_scan p ((total h * 99 + 99) div 100) (h_max_us h) 0 0 (drop 0 (buckets h)) =
       Returns (bucket_bound (Suc j))"
    "99 * length xs \<le> 100 * count_upto xs (Suc j)" "100 * count_upto xs j < 99 * length xs"
    using p99_scan_finds [OF assms(1) _ th(3) z] assms(3) by auto
  with t0 th(1,2) assms(1,2) show ?thesis
    by (auto simp: to_stats_def hist_p99_us_def hist_abs_def)
qed

lemma bucket_percentile:
  assumes "j < 32" "99 * length xs \<le> 100 * count_upto xs (Suc j)" "100 * count_upto xs j < 99 * length xs"
  shows "99 * length xs \<le> 100 * length (filter (\<lambda>x. x \<le> bucket_bound (Suc j)) xs)"
    and "2 < bucket_bound (Suc j) \<Longrightarrow>
      100 * length (filter (\<lambda>x. 2 * unat x < unat (bucket_bound (Suc j))) xs) < 99 * length xs"
proof -
  let ?v = "bucket_bound (Suc j)"
  have "count_upto xs (Suc j) \<le> length (filter (\<lambda>x. x \<le> ?v) xs)"
    using bucket_bound_covers [OF assms(1)] unfolding count_upto_def
    by (intro length_filter_mono) auto
  with assms(2) show "99 * length xs \<le> 100 * length (filter (\<lambda>x. x \<le> ?v) xs)" by simp
  have "length (filter (\<lambda>x. 2 * unat x < unat ?v) xs) \<le> count_upto xs j" if "2 < ?v"
  proof -
    have "0 < j" using that assms(1) bucket_bound_val [OF assms(1)] by (cases j) (auto simp: word_less_nat_alt)
    then obtain k where "j = Suc k" by (cases j) auto
    then show ?thesis unfolding count_upto_def
      using bucket_bound_val [OF assms(1)]
      by (intro length_filter_mono) (auto simp: bucket_less_iff split: if_splits)
  qed
  with assms(3) show "100 * length (filter (\<lambda>x. 2 * unat x < unat ?v) xs) < 99 * length xs" if "2 < ?v"
    using that by fastforce
qed

lemma to_stats_correct:
  assumes "hist_abs h xs" "xs \<noteq> []" "length xs * 99 + 99 < 2 ^ 64"
  shows "\<exists>st. to_stats p h = Returns st \<and> stats_of xs st"
  using to_stats_bucket [OF assms, of p] bucket_percentile by (auto simp: stats_of_def)

lemma to_stats_reference:
  assumes "hist_abs h xs" "xs \<noteq> []" "length xs * 99 + 99 < 2 ^ 64"
  shows "to_stats p h = Returns (reference_stats xs)"
proof -
  obtain j where j: "j < 32" "to_stats p h =
      Returns \<lparr>min_us = Min (set xs), max_us = Max (set xs), p99_us = bucket_bound (Suc j)\<rparr>"
    "99 * length xs \<le> 100 * count_upto xs (Suc j)" "100 * count_upto xs j < 99 * length xs"
    using to_stats_bucket [OF assms] by blast
  have "bucket_of (rank99 xs) = j" using bucket_rank99 [OF assms(2) j(3,4)] .
  moreover have "sort xs \<noteq> []" using assms(2) by (metis length_0_conv length_sort)
  then have "hd (sort xs) = Min (set xs)" "last (sort xs) = Max (set xs)"
    using sorted_ends [of "sort xs"] by simp_all
  ultimately show ?thesis using j(2) bucket_bound_rank [of "rank99 xs"]
    by (simp add: reference_stats_def Let_def)
qed

lemma stats_of_rev: "stats_of (rev xs) st = stats_of xs st"
  by (simp add: stats_of_def flip: rev_filter)

lemma reference_stats_rev: "reference_stats (rev xs) = reference_stats xs"
proof -
  have "sort (rev xs) = sort xs" by (rule properties_for_sort) simp_all
  then show ?thesis by (simp add: reference_stats_def rank99_def)
qed

section \<open>Properties\<close>

text \<open>Recording any non-empty sequence of up to \<open>2^56\<close> latencies and taking the
  statistics never panics and never wraps, in either build profile. The reported
  minimum and maximum are exact; at least 99 percent of the samples are at most
  the reported 99th percentile, and (above the first bucket) fewer than 99
  percent are below half of it, so it is the true percentile up to a factor of
  two.\<close>

lemma latency_stats_correct:
  assumes "xs \<noteq> []" and "length xs \<le> 2 ^ 56"
  shows "\<exists>h st. ofold (hist_record p) hist_new xs = Returns h \<and> to_stats p h = Returns st \<and>
    min_us st = Min (set xs) \<and> max_us st = Max (set xs) \<and>
    99 * length xs \<le> 100 * length (filter (\<lambda>x. x \<le> p99_us st) xs) \<and>
    (2 < p99_us st \<longrightarrow>
       100 * length (filter (\<lambda>x. 2 * unat x < unat (p99_us st)) xs) < 99 * length xs)"
proof -
  obtain h where h: "ofold (hist_record p) hist_new xs = Returns h" "hist_abs h (rev xs)"
    using hist_abs_records [of xs p] assms(2) by auto
  moreover obtain st where "to_stats p h = Returns st" "stats_of xs st"
    using to_stats_correct [OF h(2), of p] assms by (auto simp: stats_of_rev)
  ultimately show ?thesis by (auto simp: stats_of_def)
qed

lemma stats_of_records:
  assumes "xs \<noteq> []" and "length xs \<le> 2 ^ 56"
  shows "obind (ofold (hist_record p) hist_new xs) (to_stats p) = Returns (reference_stats xs)"
proof -
  obtain h where "ofold (hist_record p) hist_new xs = Returns h" "hist_abs h (rev xs)"
    using hist_abs_records [of xs p] assms(2) by auto
  with to_stats_reference [of h "rev xs" p] assms show ?thesis by (simp add: reference_stats_rev)
qed

text \<open>C15: The histogram computes what sorting would. For any non-empty list of up to
  \<open>2^56\<close> samples the statistics are exactly those of the reference: smallest and largest
  element of the sorted list and the power-of-two bound above its element of rank
  \<open>\<lceil>0.99 n\<rceil>\<close>; the order in which the samples were recorded does not matter.\<close>

theorem latency_stats_reference:
  assumes "xs \<noteq> []" and "length xs \<le> 2 ^ 56"
  shows "obind (ofold (hist_record p) hist_new xs) (to_stats p) = Returns (reference_stats xs)"
  by (rule stats_of_records [OF assms])

theorem latency_stats_reference_witness:
  "obind (ofold (hist_record Debug) hist_new [3, 17, 0]) (to_stats Debug) =
     Returns \<lparr>min_us = 0, max_us = 17, p99_us = 32\<rparr>"
  using latency_stats_reference [of "[3, 17, 0]" Debug]
  by (simp add: reference_stats_def rank99_def ilog2.simps)

text \<open>The histogram is a correct data representation of the samples recorded so
  far: every bucket counts the samples of its power-of-two range, and the total
  and the extremes are those of the samples; recording one more keeps this,
  without a panic, as long as the sample count fits the 64-bit total.\<close>

lemma histogram_refines_samples:
  assumes "length xs < 2 ^ 64"
  shows "\<exists>h. ofold (hist_record p) hist_new xs = Returns h \<and> length (buckets h) = 64 \<and>
    unat (total h) = length xs \<and>
    (\<forall>k<64. unat (buckets h ! k) =
       length (filter (\<lambda>x. if k = 0 then unat x < 2 else 2 ^ k \<le> unat x \<and> unat x < 2 ^ Suc k) xs))"
proof -
  obtain h where h: "ofold (hist_record p) hist_new xs = Returns h" "hist_abs h (rev xs)"
    using hist_abs_records [OF assms] by blast
  have "bucket_of x = k \<longleftrightarrow> (if k = 0 then unat x < 2 else 2 ^ k \<le> unat x \<and> unat x < 2 ^ Suc k)" for x k
    using bucket_less_iff [of x k] bucket_less_iff [of x "k - 1"]
    by (cases k) (auto simp: less_Suc_eq)
  with h show ?thesis by (auto simp: hist_abs_def simp flip: rev_filter)
qed

end
