(* ===== verification/Cm108_Shmem.thy ===== *)
theory Cm108_Shmem
  imports Cm108_Codec
begin

text \<open>
  The shared-memory audio path: \<open>AudioShmem\<close> of \<^verbatim>\<open>crates/cm108-server/src/shmem.rs\<close>
  (one writer, the dispatch thread) and \<open>RxShmem\<close> of
  \<^verbatim>\<open>crates/cm108-client/src/client.rs\<close> (readers in other processes). The region is
  its 4096 bytes: an atomic 64-bit counter in bytes 0 to 7, the frame in bytes 8
  to 199. First the two operations run alone, then as interleaved steps, where
  the frame is copied byte by byte in any order, by the writer and by the reader.
  Every step reads and writes one shared memory in program order (a sequentially
  consistent memory); reordering of the copies across the counter accesses, which
  the orderings named in the sources leave to the hardware, is outside this model.
\<close>

section \<open>The region\<close>

definition SHMEM_SIZE :: nat where "SHMEM_SIZE = 4096"

definition seq_load :: "bytes \<Rightarrow> u64" where
  "seq_load r = of_le_bytes (take 8 r)"

definition seq_store :: "u64 \<Rightarrow> bytes \<Rightarrow> bytes" where
  "seq_store v r = le_bytes 8 v @ drop 8 r"

text \<open>The memory image of \<open>[i16; 96]\<close> on the little-endian targets, and back.\<close>

definition frame_mem :: "AudioFrame \<Rightarrow> bytes" where
  "frame_mem f = concat (map (le_bytes 2) (samples f))"

definition mem_frame :: "bytes \<Rightarrow> AudioFrame" where
  "mem_frame bs = AudioFrame (map (\<lambda>i. of_le_bytes [bs ! (i * 2), bs ! (i * 2 + 1)])
     [0..<SAMPLES_PER_FRAME * 2])"

definition data_bytes :: "bytes \<Rightarrow> bytes" where
  "data_bytes r = take FRAME_BYTES (drop 8 r)"

definition copy_in :: "AudioFrame \<Rightarrow> bytes \<Rightarrow> bytes" where
  "copy_in f r = take 8 r @ take FRAME_BYTES (frame_mem f) @ drop (8 + FRAME_BYTES) r"

section \<open>The operations run alone\<close>

definition shm_write :: "bytes \<Rightarrow> AudioFrame \<Rightarrow> u64 \<times> bytes" where
  "shm_write r f =
     (let cur = seq_load r;
          r1 = seq_store (cur + 1) r;
          r2 = copy_in f r1;
          new = cur + 2;
          r3 = seq_store new r2
      in (new, r3))"

text \<open>One pass of the reader's loop over an unchanging region: \<open>None\<close> is another
  round of the loop.\<close>

definition read_frame_pass :: "bytes \<Rightarrow> AudioFrame option" where
  "read_frame_pass r =
     (let s1 = seq_load r in
      if s1 mod 2 \<noteq> 0 then None
      else let frame = mem_frame (data_bytes r) in
        if seq_load r = s1 then Some frame else None)"

definition current_seq :: "bytes \<Rightarrow> u64" where
  "current_seq r = seq_load r"

section \<open>Interleaved execution\<close>

datatype writer =
    WIdle
  | WLoaded AudioFrame u64
  | WCopying AudioFrame u64 "nat list"

datatype reader =
    RIdle
  | RHead
  | RCopying u64 bytes "nat list" nat
  | RReturned AudioFrame nat nat

text \<open>Ghost state: \<open>ticks\<close> counts the stores to the counter, \<open>published\<close> lists the
  frames whose write is complete, \<open>r_start\<close> is how many were published when the
  reader was called. A reader that copies remembers the tick of its first load,
  one that has returned also the tick of its second.\<close>

record seqlock =
  mem :: bytes
  wst :: writer
  rst :: reader
  ticks :: nat
  published :: "AudioFrame list"
  r_start :: nat

definition seqlock_init :: seqlock where
  "seqlock_init = \<lparr>mem = replicate SHMEM_SIZE 0, wst = WIdle, rst = RIdle, ticks = 0,
     published = [], r_start = 0\<rparr>"

datatype wevent = WCall AudioFrame | WOdd | WByte nat | WEven

fun writer_step :: "wevent \<Rightarrow> seqlock \<Rightarrow> seqlock option" where
  "writer_step (WCall f) s =
     (case wst s of
        WIdle \<Rightarrow> if frame_ok f then Some (s\<lparr>wst := WLoaded f (seq_load (mem s))\<rparr>) else None
      | _ \<Rightarrow> None)"
| "writer_step WOdd s =
     (case wst s of
        WLoaded f cur \<Rightarrow>
          Some (s\<lparr>wst := WCopying f cur [0..<FRAME_BYTES],
                  mem := seq_store (cur + 1) (mem s), ticks := Suc (ticks s)\<rparr>)
      | _ \<Rightarrow> None)"
| "writer_step (WByte i) s =
     (case wst s of
        WCopying f cur todo \<Rightarrow>
          if i \<in> set todo
          then Some (s\<lparr>wst := WCopying f cur (removeAll i todo),
                       mem := (mem s)[8 + i := frame_mem f ! i]\<rparr>)
          else None
      | _ \<Rightarrow> None)"
| "writer_step WEven s =
     (case wst s of
        WCopying f cur [] \<Rightarrow>
          Some (s\<lparr>wst := WIdle, mem := seq_store (cur + 2) (mem s), ticks := Suc (ticks s),
                  published := published s @ [f]\<rparr>)
      | _ \<Rightarrow> None)"

datatype revent = RCall | RLoad | RByte nat | RCheck

fun reader_step :: "revent \<Rightarrow> seqlock \<Rightarrow> seqlock option" where
  "reader_step RCall s =
     (case rst s of
        RCopying _ _ _ _ \<Rightarrow> None
      | RHead \<Rightarrow> None
      | _ \<Rightarrow> Some (s\<lparr>rst := RHead, r_start := length (published s)\<rparr>))"
| "reader_step RLoad s =
     (case rst s of
        RHead \<Rightarrow>
          let s1 = seq_load (mem s) in
          if s1 mod 2 \<noteq> 0 then Some s
          else Some (s\<lparr>rst := RCopying s1 (replicate FRAME_BYTES 0) [0..<FRAME_BYTES] (ticks s)\<rparr>)
      | _ \<Rightarrow> None)"
| "reader_step (RByte i) s =
     (case rst s of
        RCopying s1 buf todo t \<Rightarrow>
          if i \<in> set todo
          then Some (s\<lparr>rst := RCopying s1 (buf[i := mem s ! (8 + i)]) (removeAll i todo) t\<rparr>)
          else None
      | _ \<Rightarrow> None)"
| "reader_step RCheck s =
     (case rst s of
        RCopying s1 buf [] t \<Rightarrow>
          if seq_load (mem s) = s1 then Some (s\<lparr>rst := RReturned (mem_frame buf) t (ticks s)\<rparr>)
          else Some (s\<lparr>rst := RHead\<rparr>)
      | _ \<Rightarrow> None)"

datatype sl_event = W wevent | R revent

fun sl_step :: "sl_event \<Rightarrow> seqlock \<Rightarrow> seqlock option" where
  "sl_step (W e) s = writer_step e s"
| "sl_step (R e) s = reader_step e s"

fun sl_run :: "sl_event list \<Rightarrow> seqlock \<Rightarrow> seqlock option" where
  "sl_run [] s = Some s"
| "sl_run (e # es) s = sl_step e s \<bind> sl_run es"

inductive sl_reach :: "seqlock \<Rightarrow> bool" where
  sl_start: "sl_reach seqlock_init"
| sl_next: "sl_reach s \<Longrightarrow> sl_step e s = Some t \<Longrightarrow> sl_reach t"

text \<open>The frame a reader should see: the last one published, silence before any.\<close>

abbreviation frame_at :: "seqlock \<Rightarrow> nat \<Rightarrow> AudioFrame" where
  "frame_at s k \<equiv> (AudioFrame_default # published s) ! k"

abbreviation latest :: "seqlock \<Rightarrow> AudioFrame" where
  "latest s \<equiv> last (AudioFrame_default # published s)"

section \<open>Layout lemmas\<close>

lemma frame_mem_encode: "frame_mem f = encode_AudioFrame f []"
  by (simp add: frame_mem_def encode_AudioFrame_append sample_bytes_le cong: map_cong)

lemma length_frame_mem [layout]: "length (frame_mem f) = 2 * length (samples f)"
  by (simp add: frame_mem_encode length_encode_AudioFrame)

lemma mem_frame_frame_mem:
  assumes "frame_ok f"
  shows "mem_frame (frame_mem f) = f"
  using decode_encode_AudioFrame [OF assms, of "[]"] assms
  by (simp add: frame_mem_encode decode_AudioFrame_def mem_frame_def layout length_encode_AudioFrame)

lemma frame_mem_default: "frame_mem AudioFrame_default = replicate 192 0"
  by (simp add: frame_mem_def AudioFrame_default_def layout numeral_2_eq_2 concat_replicate_trivial
      flip: replicate_append_same) (simp add: numeral_eq_Suc)

lemma seq_load_store [simp]: "seq_load (seq_store v r) = v"
  by (simp add: seq_load_def seq_store_def)

lemma seq_store_frame [simp]:
  "8 \<le> length r \<Longrightarrow> length (seq_store v r) = length r"
  "drop 8 (seq_store v r) = drop 8 r"
  "8 \<le> length r \<Longrightarrow> seq_store v r ! (8 + i) = r ! (8 + i)"
  by (simp_all add: seq_store_def nth_append)

lemma seq_load_update [simp]: "seq_load (r[8 + i := b]) = seq_load r"
  by (simp add: seq_load_def)

lemma of_le_bytes_replicate_0: "of_le_bytes (replicate n 0) = 0"
  by (induction n) simp_all

lemma even_of_nat_word:
  "(of_nat n :: u64) mod 2 = 1 \<longleftrightarrow> odd n" "(of_nat n :: u64) mod 2 = 0 \<longleftrightarrow> even n"
proof -
  have "unat ((of_nat n :: u64) mod 2) = n mod 2 ^ 64 mod 2"
    by (simp add: unat_mod_distrib unat_of_nat)
  also have "\<dots> = n mod 2" by (simp add: mod_mod_cancel)
  finally show "(of_nat n :: u64) mod 2 = 1 \<longleftrightarrow> odd n" "(of_nat n :: u64) mod 2 = 0 \<longleftrightarrow> even n"
    by (auto simp: odd_iff_mod_2_eq_one word_unat_eq_iff)
qed

section \<open>Invariant of the interleaved system\<close>

text \<open>The region holds a frame where the bytes still to be copied are excepted.\<close>

definition holds :: "(nat \<Rightarrow> u8) \<Rightarrow> AudioFrame \<Rightarrow> nat list \<Rightarrow> bool" where
  "holds at f todo \<longleftrightarrow> (\<forall>i<192. i \<notin> set todo \<longrightarrow> at i = frame_mem f ! i)"

abbreviation cell :: "seqlock \<Rightarrow> nat \<Rightarrow> u8" where
  "cell s i \<equiv> mem s ! (8 + i)"

fun writer_inv :: "writer \<Rightarrow> nat \<Rightarrow> (nat \<Rightarrow> u8) \<Rightarrow> AudioFrame \<Rightarrow> bool" where
  "writer_inv WIdle t at cur_frame = (even t \<and> holds at cur_frame [])"
| "writer_inv (WLoaded f cur) t at cur_frame =
     (even t \<and> holds at cur_frame [] \<and> frame_ok f \<and> cur = of_nat t)"
| "writer_inv (WCopying f cur todo) t at cur_frame =
     (odd t \<and> holds at f todo \<and> frame_ok f \<and> set todo \<subseteq> {..<192} \<and> cur + 1 = of_nat t)"

fun reader_inv :: "reader \<Rightarrow> nat \<Rightarrow> nat \<Rightarrow> AudioFrame list \<Rightarrow> bool" where
  "reader_inv RIdle t st pub = (st \<le> length pub)"
| "reader_inv RHead t st pub = (st \<le> length pub)"
| "reader_inv (RCopying s1 buf todo t0) t st pub =
     (s1 = of_nat t0 \<and> even t0 \<and> t0 \<le> t \<and> st \<le> t0 div 2 \<and> length buf = 192 \<and>
      set todo \<subseteq> {..<192} \<and> (t = t0 \<longrightarrow> holds ((!) buf) (last (AudioFrame_default # pub)) todo))"
| "reader_inv (RReturned f t0 t1) t st pub =
     (even t0 \<and> t0 \<le> t1 \<and> t1 \<le> t \<and> st \<le> t0 div 2 \<and>
      (t1 - t0 < 2 ^ 64 \<longrightarrow> t1 = t0 \<and> f = (AudioFrame_default # pub) ! (t0 div 2)))"

definition sl_inv :: "seqlock \<Rightarrow> bool" where
  "sl_inv s \<longleftrightarrow>
     length (mem s) = 4096 \<and> seq_load (mem s) = of_nat (ticks s) \<and>
     list_all frame_ok (published s) \<and> length (published s) = ticks s div 2 \<and>
     writer_inv (wst s) (ticks s) (cell s) (latest s) \<and>
     reader_inv (rst s) (ticks s) (r_start s) (published s)"

lemma frame_ok_latest: "list_all frame_ok (published s) \<Longrightarrow> frame_ok (latest s)"
  by (cases "published s" rule: rev_cases) auto

lemma latest_frame_at: "latest s = frame_at s (length (published s))"
  by (simp add: last_conv_nth)

lemma holds_complete:
  assumes "holds ((!) buf) f []" "length buf = 192" "frame_ok f"
  shows "mem_frame buf = f"
proof -
  have "buf = frame_mem f"
    using assms by (intro nth_equalityI) (auto simp: holds_def layout)
  with assms(3) show ?thesis by (simp add: mem_frame_frame_mem)
qed

lemma of_nat_eq_window:
  assumes "(of_nat a :: u64) = of_nat b" "b \<le> a" "a - b < 2 ^ 64"
  shows "a = b"
proof -
  from assms(1,2) have "(of_nat (a - b) :: u64) = 0" by (simp add: of_nat_diff)
  with assms(3) have "a - b = 0" using unat_of_nat_small [of "a - b", where 'a = 64] by simp
  with assms(2) show ?thesis by simp
qed

lemma reader_inv_tick: "reader_inv r t st pub \<Longrightarrow> reader_inv r (Suc t) st pub"
  by (cases r) auto

lemma reader_inv_publish:
  assumes "reader_inv r t st pub" "length pub = t div 2"
  shows "reader_inv r (Suc t) st (pub @ [f])"
proof (cases r)
  case (RReturned g t0 t1)
  with assms have "t0 div 2 \<le> length pub" by (auto intro: div_le_mono)
  with RReturned assms show ?thesis by (auto simp: nth_append nth_Cons split: nat.splits)
qed (use assms in auto)

lemma holds_cell_update:
  assumes "holds at f todo" "i < 192" "\<And>j. j < 192 \<Longrightarrow> j \<noteq> i \<Longrightarrow> at' j = at j" "at' i = frame_mem f ! i"
  shows "holds at' f (removeAll i todo)"
  unfolding holds_def
proof (intro allI impI)
  fix j assume "j < 192" "j \<notin> set (removeAll i todo)"
  with assms show "at' j = frame_mem f ! j" by (cases "j = i") (auto simp: holds_def)
qed

lemma sl_inv_init: "sl_inv seqlock_init"
  by (simp add: sl_inv_def seqlock_init_def SHMEM_SIZE_def holds_def frame_mem_default seq_load_def
      of_le_bytes_replicate_0)

lemma writer_step_inv:
  assumes inv: "sl_inv s" and step: "writer_step e s = Some t"
  shows "sl_inv t"
proof (cases e)
  case (WCall f)
  with step have w: "wst s = WIdle" "frame_ok f"
    and t: "t = s\<lparr>wst := WLoaded f (seq_load (mem s))\<rparr>"
    by (auto split: writer.splits if_splits)
  with inv show ?thesis by (auto simp: sl_inv_def)
next
  case WOdd
  with step obtain f cur where w: "wst s = WLoaded f cur"
    and t: "t = s\<lparr>wst := WCopying f cur [0..<FRAME_BYTES],
                  mem := seq_store (cur + 1) (mem s), ticks := Suc (ticks s)\<rparr>"
    by (auto split: writer.splits)
  from inv w have r: "reader_inv (rst s) (Suc (ticks s)) (r_start s) (published s)"
    by (auto simp: sl_inv_def intro: reader_inv_tick)
  have "length (published s) = Suc (ticks s) div 2" using inv w by (auto simp: sl_inv_def)
  with inv w r t show ?thesis
    by (auto simp: sl_inv_def holds_def layout add.commute)
next
  case (WByte i)
  with step obtain f cur todo where w: "wst s = WCopying f cur todo" and i: "i \<in> set todo"
    and t: "t = s\<lparr>wst := WCopying f cur (removeAll i todo), mem := (mem s)[8 + i := frame_mem f ! i]\<rparr>"
    by (auto split: writer.splits if_splits)
  from inv w i have "i < 192" "length (mem s) = 4096" "holds (cell s) f todo"
    by (auto simp: sl_inv_def)
  then have "holds (\<lambda>j. (mem s)[8 + i := frame_mem f ! i] ! (8 + j)) f (removeAll i todo)"
    by (intro holds_cell_update [of "cell s"]) simp_all
  with inv w t show ?thesis by (auto simp: sl_inv_def)
next
  case WEven
  with step obtain f cur where w: "wst s = WCopying f cur []"
    and t: "t = s\<lparr>wst := WIdle, mem := seq_store (cur + 2) (mem s), ticks := Suc (ticks s),
                  published := published s @ [f]\<rparr>"
    by (auto split: writer.splits list.splits)
  from inv have "reader_inv (rst s) (Suc (ticks s)) (r_start s) (published s @ [f])"
    by (auto simp: sl_inv_def intro: reader_inv_publish)
  moreover have "cur + 2 = 1 + of_nat (ticks s)"
    using inv w by (auto simp: sl_inv_def algebra_simps)
  moreover have "Suc (length (published s)) = Suc (ticks s) div 2"
    using inv w by (auto simp: sl_inv_def elim: oddE)
  ultimately show ?thesis using inv w t by (auto simp: sl_inv_def holds_def)
qed


lemma reader_step_inv:
  assumes inv: "sl_inv s" and step: "reader_step e s = Some t"
  shows "sl_inv t"
proof (cases e)
  case RCall
  with step have t: "t = s\<lparr>rst := RHead, r_start := length (published s)\<rparr>"
    by (auto split: reader.splits)
  with inv show ?thesis by (auto simp: sl_inv_def)
next
  case RLoad
  with step have r: "rst s = RHead" by (auto split: reader.splits)
  show ?thesis
  proof (cases "odd (ticks s)")
    case True
    with RLoad step r inv have "t = s" by (auto simp: sl_inv_def even_of_nat_word Let_def)
    with inv show ?thesis by simp
  next
    case False
    with RLoad step r inv have
      t: "t = s\<lparr>rst := RCopying (of_nat (ticks s)) (replicate FRAME_BYTES 0) [0..<FRAME_BYTES] (ticks s)\<rparr>"
      by (auto simp: sl_inv_def even_of_nat_word Let_def)
    with inv r False show ?thesis by (auto simp: sl_inv_def layout holds_def)
  qed
next
  case (RByte i)
  with step obtain s1 buf todo t0 where r: "rst s = RCopying s1 buf todo t0" and i: "i \<in> set todo"
    and t: "t = s\<lparr>rst := RCopying s1 (buf[i := cell s i]) (removeAll i todo) t0\<rparr>"
    by (auto split: reader.splits if_splits)
  have "holds ((!) (buf[i := cell s i])) (latest s) (removeAll i todo)" if "ticks s = t0"
  proof (rule holds_cell_update [of "(!) buf"])
    have "writer_inv (wst s) (ticks s) (cell s) (latest s)" "even (ticks s)"
      using inv r that by (auto simp: sl_inv_def)
    then have "holds (cell s) (latest s) []" by (cases "wst s") auto
    then show "buf[i := cell s i] ! i = frame_mem (latest s) ! i"
      using inv r i by (auto simp: sl_inv_def holds_def)
  qed (use inv r i that in \<open>auto simp: sl_inv_def\<close>)
  with inv r t show ?thesis by (auto simp: sl_inv_def)
next
  case RCheck
  with step obtain s1 buf t0 where r: "rst s = RCopying s1 buf [] t0"
    and t: "t = (if seq_load (mem s) = s1 then s\<lparr>rst := RReturned (mem_frame buf) t0 (ticks s)\<rparr>
                 else s\<lparr>rst := RHead\<rparr>)"
    by (auto split: reader.splits list.splits if_splits)
  from inv r have i: "s1 = of_nat t0" "even t0" "t0 \<le> ticks s" "r_start s \<le> t0 div 2" "length buf = 192"
    and h: "ticks s = t0 \<Longrightarrow> holds ((!) buf) (latest s) []"
    by (auto simp: sl_inv_def)
  have st: "r_start s \<le> length (published s)"
    using i inv div_le_mono [of t0 "ticks s" 2] by (simp add: sl_inv_def)
  have fr: "ticks s = t0 \<and> mem_frame buf = frame_at s (t0 div 2)"
    if "seq_load (mem s) = s1" "ticks s - t0 < 2 ^ 64"
  proof -
    have tt: "ticks s = t0"
      using inv i that by (intro of_nat_eq_window) (simp_all add: sl_inv_def)
    have ok: "frame_ok (latest s)" using inv unfolding sl_inv_def by (intro frame_ok_latest) blast
    have len: "length (published s) = t0 div 2" using inv tt by (simp add: sl_inv_def)
    have "mem_frame buf = latest s" by (rule holds_complete [OF h [OF tt] i(5) ok])
    also have "\<dots> = frame_at s (t0 div 2)" unfolding latest_frame_at len ..
    finally show ?thesis using tt by blast
  qed
  show ?thesis
  proof (cases "seq_load (mem s) = s1")
    case True
    with fr have "reader_inv (RReturned (mem_frame buf) t0 (ticks s)) (ticks s) (r_start s) (published s)"
      using i by simp
    moreover have "t = s\<lparr>rst := RReturned (mem_frame buf) t0 (ticks s)\<rparr>" using t True by simp
    ultimately show ?thesis using inv unfolding sl_inv_def by simp
  next
    case False
    with t have "t = s\<lparr>rst := RHead\<rparr>" by simp
    with inv st show ?thesis unfolding sl_inv_def by simp
  qed
qed

lemma sl_reach_inv: "sl_reach s \<Longrightarrow> sl_inv s"
proof (induction rule: sl_reach.induct)
  case sl_start
  show ?case by (rule sl_inv_init)
next
  case (sl_next s e t)
  then show ?case by (cases e) (auto intro: writer_step_inv reader_step_inv)
qed

lemma sl_run_reach: "sl_reach s \<Longrightarrow> sl_run es s = Some t \<Longrightarrow> sl_reach t"
  by (induction es arbitrary: s) (auto simp: bind_eq_Some_conv intro: sl_next)

lemma sl_run_append: "sl_run (es @ fs) s = sl_run es s \<bind> sl_run fs"
proof (induction es arbitrary: s)
  case (Cons e es)
  then show ?case by (cases "sl_step e s") simp_all
qed simp


section \<open>Runs of one party\<close>

lemma writer_bytes_run:
  assumes "wst s = WCopying f cur todo" "distinct is" "set is \<subseteq> set todo"
  shows "sl_run (map (\<lambda>i. W (WByte i)) is) s =
    Some (s\<lparr>wst := WCopying f cur (filter (\<lambda>i. i \<notin> set is) todo),
            mem := fold (\<lambda>i m. m[8 + i := frame_mem f ! i]) is (mem s)\<rparr>)"
  using assms
proof (induction "is" arbitrary: s todo)
  case Nil
  then show ?case by (cases s) simp
next
  case (Cons i "is")
  let ?s = "s\<lparr>wst := WCopying f cur (removeAll i todo), mem := (mem s)[8 + i := frame_mem f ! i]\<rparr>"
  have "filter (\<lambda>j. j \<notin> set is) (removeAll i todo) = filter (\<lambda>j. j \<notin> set (i # is)) todo"
    by (auto simp: removeAll_filter_not_eq intro: filter_cong)
  moreover have "sl_run (map (\<lambda>i. W (WByte i)) is) ?s =
    Some (?s\<lparr>wst := WCopying f cur (filter (\<lambda>j. j \<notin> set is) (removeAll i todo)),
            mem := fold (\<lambda>i m. m[8 + i := frame_mem f ! i]) is (mem ?s)\<rparr>)"
    using Cons.prems by (intro Cons.IH) auto
  ultimately show ?case using Cons.prems by simp
qed

lemma reader_bytes_run:
  assumes "rst s = RCopying s1 buf todo t" "distinct is" "set is \<subseteq> set todo"
  shows "\<exists>buf'. sl_run (map (\<lambda>i. R (RByte i)) is) s =
    Some (s\<lparr>rst := RCopying s1 buf' (filter (\<lambda>i. i \<notin> set is) todo) t\<rparr>)"
  using assms
proof (induction "is" arbitrary: s buf todo)
  case Nil
  then show ?case by (cases s) auto
next
  case (Cons i "is")
  let ?s = "s\<lparr>rst := RCopying s1 (buf[i := cell s i]) (removeAll i todo) t\<rparr>"
  have "filter (\<lambda>j. j \<notin> set is) (removeAll i todo) = filter (\<lambda>j. j \<notin> set (i # is)) todo"
    by (auto simp: removeAll_filter_not_eq intro: filter_cong)
  moreover obtain buf' where "sl_run (map (\<lambda>i. R (RByte i)) is) ?s =
    Some (?s\<lparr>rst := RCopying s1 buf' (filter (\<lambda>j. j \<notin> set is) (removeAll i todo)) t\<rparr>)"
    using Cons.IH [of ?s "buf[i := cell s i]" "removeAll i todo"] Cons.prems by auto
  ultimately show ?case using Cons.prems by auto
qed

lemma length_fold_update: "length (fold (\<lambda>i m. m[8 + i := g i]) is m) = length m"
  by (induction "is" arbitrary: m) simp_all

lemma nth_fold_update:
  "set is \<subseteq> {..<192} \<Longrightarrow> j < length m \<Longrightarrow>
   fold (\<lambda>i m. m[8 + i := g i]) is m ! j = (if 8 \<le> j \<and> j - 8 \<in> set is then g (j - 8) else m ! j)"
  by (induction "is" arbitrary: m) (auto simp: nth_list_update)

lemma fold_update_copy_in:
  assumes "length r = 4096" "set is = {..<192}" "frame_ok f"
  shows "fold (\<lambda>i m. m[8 + i := frame_mem f ! i]) is r = copy_in f r"
proof (rule nth_equalityI)
  fix j assume "j < length (fold (\<lambda>i m. m[8 + i := frame_mem f ! i]) is r)"
  then show "fold (\<lambda>i m. m[8 + i := frame_mem f ! i]) is r ! j = copy_in f r ! j"
    using assms nth_fold_update [of "is" j r "\<lambda>i. frame_mem f ! i"]
    by (auto simp: length_fold_update copy_in_def layout nth_append)
qed (use assms in \<open>simp add: length_fold_update copy_in_def layout\<close>)

lemma perm_upt:
  "distinct is \<Longrightarrow> set is = {..<192} \<Longrightarrow> filter (\<lambda>i. i \<notin> set is) [0..<192] = []"
  by (simp add: filter_empty_conv)

lemma shm_write_layout:
  assumes "length r = 4096" "frame_ok f"
  shows "length (snd (shm_write r f)) = 4096"
    "seq_load (snd (shm_write r f)) = seq_load r + 2"
    "data_bytes (snd (shm_write r f)) = frame_mem f"
    "drop 200 (snd (shm_write r f)) = drop 200 r"
  using assms
  by (simp_all add: shm_write_def Let_def copy_in_def seq_store_def data_bytes_def layout seq_load_def)

lemma shm_write_pass:
  assumes "length r = SHMEM_SIZE" "frame_ok f" "seq_load r mod 2 = 0"
  shows "read_frame_pass (snd (shm_write r f)) = Some f"
proof -
  have "(seq_load r + 2) mod 2 = 0"
    using assms(3) even_of_nat_word(2) [of "unat (seq_load r)"]
      even_of_nat_word(2) [of "unat (seq_load r) + 2"] by (simp add: add.commute)
  with assms(1,2) show ?thesis
    by (simp add: read_frame_pass_def Let_def shm_write_layout SHMEM_SIZE_def mem_frame_frame_mem)
qed

lemma reader_solo:
  assumes "sl_reach s" "rst s = RHead" "even (ticks s)" "distinct is" "set is = {..<192}"
  shows "sl_run (R RLoad # map (\<lambda>i. R (RByte i)) is @ [R RCheck]) s =
    Some (s\<lparr>rst := RReturned (latest s) (ticks s) (ticks s)\<rparr>)"
proof -
  let ?s1 = "s\<lparr>rst := RCopying (seq_load (mem s)) (replicate FRAME_BYTES 0) [0..<FRAME_BYTES] (ticks s)\<rparr>"
  have load: "sl_step (R RLoad) s = Some ?s1"
    using sl_reach_inv [OF assms(1)] assms(2,3) by (simp add: sl_inv_def even_of_nat_word Let_def)
  obtain buf where "sl_run (map (\<lambda>i. R (RByte i)) is) ?s1 =
      Some (?s1\<lparr>rst := RCopying (seq_load (mem s)) buf (filter (\<lambda>i. i \<notin> set is) [0..<FRAME_BYTES]) (ticks s)\<rparr>)"
    using reader_bytes_run [of ?s1 "seq_load (mem s)" "replicate FRAME_BYTES 0" "[0..<FRAME_BYTES]" "ticks s" "is"]
      assms(4,5) by (auto simp: layout lessThan_atLeast0)
  then have bytes: "sl_run (map (\<lambda>i. R (RByte i)) is) ?s1 =
      Some (s\<lparr>rst := RCopying (seq_load (mem s)) buf [] (ticks s)\<rparr>)"
    using perm_upt [OF assms(4,5)] by (simp add: layout)
  define t where "t = s\<lparr>rst := RReturned (mem_frame buf) (ticks s) (ticks s)\<rparr>"
  have run: "sl_run (R RLoad # map (\<lambda>i. R (RByte i)) is @ [R RCheck]) s = Some t"
    using load bytes by (simp add: sl_run_append t_def)
  then have "sl_inv t" using assms(1) sl_run_reach sl_reach_inv by blast
  then have "mem_frame buf = frame_at s (length (published s))"
    by (simp add: sl_inv_def t_def)
  with latest_frame_at [of s] have "mem_frame buf = latest s" by (simp only:)
  with run show ?thesis by (simp only: t_def)
qed

lemma writer_solo:
  assumes "sl_reach s" "wst s = WIdle" "frame_ok f" "distinct is" "set is = {..<192}"
  shows "sl_run (W (WCall f) # W WOdd # map (\<lambda>i. W (WByte i)) is @ [W WEven]) s =
    Some (s\<lparr>wst := WIdle, mem := snd (shm_write (mem s) f), ticks := Suc (Suc (ticks s)),
            published := published s @ [f]\<rparr>)"
proof -
  have len: "length (mem s) = 4096" using sl_reach_inv [OF assms(1)] by (simp add: sl_inv_def)
  let ?cur = "seq_load (mem s)"
  let ?s2 = "s\<lparr>wst := WCopying f ?cur [0..<FRAME_BYTES], mem := seq_store (?cur + 1) (mem s),
               ticks := Suc (ticks s)\<rparr>"
  have "sl_run (map (\<lambda>i. W (WByte i)) is) ?s2 =
      Some (?s2\<lparr>wst := WCopying f ?cur [], mem := copy_in f (seq_store (?cur + 1) (mem s))\<rparr>)"
    using writer_bytes_run [of ?s2 f ?cur "[0..<FRAME_BYTES]" "is"] assms(3-5) len perm_upt [OF assms(4,5)]
      fold_update_copy_in [of "seq_store (?cur + 1) (mem s)" "is" f]
    by (simp add: layout lessThan_atLeast0)
  then show ?thesis
    using assms(2,3) by (simp add: sl_run_append shm_write_def Let_def)
qed

section \<open>A concrete run\<close>

definition demo_frame :: AudioFrame where
  "demo_frame = AudioFrame (replicate 96 0x1234)"

text \<open>The demo frame is written, then a reader is called.\<close>

definition demo_state :: seqlock where
  "demo_state = seqlock_init\<lparr>mem := snd (shm_write (mem seqlock_init) demo_frame), ticks := 2,
     published := [demo_frame], rst := RHead, r_start := 1\<rparr>"

lemma demo_frame_ok: "frame_ok demo_frame"
  by (simp add: demo_frame_def layout)

lemma demo_reach: "sl_reach demo_state"
proof -
  let ?t = "seqlock_init\<lparr>mem := snd (shm_write (mem seqlock_init) demo_frame), ticks := 2,
     published := [demo_frame]\<rparr>"
  have "sl_reach ?t"
    using sl_run_reach [OF sl_start writer_solo [OF sl_start _ demo_frame_ok, of "[0..<192]"]]
    by (simp add: seqlock_init_def lessThan_atLeast0 numeral_2_eq_2)
  then show ?thesis by (rule sl_next [where e = "R RCall"]) (simp add: demo_state_def seqlock_init_def)
qed

lemma demo_fields:
  "rst demo_state = RHead" "wst demo_state = WIdle" "ticks demo_state = 2"
  "published demo_state = [demo_frame]" "r_start demo_state = 1"
  by (simp_all add: demo_state_def seqlock_init_def)

lemma demo_returned:
  "sl_reach (demo_state\<lparr>rst := RReturned demo_frame 2 2\<rparr>)"
  using sl_run_reach [OF demo_reach reader_solo [OF demo_reach, of "[0..<192]"]]
  by (simp add: demo_fields lessThan_atLeast0)

section \<open>Properties\<close>

text \<open>C3: No torn reads. In every interleaving of the writer with a reader, down to the
  single bytes of both copies in any order, a frame that \<open>read_frame\<close> returns is
  one complete published frame (or the initial silence), and it is at least as
  recent as the last frame published before the call. The only proviso is that
  fewer than \<open>2^64\<close> counter stores happen between the reader's two loads, so that
  the counter does not wrap all the way round.\<close>

theorem seqlock_no_torn_read:
  assumes "sl_reach s" and "rst s = RReturned f t0 t1" and "t1 - t0 < 2 ^ 64"
  shows "\<exists>k. r_start s \<le> k \<and> k \<le> length (published s) \<and> f = (AudioFrame_default # published s) ! k"
proof -
  from sl_reach_inv [OF assms(1)] assms(2,3)
  have "r_start s \<le> t0 div 2" "t0 \<le> ticks s" "f = frame_at s (t0 div 2)"
    "length (published s) = ticks s div 2"
    by (auto simp: sl_inv_def)
  then show ?thesis by (intro exI [of _ "t0 div 2"]) (simp add: div_le_mono)
qed

theorem seqlock_no_torn_read_witness:
  "\<exists>k. r_start (demo_state\<lparr>rst := RReturned demo_frame 2 2\<rparr>) \<le> k \<and>
     k \<le> length (published (demo_state\<lparr>rst := RReturned demo_frame 2 2\<rparr>)) \<and>
     demo_frame = (AudioFrame_default # published (demo_state\<lparr>rst := RReturned demo_frame 2 2\<rparr>)) ! k"
  using seqlock_no_torn_read [OF demo_returned, of demo_frame 2 2] by simp

text \<open>C20: The seqlock read makes progress: from any reachable state with no write in
  progress, one undisturbed pass of the reader's loop (its byte copies in any
  order) returns, and what it returns is the frame published last.\<close>

theorem seqlock_read_returns:
  assumes "sl_reach s" and "rst s = RHead" and "wst s = WIdle"
    and "distinct is" and "set is = {..<192}"
  shows "\<exists>t t0. sl_run (R RLoad # map (\<lambda>i. R (RByte i)) is @ [R RCheck]) s = Some t \<and>
    rst t = RReturned (last (AudioFrame_default # published s)) t0 t0"
proof -
  have "even (ticks s)" using sl_reach_inv [OF assms(1)] assms(3) by (simp add: sl_inv_def)
  from reader_solo [OF assms(1,2) this assms(4,5)] show ?thesis by auto
qed

theorem seqlock_read_returns_witness:
  "\<exists>t t0. sl_run (R RLoad # map (\<lambda>i. R (RByte i)) [0..<192] @ [R RCheck]) demo_state = Some t \<and>
    rst t = RReturned (last (AudioFrame_default # published demo_state)) t0 t0"
  by (rule seqlock_read_returns [OF demo_reach]) (simp_all add: demo_fields lessThan_atLeast0)

text \<open>C21: The writer's steps implement its operation: from any reachable idle state,
  running \<open>write\<close> step by step, with the frame copied in any byte order, leaves
  exactly the region that \<open>AudioShmem::write\<close> computes and publishes the frame.\<close>

theorem seqlock_write_refines:
  assumes "sl_reach s" and "wst s = WIdle" and "frame_ok f"
    and "distinct is" and "set is = {..<192}"
  shows "\<exists>t. sl_run (W (WCall f) # W WOdd # map (\<lambda>i. W (WByte i)) is @ [W WEven]) s = Some t \<and>
    mem t = snd (shm_write (mem s) f) \<and> published t = published s @ [f] \<and> wst t = WIdle"
  using writer_solo [OF assms] by auto

theorem seqlock_write_refines_witness:
  "\<exists>t. sl_run (W (WCall demo_frame) # W WOdd # map (\<lambda>i. W (WByte i)) (rev [0..<192]) @ [W WEven])
      seqlock_init = Some t \<and>
    mem t = snd (shm_write (mem seqlock_init) demo_frame) \<and>
    published t = published seqlock_init @ [demo_frame] \<and> wst t = WIdle"
  by (rule seqlock_write_refines [OF sl_start])
    (simp_all add: demo_frame_ok lessThan_atLeast0 seqlock_init_def)

text \<open>One write followed by a read on the same region: the reader gets the frame
  written, the counter has advanced by two (wrapping), the returned number is the
  counter a client then sees, and the padding behind the frame is untouched.\<close>

lemma shm_write_read:
  assumes "length r = SHMEM_SIZE" and "frame_ok f" and "seq_load r mod 2 = 0"
    and "shm_write r f = (sq, r')"
  shows "read_frame_pass r' = Some f \<and> sq = seq_load r + 2 \<and> current_seq r' = sq \<and>
    length r' = SHMEM_SIZE \<and> drop 200 r' = drop 200 r"
proof -
  have "r' = snd (shm_write r f)" and "sq = seq_load r + 2"
    using assms(4) by (auto simp: shm_write_def Let_def)
  with shm_write_pass [OF assms(1-3)] assms(1,2) show ?thesis
    by (simp add: current_seq_def shm_write_layout SHMEM_SIZE_def)
qed

end
