(* ===== verification/Cm108_Mapping.thy ===== *)
theory Cm108_Mapping
  imports Cm108_Kernel Cm108_Shmem "HOL-Library.Multiset"
begin

text \<open>
  Creating, mapping and releasing the shared region: \<open>AudioShmem::create\<close>, its helpers and
  its destructor in \<^verbatim>\<open>crates/cm108-server/src/shmem.rs\<close>, over the kernel of
  \<open>Cm108_Kernel\<close>; and \<open>held\<close>, the descriptors and mappings a sequence of system calls
  leaves behind, against which the set-up and the destructors of daemon and client are
  proved balanced.
\<close>

section \<open>Model\<close>

definition MFD_CLOEXEC :: u32 where "MFD_CLOEXEC = 1"
definition PROT_READ :: i32 where "PROT_READ = 1"
definition PROT_WRITE :: i32 where "PROT_WRITE = 2"
definition MAP_SHARED :: i32 where "MAP_SHARED = 1"
definition MAP_FAILED :: u64 where "MAP_FAILED = - 1"

record AudioShmem =
  shm_file :: i32
  shm_addr :: u64

text \<open>\<open>CString::new\<close> refuses a zero byte, and \<open>expect\<close> then panics.\<close>

definition create_memfd :: "kernel \<Rightarrow> rstring \<Rightarrow> process \<Rightarrow> ((ErrorKind + i32) \<times> process) outcome" where
  "create_memfd k name ps =
     (if 0 \<in> set name then Panics
      else Returns (case checked_call k (MemfdCreate (name @ [0]) MFD_CLOEXEC) ps of
          (Inl e, ps') \<Rightarrow> (Inl e, ps')
        | (Inr r, ps') \<Rightarrow> (Inr (ret r), ps')))"

definition ftruncate :: "kernel \<Rightarrow> i32 \<Rightarrow> nat \<Rightarrow> process \<Rightarrow> (ErrorKind + unit) \<times> process" where
  "ftruncate k fd n = unit_call k (Ftruncate fd (of_nat n))"

definition map_call :: "kernel \<Rightarrow> i32 \<Rightarrow> i32 \<Rightarrow> nat \<Rightarrow> process \<Rightarrow> (ErrorKind + u64) \<times> process" where
  "map_call k prot fd n ps =
     (case syscall k (Mmap 0 (of_nat n) prot MAP_SHARED fd 0) ps of (r, ps') \<Rightarrow>
        (if stored r = MAP_FAILED then Inl (last_os_error r) else Inr (stored r), ps'))"

definition mmap_shared :: "kernel \<Rightarrow> i32 \<Rightarrow> nat \<Rightarrow> process \<Rightarrow> (ErrorKind + u64) \<times> process" where
  "mmap_shared k = map_call k (PROT_READ OR PROT_WRITE)"

definition AudioShmem_create :: "kernel \<Rightarrow> rstring \<Rightarrow> process \<Rightarrow> ((ErrorKind + AudioShmem) \<times> process) outcome" where
  "AudioShmem_create k label ps =
     obind (create_memfd k label ps) (\<lambda>(res, ps1). Returns
     (case res of
        Inl e \<Rightarrow> (Inl e, ps1)
      | Inr fd \<Rightarrow>
          (case ftruncate k fd SHMEM_SIZE ps1 of
             (Inl e, ps2) \<Rightarrow> (Inl e, close_fd k fd ps2)
           | (Inr _, ps2) \<Rightarrow>
               (case mmap_shared k fd SHMEM_SIZE ps2 of
                  (Inl e, ps3) \<Rightarrow> (Inl e, close_fd k fd ps3)
                | (Inr p, ps3) \<Rightarrow> (Inr \<lparr>shm_file = fd, shm_addr = p\<rparr>, ps3)))))"

definition raw_fd :: "AudioShmem \<Rightarrow> i32" where
  "raw_fd m = shm_file m"

definition unmap :: "kernel \<Rightarrow> u64 \<Rightarrow> nat \<Rightarrow> process \<Rightarrow> process" where
  "unmap k p n ps = snd (syscall k (Munmap p (of_nat n)) ps)"

text \<open>The destructor unmaps; then the descriptor, a field, is dropped.\<close>

definition AudioShmem_drop :: "kernel \<Rightarrow> AudioShmem \<Rightarrow> process \<Rightarrow> process" where
  "AudioShmem_drop k m ps = close_fd k (shm_file m) (unmap k (shm_addr m) SHMEM_SIZE ps)"

section \<open>Resources\<close>

datatype resource = FdRes i32 | MapRes u64

definition SOL_SOCKET :: i32 where "SOL_SOCKET = 1"
definition SCM_RIGHTS :: i32 where "SCM_RIGHTS = 1"

definition is_rights :: "cmsg \<Rightarrow> bool" where
  "is_rights m \<longleftrightarrow> cmsg_level m = SOL_SOCKET \<and> cmsg_type m = SCM_RIGHTS"

text \<open>What a call adds, given its answer, and what it gives back.\<close>

fun gains :: "os_call \<Rightarrow> os_ret \<Rightarrow> resource multiset" where
  "gains (OpenFile path fl) r = (if ret r <s 0 then {#} else {#FdRes (ret r)#})"
| "gains (MemfdCreate name fl) r = (if ret r <s 0 then {#} else {#FdRes (ret r)#})"
| "gains (ConnectUnix path) r = (if ret r <s 0 then {#} else {#FdRes (ret r)#})"
| "gains (DupFd fd) r = (if ret r <s 0 then {#} else {#FdRes (ret r)#})"
| "gains (RecvMsg fd n space) r =
     (if ret r <s 0 then {#} else mset (concat (map (\<lambda>m. map FdRes (cmsg_data m # cmsg_more m)) (filter is_rights (control r)))))"
| "gains (Mmap a n prot fl fd off) r = (if stored r = MAP_FAILED then {#} else {#MapRes (stored r)#})"
| "gains _ r = {#}"

fun gives_back :: "os_call \<Rightarrow> resource multiset" where
  "gives_back (CloseFd fd) = {#FdRes fd#}"
| "gives_back (Munmap p n) = {#MapRes p#}"
| "gives_back _ = {#}"

text \<open>The resources held after a sequence of calls that starts with the history \<open>tr\<close>;
  \<open>None\<close> when something is given back that is not held.\<close>

fun held :: "kernel \<Rightarrow> os_call list \<Rightarrow> resource multiset \<Rightarrow> os_call list \<Rightarrow> resource multiset option" where
  "held k tr res [] = Some res"
| "held k tr res (c # cs) =
     (if gives_back c \<subseteq># res + gains c (k tr c)
      then held k (tr @ [c]) (res + gains c (k tr c) - gives_back c) cs else None)"

lemma held_append:
  "held k tr res (cs @ ds) = Option.bind (held k tr res cs) (\<lambda>res'. held k (tr @ cs) res' ds)"
  by (induction cs arbitrary: tr res) simp_all

text \<open>Creating the shared region is balanced, whatever the kernel answers: if any of
  the three calls fails, no descriptor and no mapping is left behind; if all succeed, the
  daemon holds exactly the descriptor and the mapping of the value returned, and its
  destructor releases exactly these. Creation panics only for a label with a zero byte.\<close>

lemma AudioShmem_create_held:
  assumes "0 \<notin> set label"
  shows "\<exists>res ps' cs. AudioShmem_create k label ps = Returns (res, ps') \<and> trace ps' = trace ps @ cs \<and>
    (case res of
       Inl e \<Rightarrow> held k (trace ps) {#} cs = Some {#}
     | Inr m \<Rightarrow> held k (trace ps) {#} cs = Some {#FdRes (shm_file m), MapRes (shm_addr m)#} \<and>
         (\<exists>ds. trace (AudioShmem_drop k m ps') = trace ps' @ ds \<and>
            held k (trace ps') {#FdRes (shm_file m), MapRes (shm_addr m)#} ds = Some {#}))"
proof -
  let ?c1 = "MemfdCreate (label @ [0]) MFD_CLOEXEC"
  let ?r1 = "k (trace ps) ?c1"
  let ?fd = "ret ?r1"
  let ?c2 = "Ftruncate ?fd (of_nat SHMEM_SIZE)"
  let ?c3 = "Mmap 0 (of_nat SHMEM_SIZE) (PROT_READ OR PROT_WRITE) MAP_SHARED ?fd 0"
  let ?r3 = "k (trace ps @ [?c1, ?c2]) ?c3"
  note defs = AudioShmem_create_def create_memfd_def ftruncate_def mmap_shared_def map_call_def checked_call_eq
    unit_call_eq syscall_def close_fd_def AudioShmem_drop_def unmap_def
  consider "?fd <s 0" | "\<not> ?fd <s 0" "ret (k (trace ps @ [?c1]) ?c2) <s 0"
    | "\<not> ?fd <s 0" "\<not> ret (k (trace ps @ [?c1]) ?c2) <s 0" "stored ?r3 = MAP_FAILED"
    | "\<not> ?fd <s 0" "\<not> ret (k (trace ps @ [?c1]) ?c2) <s 0" "stored ?r3 \<noteq> MAP_FAILED"
    by blast
  then show ?thesis by cases (use assms in \<open>simp_all add: defs\<close>)
qed

end
