(* ===== verification/Cm108_Server.thy ===== *)
theory Cm108_Server
  imports Cm108_Ipc Cm108_Latency Cm108_Mapping
begin

text \<open>
  The daemon, \<^verbatim>\<open>crates/cm108-server/src/server.rs\<close>: one round of each of its three
  loops (audio dispatch, GPIO poller, heartbeat LED) and the state \<open>run\<close> sets up
  (\<open>Cm108_Startup\<close> has the set-up itself). \<open>server_step\<close> puts the rounds, the client connections of
  \<open>Cm108_Ipc\<close> and the ends of the USB threads' rings together as one system whose
  events interleave in any order; \<open>server_reach\<close> are the states it can be in. The
  invariants of these states are in \<open>Cm108_Daemon\<close>.
  Elapsed times, the wall clock and the results of USB transfers are arguments.
\<close>

section \<open>State\<close>

text \<open>Ghost fields, which no operation reads: \<open>accepted\<close> and \<open>dispatched\<close> (frames the
  receive ring took, frames published), \<open>offered\<close> (frames the USB side produced),
  \<open>window\<close> (latencies recorded since the last snapshot, newest first),
  \<open>last_window\<close> (those of the last snapshot), \<open>pin_ops\<close> (pin writes clients requested),
  \<open>connects\<close> (connections accepted), \<open>leaked\<close> (those whose handler panicked at its start,
  debug profile only).\<close>

record 'r server =
  ctx :: "'r ClientContext"
  rx_consumer :: 'r
  region :: bytes
  ticker :: u64
  histogram :: LatencyHistogram
  prev_gpio :: GpioState
  pin_state :: bool
  sessions :: "ClientId list"
  offered :: nat
  accepted :: "AudioFrame list"
  dispatched :: "AudioFrame list"
  window :: "u32 list"
  last_window :: "u32 list"
  pin_ops :: "(u8 \<times> bool) list"
  connects :: nat
  leaked :: "ClientId list"

definition HEARTBEAT_PIN :: u8 where "HEARTBEAT_PIN = 3"

section \<open>Start-up\<close>

text \<open>A fresh mapping is zero.\<close>

definition server_init :: "i32 \<Rightarrow> bytes \<Rightarrow> 'r \<Rightarrow> 'r \<Rightarrow> 'r server" where
  "server_init fd mapping rx tx =
     \<lparr>ctx = \<lparr>registry = ClientRegistry_new, rx_shmem_fd = fd,
              gpio = \<lparr>guarded = HidGpio_new, poisoned = False\<rparr>,
              tx_producer = \<lparr>guarded = tx, poisoned = False\<rparr>, rx_xruns = 0, tx_xruns = 0,
              last_latency = LatencyStats_default, last_activity_ms = 0, ctl_log = []\<rparr>,
      rx_consumer = rx, region = mapping, ticker = 0, histogram = hist_new, prev_gpio = GpioState 0,
      pin_state = False, sessions = [], offered = 0, accepted = [], dispatched = [], window = [],
      last_window = [], pin_ops = [], connects = 0, leaked = []\<rparr>"

text \<open>The first act of the dispatch and of the poller thread.\<close>

definition dispatch_thread_rt :: "kernel \<Rightarrow> cpu_lib \<Rightarrow> process \<Rightarrow> process outcome" where
  "dispatch_thread_rt k lib = configure_rt k lib 88 1"

definition gpio_thread_rt :: "kernel \<Rightarrow> cpu_lib \<Rightarrow> process \<Rightarrow> process outcome" where
  "gpio_thread_rt k lib = configure_rt k lib 85 2"

section \<open>Audio dispatch thread\<close>

text \<open>One round: \<open>elapsed\<close> is the number of microseconds from taking the frame to
  after the notification, cast to 32 bits. The second component is the pause in
  milliseconds before the next round.\<close>

definition dispatch_round :: "profile \<Rightarrow> 'r ring_api \<Rightarrow> nat \<Rightarrow> 'r server \<Rightarrow> ('r server \<times> nat) outcome" where
  "dispatch_round p api elapsed s =
     (case ring_pop api (rx_consumer s) of
        None \<Rightarrow> Returns (s, 1)
      | Some (frame, q) \<Rightarrow>
          (let (sq, region') = shm_write (region s) frame;
               reg = notify_audio_ready sq (registry (ctx s));
               us = of_nat elapsed :: u32;
               t = ticker s + 1
           in obind (hist_record p (histogram s) us) (\<lambda>h.
              let s1 = s\<lparr>rx_consumer := q, region := region', ctx := (ctx s)\<lparr>registry := reg\<rparr>,
                         histogram := h, ticker := t, dispatched := dispatched s @ [frame],
                         window := us # window s\<rparr>
              in if t mod 5000 = 0
                 then obind (to_stats p h) (\<lambda>snap.
                   Returns (s1\<lparr>ctx := (ctx s1)\<lparr>last_latency := snap,
                                  registry := broadcast_stats (rx_xruns (ctx s1)) (tx_xruns (ctx s1)) snap
                                                (registry (ctx s1))\<rparr>,
                               histogram := hist_reset h, window := [], last_window := us # window s\<rparr>, 0))
                 else Returns (s1, 0))))"

section \<open>GPIO poller thread\<close>

definition emit_gpio_events :: "profile \<Rightarrow> GpioState \<Rightarrow> GpioState \<Rightarrow> ClientRegistry \<Rightarrow> ClientRegistry outcome" where
  "emit_gpio_events p state prev reg =
     obind (pin p state 0) (\<lambda>ptt.
     obind (pin p prev 0) (\<lambda>ptt0.
     let reg1 = (if ptt \<noteq> ptt0 then broadcast_radio_event (if ptt then PttAssert else PttDeassert) reg else reg) in
     obind (pin p state 1) (\<lambda>cos.
     obind (pin p prev 1) (\<lambda>cos0.
     let reg2 = (if cos \<noteq> cos0 then broadcast_radio_event (if cos then CosActive else CosInactive) reg1 else reg1) in
     Returns (broadcast_radio_event (GpioChange state) reg2)))))"

definition gpio_round :: "profile \<Rightarrow> RusbError + bytes \<Rightarrow> 'r server \<Rightarrow> ('r server \<times> nat) outcome" where
  "gpio_round p res s =
     (case read_state res of
        Inr (Some state) \<Rightarrow>
          if state \<noteq> prev_gpio s
          then obind (emit_gpio_events p state (prev_gpio s) (registry (ctx s))) (\<lambda>reg.
               Returns (s\<lparr>ctx := (ctx s)\<lparr>registry := reg\<rparr>, prev_gpio := state\<rparr>, 0))
          else Returns (s, 0)
      | Inr None \<Rightarrow> Returns (s, 0)
      | Inl e \<Rightarrow> Returns (s, 10))"

section \<open>Heartbeat thread\<close>

definition saturating_sub :: "u64 \<Rightarrow> u64 \<Rightarrow> u64" where
  "saturating_sub a b = (if a < b then 0 else a - b)"

definition half_period :: "nat option \<Rightarrow> u64 \<Rightarrow> nat" where
  "half_period now activity = (if saturating_sub (wall_ms now) activity < 2000 then 250 else 500)"

text \<open>One round: the pause comes before the toggle; the pin write is skipped when the
  mutex is poisoned and its result is ignored.\<close>

definition heartbeat_round :: "profile \<Rightarrow> write_control \<Rightarrow> nat option \<Rightarrow> 'r server \<Rightarrow> ('r server \<times> nat) outcome" where
  "heartbeat_round p wc now s =
     (let pause = half_period now (last_activity_ms (ctx s));
          level = \<not> pin_state s
      in case locked_set_pin p wc HEARTBEAT_PIN level (ctx s) of
           (c, True) \<Rightarrow> Panics
         | (c, False) \<Rightarrow> Returns (s\<lparr>ctx := c, pin_state := level\<rparr>, pause))"

section \<open>The system\<close>

text \<open>Connections: \<open>Accept\<close> is the start of \<open>handle_client\<close> on a new connection,
  \<open>AcceptFails\<close> one whose writer thread cannot be started, \<open>Receive\<close> one message of its loop, \<open>Close\<close> its end. A handler that panics is gone
  without unregistering in the debug profile and takes the daemon with it in the release
  profile (\<open>thread_panic\<close>). \<open>WriterSends\<close> and \<open>WriterFails\<close> are the connection's writer
  thread; \<open>RxFrame\<close> and \<open>TxFrame\<close> are the ring ends of the two USB threads.\<close>

datatype server_event =
    RxFrame AudioFrame
  | TxFrame
  | Dispatch nat
  | PollGpio "RusbError + bytes"
  | Heartbeat "nat option"
  | Accept
  | AcceptFails
  | Receive ClientId ClientMsg "nat option"
  | Close ClientId
  | WriterSends ClientId
  | WriterFails ClientId

definition on_channel :: "ClientId \<Rightarrow> (channel \<Rightarrow> channel) \<Rightarrow> 'r server \<Rightarrow> 'r server" where
  "on_channel cid f s =
     (case clients (registry (ctx s)) cid of
        None \<Rightarrow> s
      | Some h \<Rightarrow> s\<lparr>ctx := (ctx s)\<lparr>registry := (registry (ctx s))\<lparr>clients :=
          (clients (registry (ctx s)))(cid \<mapsto> h\<lparr>h_sender := f (h_sender h)\<rparr>)\<rparr>\<rparr>\<rparr>)"

definition accept :: "'r server \<Rightarrow> 'r server" where
  "accept s = s\<lparr>ctx := connected (ctx s), sessions := fst (allocate_id (registry (ctx s))) # sessions s,
                connects := Suc (connects s)\<rparr>"

text \<open>What an unwinding handler leaves when its writer thread cannot be started; only a debug
  build gets here (\<open>server_step\<close>).\<close>

definition accept_fails :: "'r server \<Rightarrow> 'r server" where
  "accept_fails s =
     s\<lparr>ctx := (connected (ctx s))\<lparr>registry :=
          hang_up (fst (allocate_id (registry (ctx s)))) (registry (connected (ctx s)))\<rparr>,
       connects := Suc (connects s), leaked := fst (allocate_id (registry (ctx s))) # leaked s\<rparr>"

definition receive :: "profile \<Rightarrow> write_control \<Rightarrow> 'r ring_api \<Rightarrow> ClientId \<Rightarrow> ClientMsg \<Rightarrow> nat option
    \<Rightarrow> 'r server \<Rightarrow> 'r server" where
  "receive p wc api cid msg now s =
     (case dispatch_client_msg p wc api now cid msg (ctx s) of
        (c, panicked) \<Rightarrow>
          s\<lparr>ctx := c, sessions := (if panicked then removeAll cid (sessions s) else sessions s),
            pin_ops := (case msg of SetGpio n high \<Rightarrow> pin_ops s @ [(n, high)] | _ \<Rightarrow> pin_ops s)\<rparr>)"

definition close_session :: "ClientId \<Rightarrow> 'r server \<Rightarrow> 'r server" where
  "close_session cid s =
     s\<lparr>ctx := (ctx s)\<lparr>registry := unregister cid (registry (ctx s))\<rparr>, sessions := removeAll cid (sessions s)\<rparr>"

definition rx_arrives :: "'r ring_api \<Rightarrow> AudioFrame \<Rightarrow> 'r server \<Rightarrow> 'r server" where
  "rx_arrives api f s =
     (case ring_push api (rx_consumer s) f of
        Some q \<Rightarrow> s\<lparr>rx_consumer := q, accepted := accepted s @ [f], offered := Suc (offered s)\<rparr>
      | None \<Rightarrow> s\<lparr>ctx := (ctx s)\<lparr>rx_xruns := rx_xruns (ctx s) + 1\<rparr>, offered := Suc (offered s)\<rparr>)"

definition tx_takes :: "'r ring_api \<Rightarrow> 'r server \<Rightarrow> 'r server" where
  "tx_takes api s =
     (case ring_pop api (guarded (tx_producer (ctx s))) of
        Some (f, q) \<Rightarrow> s\<lparr>ctx := (ctx s)\<lparr>tx_producer := (tx_producer (ctx s))\<lparr>guarded := q\<rparr>\<rparr>\<rparr>
      | None \<Rightarrow> s\<lparr>ctx := (ctx s)\<lparr>tx_xruns := tx_xruns (ctx s) + 1\<rparr>\<rparr>)"

fun server_step :: "profile \<Rightarrow> write_control \<Rightarrow> 'r ring_api \<Rightarrow> server_event \<Rightarrow> 'r server \<Rightarrow> 'r server outcome" where
  "server_step p wc api (RxFrame f) s = Returns (rx_arrives api f s)"
| "server_step p wc api TxFrame s = Returns (tx_takes api s)"
| "server_step p wc api (Dispatch elapsed) s = obind (dispatch_round p api elapsed s) (\<lambda>(s', _). Returns s')"
| "server_step p wc api (PollGpio res) s = obind (gpio_round p res s) (\<lambda>(s', _). Returns s')"
| "server_step p wc api (Heartbeat now) s = obind (heartbeat_round p wc now s) (\<lambda>(s', _). Returns s')"
| "server_step p wc api Accept s = Returns (accept s)"
| "server_step p wc api AcceptFails s = thread_panic p (accept_fails s)"
| "server_step p wc api (Receive cid msg now) s =
     (if cid \<notin> set (sessions s) then Returns s
      else if snd (dispatch_client_msg p wc api now cid msg (ctx s))
      then thread_panic p (receive p wc api cid msg now s)
      else Returns (receive p wc api cid msg now s))"
| "server_step p wc api (Close cid) s =
     Returns (if cid \<in> set (sessions s) then close_session cid s else s)"
| "server_step p wc api (WriterSends cid) s = Returns (on_channel cid (\<lambda>c. c\<lparr>queued := tl (queued c)\<rparr>) s)"
| "server_step p wc api (WriterFails cid) s =
     Returns (on_channel cid (\<lambda>c. c\<lparr>queued := [], receiver_alive := False\<rparr>) s)"

text \<open>In the release profile a handler never panics on a message (\<open>dispatch_release\<close>), so a
  message always leaves the daemon running.\<close>

lemma server_step_receive [simp]:
  "server_step p wc api (Receive cid msg now) s =
     Returns (if cid \<in> set (sessions s) then receive p wc api cid msg now s else s)"
  using dispatch_release [of wc api now cid msg "ctx s"] by (cases p) simp_all

declare server_step.simps(8) [simp del]

text \<open>The USB side delivers complete frames (\<open>rx_frame_contents\<close>); a run accepts fewer
  than $2^{64} - 1$ connections.\<close>

fun event_ok :: "server_event \<Rightarrow> 'r server \<Rightarrow> bool" where
  "event_ok (RxFrame f) s = frame_ok f"
| "event_ok Accept s = (connects s + 1 < 2 ^ 64)"
| "event_ok AcceptFails s = (connects s + 1 < 2 ^ 64)"
| "event_ok _ s = True"

inductive server_reach :: "profile \<Rightarrow> write_control \<Rightarrow> 'r ring_api \<Rightarrow> 'r server \<Rightarrow> 'r server \<Rightarrow> bool"
  for p wc api s0 where
  start: "server_reach p wc api s0 s0"
| step: "server_reach p wc api s0 s \<Longrightarrow> event_ok e s \<Longrightarrow> server_step p wc api e s = Returns s' \<Longrightarrow>
    server_reach p wc api s0 s'"

end
