(* ===== verification/Cm108_Daemon.thy ===== *)
theory Cm108_Daemon
  imports Cm108_Server
begin

text \<open>
  What holds in every state the daemon of \<open>Cm108_Server\<close> can reach: the audio path from
  the receive ring to the shared region, the latency window, the output pins, the
  registry of clients and their queues. One invariant per part, a lemma that every step
  keeps it, and the properties that follow for reachable states.
\<close>

section \<open>Invariants\<close>

text \<open>The audio path: every frame the receive ring took is published or still in the
  ring, in order; the shared region holds the frame published last under the
  sequence number of the publications; the overrun counter is the number of frames
  lost.\<close>

definition audio_path_ok :: "('r \<Rightarrow> AudioFrame list) \<Rightarrow> 'r server \<Rightarrow> bool" where
  "audio_path_ok contents s \<longleftrightarrow>
     accepted s = dispatched s @ contents (rx_consumer s) \<and>
     list_all frame_ok (dispatched s) \<and> list_all frame_ok (contents (rx_consumer s)) \<and>
     length (contents (rx_consumer s)) \<le> RING_CAPACITY \<and>
     length (contents (guarded (tx_producer (ctx s)))) \<le> RING_CAPACITY \<and>
     length (dispatched s) + length (contents (rx_consumer s)) \<le> offered s \<and>
     rx_xruns (ctx s) = of_nat (offered s - (length (dispatched s) + length (contents (rx_consumer s)))) \<and>
     length (region s) = SHMEM_SIZE \<and> seq_load (region s) = of_nat (2 * length (dispatched s)) \<and>
     read_frame_pass (region s) = Some (last (AudioFrame_default # dispatched s))"

text \<open>The latency window: fewer than 5000 samples since the last snapshot, and the
  snapshot describes the window it closed.\<close>

definition window_ok :: "'r server \<Rightarrow> bool" where
  "window_ok s \<longleftrightarrow>
     hist_abs (histogram s) (window s) \<and> length (window s) = unat (ticker s) mod 5000 \<and>
     length (last_window s) \<le> 5000 \<and>
     (if last_window s = [] then last_latency (ctx s) = LatencyStats_default
      else last_latency (ctx s) = reference_stats (last_window s))"

text \<open>A report to the device that shows, in each bit but that of the heartbeat LED, what a
  client requested last for a pin number equal to it modulo eight; and reports that were
  sent while the requests came in, each showing the requests made by then.\<close>

definition register_shows :: "(u8 \<times> bool) list \<Rightarrow> u8 \<Rightarrow> bool" where
  "register_shows ops out \<longleftrightarrow>
     (\<forall>b<8. b \<noteq> 3 \<longrightarrow> bit out b = last_level b False (map (\<lambda>(n, high). (n mod 8, high)) ops))"

definition report_shows :: "(u8 \<times> bool) list \<Rightarrow> ctl_request \<Rightarrow> bool" where
  "report_shows ops r \<longleftrightarrow>
     request_type r = HID_SET_REPORT_TYPE \<and> request r = HID_SET_REPORT_REQ \<and> request_value r = HID_OUTPUT_REPORT \<and>
     (\<exists>out. request_data r = [0, out, GPIO_DIR_RIM_LITE, 0] \<and> register_shows ops out)"

definition reports_follow :: "(u8 \<times> bool) list \<Rightarrow> ctl_request list \<Rightarrow> bool" where
  "reports_follow ops log \<longleftrightarrow>
     (\<exists>ks. list_all2 (\<lambda>k r. k \<le> length ops \<and> report_shows (take k ops) r) ks log \<and> sorted ks \<and>
        last (0 # ks) = length ops)"

text \<open>The output register and the reports sent (release build).\<close>

definition pins_ok :: "'r server \<Rightarrow> bool" where
  "pins_ok s \<longleftrightarrow>
     \<not> poisoned (gpio (ctx s)) \<and> gpio_dir (guarded (gpio (ctx s))) = GPIO_DIR_RIM_LITE \<and>
     register_shows (pin_ops s) (gpio_out (guarded (gpio (ctx s)))) \<and> reports_follow (pin_ops s) (ctl_log (ctx s))"

definition clients_ok :: "profile \<Rightarrow> 'r server \<Rightarrow> bool" where
  "clients_ok p s \<longleftrightarrow>
     connects s < 2 ^ 64 \<and> registry_ok (connects s) (registry (ctx s)) \<and>
     set (sessions s) \<subseteq> dom (clients (registry (ctx s))) \<and>
     (p = Release \<longrightarrow> dom (clients (registry (ctx s))) \<subseteq> set (sessions s) \<and> leaked s = []) \<and>
     set (leaked s) \<subseteq> dom (clients (registry (ctx s))) \<and> set (leaked s) \<inter> set (sessions s) = {}"

section \<open>One round of dispatch\<close>

lemma ticker_mod: "(t :: u64) mod 5000 = 0 \<longleftrightarrow> unat t mod 5000 = 0"
  by (simp add: word_arith_nat_mod flip: unat_eq_zero)

lemma ticker_next:
  fixes t :: u64
  assumes "length w = unat t mod 5000"
  shows "if (t + 1) mod 5000 = 0 then length (us # w) \<le> 5000 \<and> unat (t + 1) mod 5000 = 0
    else length (us # w) = unat (t + 1) mod 5000"
proof (cases "unat (t + 1) = 0")
  case True
  then show ?thesis using assms by (simp add: ticker_mod Suc_le_eq)
next
  case False
  then have "t + 1 \<noteq> 0" by (metis unat_0)
  then have "unat (t + 1) = Suc (unat t)" by (metis add.commute unatSuc)
  then show ?thesis using assms by (auto simp: ticker_mod mod_Suc)
qed

lemma hist_reset_abs: "length (buckets h) = 64 \<Longrightarrow> hist_abs (hist_reset h) []"
  by (simp add: hist_reset_def hist_abs_def hist_new_def)

text \<open>The two outcomes of a round that got a frame, with and without a snapshot.\<close>

definition published_state :: "AudioFrame \<Rightarrow> 'r \<Rightarrow> u32 \<Rightarrow> LatencyHistogram \<Rightarrow> 'r server \<Rightarrow> 'r server" where
  "published_state f q us h s =
     s\<lparr>rx_consumer := q, region := snd (shm_write (region s) f),
       ctx := (ctx s)\<lparr>registry := notify_audio_ready (fst (shm_write (region s) f)) (registry (ctx s))\<rparr>,
       histogram := h, ticker := ticker s + 1, dispatched := dispatched s @ [f], window := us # window s\<rparr>"

definition snapshot_state :: "LatencyStats \<Rightarrow> 'r server \<Rightarrow> 'r server" where
  "snapshot_state st s =
     s\<lparr>ctx := (ctx s)\<lparr>last_latency := st,
          registry := broadcast_stats (rx_xruns (ctx s)) (tx_xruns (ctx s)) st (registry (ctx s))\<rparr>,
       histogram := hist_reset (histogram s), window := [], last_window := window s\<rparr>"

lemma dispatch_round_cases:
  assumes "window_ok s" "ring_pop api (rx_consumer s) = Some (f, q)"
  obtains (plain) h us where "dispatch_round p api elapsed s = Returns (published_state f q us h s, 0)"
      "window_ok (published_state f q us h s)"
  | (snapshot) h us st where
      "dispatch_round p api elapsed s = Returns (snapshot_state st (published_state f q us h s), 0)"
      "window_ok (snapshot_state st (published_state f q us h s))"
proof -
  let ?us = "of_nat elapsed :: u32"
  have w: "hist_abs (histogram s) (window s)" "length (window s) = unat (ticker s) mod 5000"
    using assms(1) by (simp_all add: window_ok_def)
  have len: "length (window s) < 5000" using w(2) by simp
  then obtain h where h: "hist_record p (histogram s) ?us = Returns h" "hist_abs h (?us # window s)"
    using hist_abs_record [OF w(1), of p ?us] by auto
  obtain sq r where sh: "shm_write (region s) f = (sq, r)" by force
  note t = ticker_next [OF w(2), of ?us]
  show ?thesis
  proof (cases "(ticker s + 1) mod 5000 = 0")
    case True
    define st where "st = reference_stats (?us # window s)"
    have st: "to_stats p h = Returns st" "st = reference_stats (?us # window s)"
      using to_stats_reference [OF h(2), of p] len by (simp_all add: st_def)
    have "hist_abs (hist_reset h) []" using h(2) by (intro hist_reset_abs) (simp add: hist_abs_def)
    with True t h st sh assms show ?thesis
      by (intro snapshot [of st ?us h])
        (simp_all add: dispatch_round_def Let_def window_ok_def published_state_def snapshot_state_def)
  next
    case False
    with t h sh assms show ?thesis
      by (intro plain [of ?us h])
        (simp_all add: dispatch_round_def Let_def window_ok_def published_state_def)
  qed
qed

section \<open>What each step leaves alone\<close>

lemma dispatch_frame:
  assumes "dispatch_client_msg p wc api now cid msg c = (c', b)"
  shows "rx_xruns c' = rx_xruns c" "last_latency c' = last_latency c"
    "(\<forall>n high. msg \<noteq> SetGpio n high) \<Longrightarrow> gpio c' = gpio c"
    "(\<forall>fs. msg \<noteq> AudioWrite fs) \<Longrightarrow> tx_producer c' = tx_producer c"
    "(\<forall>n high. msg \<noteq> SetGpio n high) \<Longrightarrow> ctl_log c' = ctl_log c"
  using assms locked_set_pin_frame [of p wc _ _ "c\<lparr>last_activity_ms := wall_ms now\<rparr>" c' b]
  by (cases msg; auto simp: dispatch_client_msg_def Let_def split: if_splits prod.splits)+

lemma dispatch_tx_bound:
  assumes "ring_fifo api contents cap" "dispatch_client_msg p wc api now cid msg c = (c', b)"
    "length (contents (guarded (tx_producer c))) \<le> cap"
  shows "length (contents (guarded (tx_producer c'))) \<le> cap"
proof (cases "\<exists>fs. msg = AudioWrite fs")
  case True
  then obtain fs where fs: "msg = AudioWrite fs" ..
  obtain q x where "push_frames api fs (guarded (tx_producer c)) (tx_xruns c) = (q, x)" by force
  with push_frames_fifo [OF assms(1,3) this] assms(2,3) fs show ?thesis
    by (auto simp: dispatch_client_msg_def Let_def split: if_splits)
next
  case False
  with dispatch_frame(4) [OF assms(2)] assms(3) show ?thesis by simp
qed

lemma emit_gpio_events_fold:
  "\<exists>evs. gpio_events p state prev = Returns evs \<and>
     emit_gpio_events p state prev reg = Returns (fold broadcast_radio_event evs reg)"
  by (simp add: emit_gpio_events_def gpio_events_eq pin_bit)

text \<open>The daemon's poller sends the events of the hardware crate's poller.\<close>

lemma gpio_round_poll:
  assumes "poll_round p (prev_gpio s) res = Returns (g, evs, d)"
  shows "gpio_round p res s =
    Returns (s\<lparr>ctx := (ctx s)\<lparr>registry := fold broadcast_radio_event evs (registry (ctx s))\<rparr>, prev_gpio := g\<rparr>, d)"
proof (cases "read_state res")
  case (Inr st)
  then show ?thesis
  proof (cases st)
    case (Some state)
    obtain evs' where "gpio_events p state (prev_gpio s) = Returns evs'"
      "emit_gpio_events p state (prev_gpio s) (registry (ctx s)) =
         Returns (fold broadcast_radio_event evs' (registry (ctx s)))"
      using emit_gpio_events_fold by blast
    with assms Inr Some show ?thesis by (auto simp: poll_round_def gpio_round_def split: if_splits)
  qed (use assms in \<open>auto simp: poll_round_def gpio_round_def\<close>)
qed (use assms in \<open>auto simp: poll_round_def gpio_round_def\<close>)

lemma gpio_round_cases:
  obtains (quiet) d where "gpio_round p res s = Returns (s, d)"
  | (change) state evs where "read_state res = Inr (Some state)" "gpio_events p state (prev_gpio s) = Returns evs"
      "gpio_round p res s = Returns (s\<lparr>ctx := (ctx s)\<lparr>registry := fold broadcast_radio_event evs (registry (ctx s))\<rparr>,
          prev_gpio := state\<rparr>, 0)"
proof (cases "\<exists>state. read_state res = Inr (Some state) \<and> state \<noteq> prev_gpio s")
  case True
  then obtain state where st: "read_state res = Inr (Some state)" "state \<noteq> prev_gpio s" by blast
  obtain evs where "gpio_events p state (prev_gpio s) = Returns evs"
    "emit_gpio_events p state (prev_gpio s) (registry (ctx s)) =
       Returns (fold broadcast_radio_event evs (registry (ctx s)))"
    using emit_gpio_events_fold by blast
  with st show ?thesis by (intro change) (simp_all add: gpio_round_def)
next
  case False
  then have "\<exists>d. gpio_round p res s = Returns (s, d)"
    by (auto simp: gpio_round_def split: sum.splits option.splits)
  with quiet show ?thesis by blast
qed

lemma heartbeat_round_returns:
  "\<exists>c. locked_set_pin p wc HEARTBEAT_PIN (\<not> pin_state s) (ctx s) = (c, False) \<and>
     heartbeat_round p wc now s =
       Returns (s\<lparr>ctx := c, pin_state := \<not> pin_state s\<rparr>, half_period now (last_activity_ms (ctx s)))"
proof -
  obtain g req res where "set_pin p wc (guarded (gpio (ctx s))) HEARTBEAT_PIN (\<not> pin_state s) = Returns (g, req, res)"
    using set_pin_returns [of p HEARTBEAT_PIN wc "guarded (gpio (ctx s))" "\<not> pin_state s"]
    by (auto simp: HEARTBEAT_PIN_def)
  then show ?thesis by (simp add: heartbeat_round_def locked_set_pin_def Let_def)
qed

lemma on_channel_frame:
  "\<exists>reg. on_channel cid f s = s\<lparr>ctx := (ctx s)\<lparr>registry := reg\<rparr>\<rparr>"
  by (cases "clients (registry (ctx s)) cid") (auto simp: on_channel_def intro: exI [of _ "registry (ctx s)"])

section \<open>The audio path\<close>

lemma audio_path_dispatch:
  assumes "audio_path_ok contents s" "contents (rx_consumer s) = f # contents q"
  shows "audio_path_ok contents (published_state f q us h s)"
    and "audio_path_ok contents (snapshot_state st (published_state f q us h s))"
proof -
  have f: "frame_ok f" using assms by (auto simp: audio_path_ok_def)
  have ev: "seq_load (region s) mod 2 = 0"
    using assms(1) even_of_nat_word(2) [of "2 * length (dispatched s)"] by (simp add: audio_path_ok_def)
  have w: "shm_write (region s) f = (fst (shm_write (region s) f), snd (shm_write (region s) f))" by simp
  have l: "length (region s) = SHMEM_SIZE" using assms(1) by (simp add: audio_path_ok_def)
  from shm_write_layout [of "region s" f] l f
  have "length (snd (shm_write (region s) f)) = SHMEM_SIZE"
    "seq_load (snd (shm_write (region s) f)) = seq_load (region s) + 2"
    by (simp_all add: SHMEM_SIZE_def)
  moreover have "read_frame_pass (snd (shm_write (region s) f)) = Some f"
    using shm_write_pass [OF l f ev] .
  ultimately show "audio_path_ok contents (published_state f q us h s)"
    using assms by (simp add: audio_path_ok_def published_state_def)
  then show "audio_path_ok contents (snapshot_state st (published_state f q us h s))"
    by (simp add: audio_path_ok_def snapshot_state_def)
qed

lemmas ring_popD = ring_pop_Some

lemma ring_pop_None:
  assumes "ring_fifo api contents cap" "ring_pop api q = None"
  shows "contents q = []"
proof -
  have "case contents q of [] \<Rightarrow> ring_pop api q = None
      | f # fs \<Rightarrow> \<exists>r'. ring_pop api q = Some (f, r') \<and> contents r' = fs"
    using assms(1) by (simp only: ring_fifo_def)
  with assms(2) show ?thesis by (auto split: list.splits)
qed

lemma ring_pushD:
  assumes "ring_fifo api contents cap" "ring_push api q f = Some q'"
  shows "contents q' = contents q @ [f]" "length (contents q) < cap"
proof -
  have "if length (contents q) < cap
        then \<exists>r'. ring_push api q f = Some r' \<and> contents r' = contents q @ [f]
        else ring_push api q f = None"
    by (rule assms(1) [unfolded ring_fifo_def, THEN conjunct1, THEN spec [of _ q], THEN spec [of _ f]])
  with assms(2) show "contents q' = contents q @ [f]" "length (contents q) < cap"
    by (auto split: if_splits)
qed

lemma audio_path_cong:
  assumes "audio_path_ok contents s"
    "accepted s' = accepted s" "dispatched s' = dispatched s" "rx_consumer s' = rx_consumer s"
    "region s' = region s" "offered s' = offered s" "rx_xruns (ctx s') = rx_xruns (ctx s)"
    "length (contents (guarded (tx_producer (ctx s')))) \<le> RING_CAPACITY"
  shows "audio_path_ok contents s'"
  using assms by (simp add: audio_path_ok_def)

lemma audio_path_tx: "audio_path_ok contents s \<Longrightarrow> length (contents (guarded (tx_producer (ctx s)))) \<le> RING_CAPACITY"
  by (simp add: audio_path_ok_def)

lemma audio_path_step:
  assumes fifo: "ring_fifo api contents RING_CAPACITY"
    and inv: "audio_path_ok contents s" "window_ok s" and ev: "event_ok e s"
    and st: "server_step p wc api e s = Returns s'"
  shows "audio_path_ok contents s'"
proof (cases e)
  case (RxFrame f)
  show ?thesis
  proof (cases "ring_push api (rx_consumer s) f")
    case None
    with RxFrame st have "s' = s\<lparr>ctx := (ctx s)\<lparr>rx_xruns := rx_xruns (ctx s) + 1\<rparr>, offered := Suc (offered s)\<rparr>"
      by (simp add: rx_arrives_def)
    with inv(1) show ?thesis by (simp add: audio_path_ok_def Suc_diff_le)
  next
    case (Some q)
    with RxFrame st have "s' = s\<lparr>rx_consumer := q, accepted := accepted s @ [f], offered := Suc (offered s)\<rparr>"
      by (simp add: rx_arrives_def)
    with ring_pushD [OF fifo Some] inv(1) ev RxFrame show ?thesis by (simp add: audio_path_ok_def)
  qed
next
  case TxFrame
  show ?thesis
  proof (cases "ring_pop api (guarded (tx_producer (ctx s)))")
    case None
    with TxFrame st inv(1) show ?thesis by (auto simp: tx_takes_def audio_path_ok_def)
  next
    case (Some fq)
    obtain f q where fq: "fq = (f, q)" by force
    with TxFrame st Some have "s' = s\<lparr>ctx := (ctx s)\<lparr>tx_producer := (tx_producer (ctx s))\<lparr>guarded := q\<rparr>\<rparr>\<rparr>"
      by (simp add: tx_takes_def)
    with ring_popD [OF fifo] Some fq inv(1) show ?thesis by (simp add: audio_path_ok_def)
  qed
next
  case (Dispatch el)
  show ?thesis
  proof (cases "ring_pop api (rx_consumer s)")
    case None
    with Dispatch st inv(1) show ?thesis by (simp add: dispatch_round_def)
  next
    case (Some fq)
    obtain f q where fq: "fq = (f, q)" by force
    note pop = Some [unfolded fq]
    show ?thesis
      using inv(2) pop
    proof (cases rule: dispatch_round_cases [where p = p and elapsed = el])
      case (plain h us)
      with Dispatch st audio_path_dispatch(1) [OF inv(1) ring_popD [OF fifo pop]] show ?thesis by auto
    next
      case (snapshot h us sn)
      with Dispatch st audio_path_dispatch(2) [OF inv(1) ring_popD [OF fifo pop]] show ?thesis by auto
    qed
  qed
next
  case (PollGpio res)
  then show ?thesis using st inv(1)
    by (cases rule: gpio_round_cases [of p res s]) (auto simp: audio_path_ok_def)
next
  case (Heartbeat now)
  obtain c where c: "locked_set_pin p wc HEARTBEAT_PIN (\<not> pin_state s) (ctx s) = (c, False)"
    "heartbeat_round p wc now s = Returns (s\<lparr>ctx := c, pin_state := \<not> pin_state s\<rparr>, half_period now (last_activity_ms (ctx s)))"
    using heartbeat_round_returns by blast
  with Heartbeat st inv(1) locked_set_pin_frame [OF c(1)] audio_path_tx [OF inv(1)]
  show ?thesis by (auto intro: audio_path_cong)
next
  case Accept
  with st inv(1) show ?thesis by (auto simp: accept_def connected_def audio_path_ok_def)
next
  case AcceptFails
  with st inv(1) show ?thesis by (auto simp: accept_fails_def connected_def audio_path_ok_def)
next
  case (Receive cid msg now)
  show ?thesis
  proof (cases "cid \<in> set (sessions s)")
    case True
    obtain c b where d: "dispatch_client_msg p wc api now cid msg (ctx s) = (c, b)" by force
    with True Receive st have s': "s' = s\<lparr>ctx := c, sessions := (if b then removeAll cid (sessions s) else sessions s),
        pin_ops := (case msg of SetGpio n high \<Rightarrow> pin_ops s @ [(n, high)] | _ \<Rightarrow> pin_ops s)\<rparr>"
      by (simp add: receive_def)
    show ?thesis
      using dispatch_frame(1) [OF d] dispatch_tx_bound [OF fifo d audio_path_tx [OF inv(1)]]
      by (intro audio_path_cong [OF inv(1)]) (simp_all add: s')
  qed (use Receive st inv(1) in simp)
next
  case (Close cid)
  with st inv(1) show ?thesis by (auto simp: close_session_def audio_path_ok_def split: if_splits)
next
  case (WriterSends cid)
  then obtain reg where "s' = s\<lparr>ctx := (ctx s)\<lparr>registry := reg\<rparr>\<rparr>" using st on_channel_frame by fastforce
  with inv(1) show ?thesis by (simp add: audio_path_ok_def)
next
  case (WriterFails cid)
  then obtain reg where "s' = s\<lparr>ctx := (ctx s)\<lparr>registry := reg\<rparr>\<rparr>" using st on_channel_frame by fastforce
  with inv(1) show ?thesis by (simp add: audio_path_ok_def)
qed

section \<open>The latency window\<close>

lemma window_cong:
  assumes "window_ok s" "histogram s' = histogram s" "window s' = window s" "ticker s' = ticker s"
    "last_window s' = last_window s" "last_latency (ctx s') = last_latency (ctx s)"
  shows "window_ok s'"
  using assms by (simp add: window_ok_def)

lemma on_channel_simps [simp]:
  "histogram (on_channel cid f s) = histogram s" "window (on_channel cid f s) = window s"
  "ticker (on_channel cid f s) = ticker s" "last_window (on_channel cid f s) = last_window s"
  "last_latency (ctx (on_channel cid f s)) = last_latency (ctx s)" "gpio (ctx (on_channel cid f s)) = gpio (ctx s)"
  "ctl_log (ctx (on_channel cid f s)) = ctl_log (ctx s)"
  "pin_ops (on_channel cid f s) = pin_ops s" "sessions (on_channel cid f s) = sessions s"
  "connects (on_channel cid f s) = connects s" "region (on_channel cid f s) = region s"
  "dispatched (on_channel cid f s) = dispatched s" "leaked (on_channel cid f s) = leaked s"
  by (simp_all add: on_channel_def split: option.split)

lemma window_step:
  assumes inv: "window_ok s" and st: "server_step p wc api e s = Returns s'"
  shows "window_ok s'"
proof (cases e)
  case (Dispatch el)
  show ?thesis
  proof (cases "ring_pop api (rx_consumer s)")
    case None
    with Dispatch st inv show ?thesis by (simp add: dispatch_round_def)
  next
    case (Some fq)
    obtain f q where "fq = (f, q)" by force
    with Some have pop: "ring_pop api (rx_consumer s) = Some (f, q)" by simp
    show ?thesis using inv pop
      by (cases rule: dispatch_round_cases [where p = p and elapsed = el]) (use Dispatch st in auto)
  qed
next
  case (PollGpio res)
  then show ?thesis using st inv
    by (cases rule: gpio_round_cases [of p res s]) (auto intro: window_cong)
next
  case (Heartbeat now)
  obtain c where c: "locked_set_pin p wc HEARTBEAT_PIN (\<not> pin_state s) (ctx s) = (c, False)"
    "heartbeat_round p wc now s = Returns (s\<lparr>ctx := c, pin_state := \<not> pin_state s\<rparr>, half_period now (last_activity_ms (ctx s)))"
    using heartbeat_round_returns by blast
  with Heartbeat st locked_set_pin_frame(2) [OF c(1)] show ?thesis
    by (intro window_cong [OF inv]) auto
next
  case (Receive cid msg now)
  obtain c b where d: "dispatch_client_msg p wc api now cid msg (ctx s) = (c, b)" by force
  with Receive st dispatch_frame(2) [OF d] show ?thesis
    by (intro window_cong [OF inv]) (auto simp: receive_def)
qed (use st in \<open>auto intro!: window_cong [OF inv] simp: rx_arrives_def tx_takes_def accept_def accept_fails_def
       connected_def close_session_def split: option.splits\<close>)

section \<open>The output pins\<close>

lemma last_level_snoc:
  "last_level b l (ops @ [(n, high)]) = (if unat n = b then high else last_level b l ops)"
  by (induction b l ops rule: last_level.induct) simp_all

lemma locked_set_pin_effect:
  assumes "locked_set_pin Release wc n high c = (c', b)" "\<not> poisoned (gpio c)"
  shows "\<not> poisoned (gpio c')" "gpio_dir (guarded (gpio c')) = gpio_dir (guarded (gpio c))"
    "i < 8 \<Longrightarrow> bit (gpio_out (guarded (gpio c'))) i =
       (if i = unat n mod 8 then high else bit (gpio_out (guarded (gpio c))) i)"
    "ctl_log c' = ctl_log c @ [fst (write_report wc (guarded (gpio c')))]"
proof -
  obtain g req res where g: "set_pin Release wc (guarded (gpio c)) n high = Returns (g, req, res)"
    using set_pin_returns by blast
  with assms have c': "c' = c\<lparr>gpio := (gpio c)\<lparr>guarded := g\<rparr>, ctl_log := ctl_log c @ [req]\<rparr>"
    by (simp add: locked_set_pin_def)
  show "\<not> poisoned (gpio c')" "gpio_dir (guarded (gpio c')) = gpio_dir (guarded (gpio c))"
    using c' assms(2) set_pin_effect(2) [OF g] by simp_all
  show "ctl_log c' = ctl_log c @ [fst (write_report wc (guarded (gpio c')))]"
  proof -
    have "fst (write_report wc g) = req" using set_pin_effect(3) [OF g] by (metis fst_conv)
    with c' show ?thesis by simp
  qed
  show "bit (gpio_out (guarded (gpio c'))) i =
       (if i = unat n mod 8 then high else bit (gpio_out (guarded (gpio c))) i)" if "i < 8"
    using c' set_pin_effect(1) [OF g that] by simp
qed

lemma unat_mod_8: "unat (n mod 8 :: u8) = unat n mod 8"
  by (simp add: unat_mod_distrib)

lemma register_shows_write:
  assumes "register_shows ops old"
    and "\<And>i. i < 8 \<Longrightarrow> bit new i = (if i = unat n mod 8 then high else bit old i)"
  shows "register_shows (ops @ [(n, high)]) new"
  using assms by (auto simp: register_shows_def last_level_snoc unat_mod_8)

lemma register_shows_led:
  assumes "register_shows ops old" and "\<And>i. i < 8 \<Longrightarrow> i \<noteq> 3 \<Longrightarrow> bit new i = bit old i"
  shows "register_shows ops new"
  using assms by (simp add: register_shows_def)

lemma report_shows_write:
  "gpio_dir g = GPIO_DIR_RIM_LITE \<Longrightarrow> register_shows ops (gpio_out g) \<Longrightarrow> report_shows ops (fst (write_report wc g))"
  by (simp add: report_shows_def write_report_def Let_def)

text \<open>One more report, of the register after \<open>new\<close> further requests.\<close>

lemma reports_follow_snoc:
  assumes "reports_follow ops log" "report_shows (ops @ new) r"
  shows "reports_follow (ops @ new) (log @ [r])"
proof -
  obtain ks where ks: "list_all2 (\<lambda>k r. k \<le> length ops \<and> report_shows (take k ops) r) ks log" "sorted ks"
    using assms(1) by (auto simp: reports_follow_def)
  have "list_all2 (\<lambda>k r. k \<le> length (ops @ new) \<and> report_shows (take k (ops @ new)) r) ks log"
    using ks(1) by (rule list_all2_mono) simp
  moreover have "\<forall>k \<in> set ks. k \<le> length ops" using ks(1) by (auto simp: list_all2_conv_all_nth in_set_conv_nth)
  ultimately show ?thesis using ks(2) assms(2) unfolding reports_follow_def
    by (intro exI [of _ "ks @ [length (ops @ new)]"]) (auto simp: sorted_append list_all2_appendI intro: le_trans)
qed

lemma pins_cong:
  assumes "pins_ok s" "gpio (ctx s') = gpio (ctx s)" "pin_ops s' = pin_ops s" "ctl_log (ctx s') = ctl_log (ctx s)"
  shows "pins_ok s'"
  using assms by (simp add: pins_ok_def)

lemma pins_write:
  assumes "pins_ok s" "locked_set_pin Release wc n high c = (c', b)" "gpio c = gpio (ctx s)" "ctl_log c = ctl_log (ctx s)"
    "ctx s' = c'" "pin_ops s' = pin_ops s @ new" "new = [(n, high)] \<or> new = [] \<and> n = HEARTBEAT_PIN"
  shows "pins_ok s'"
proof -
  have np: "\<not> poisoned (gpio c)" and dir: "gpio_dir (guarded (gpio c)) = GPIO_DIR_RIM_LITE"
    and reg: "register_shows (pin_ops s) (gpio_out (guarded (gpio c)))" and rep: "reports_follow (pin_ops s) (ctl_log c)"
    using assms(1,3,4) by (simp_all add: pins_ok_def)
  note eff = locked_set_pin_effect [OF assms(2) np]
  have reg': "register_shows (pin_ops s @ new) (gpio_out (guarded (gpio c')))"
    using assms(7)
  proof
    assume "new = [(n, high)]"
    with register_shows_write [OF reg eff(3)] show ?thesis by simp
  next
    assume "new = [] \<and> n = HEARTBEAT_PIN"
    with register_shows_led [OF reg] eff(3) show ?thesis by (simp add: HEARTBEAT_PIN_def)
  qed
  from reports_follow_snoc [OF rep report_shows_write [OF _ this]] eff(1,2,4) dir reg' assms(5,6)
  show ?thesis by (simp add: pins_ok_def)
qed

lemma pins_step:
  assumes inv: "pins_ok s" and w: "window_ok s" and st: "server_step Release wc api e s = Returns s'"
  shows "pins_ok s'"
proof (cases e)
  case (Dispatch el)
  show ?thesis
  proof (cases "ring_pop api (rx_consumer s)")
    case None
    with Dispatch st inv show ?thesis by (simp add: dispatch_round_def)
  next
    case (Some fq)
    obtain f q where "fq = (f, q)" by force
    with Some have pop: "ring_pop api (rx_consumer s) = Some (f, q)" by simp
    show ?thesis using w pop
      by (cases rule: dispatch_round_cases [where p = Release and elapsed = el])
        (use Dispatch st in \<open>auto intro!: pins_cong [OF inv] simp: published_state_def snapshot_state_def\<close>)
  qed
next
  case (PollGpio res)
  then show ?thesis using st inv
    by (cases rule: gpio_round_cases [of Release res s]) (auto intro: pins_cong)
next
  case (Heartbeat now)
  obtain c where "locked_set_pin Release wc HEARTBEAT_PIN (\<not> pin_state s) (ctx s) = (c, False)"
    "heartbeat_round Release wc now s = Returns (s\<lparr>ctx := c, pin_state := \<not> pin_state s\<rparr>, half_period now (last_activity_ms (ctx s)))"
    using heartbeat_round_returns by blast
  with Heartbeat st show ?thesis by (intro pins_write [OF inv, where new = "[]"]) auto
next
  case (Receive cid msg now)
  obtain c b where d: "dispatch_client_msg Release wc api now cid msg (ctx s) = (c, b)" by force
  show ?thesis
  proof (cases "cid \<in> set (sessions s) \<and> (\<exists>n high. msg = SetGpio n high)")
    case True
    then obtain n high where "msg = SetGpio n high" by blast
    with True Receive st d show ?thesis
      by (intro pins_write [OF inv, where c = "(ctx s)\<lparr>last_activity_ms := wall_ms now\<rparr>" and new = "[(n, high)]"])
        (auto simp: receive_def dispatch_client_msg_def)
  next
    case False
    with Receive st d dispatch_frame(3,5) [OF d] show ?thesis
      by (intro pins_cong [OF inv]) (auto simp: receive_def split: ClientMsg.splits)
  qed
qed (use st in \<open>auto intro!: pins_cong [OF inv] simp: rx_arrives_def tx_takes_def accept_def accept_fails_def
       connected_def close_session_def split: option.splits\<close>)

section \<open>The clients\<close>

text \<open>What the threads do to the entries of connected clients apart from announcing
  audio: change a subscription, queue other messages, take messages off a queue.\<close>

fun announces :: "ServerMsg \<Rightarrow> u64 list" where
  "announces (AudioReady sq) = [sq]"
| "announces _ = []"

definition ready_seqs :: "ServerMsg list \<Rightarrow> u64 list" where
  "ready_seqs ms = concat (map announces ms)"

text \<open>Messages a client can read back, and those among them that do not announce audio.\<close>

definition sendable :: "ServerMsg \<Rightarrow> bool" where
  "sendable m \<longleftrightarrow> server_msg_ok m \<and> fits_frame encode_ServerMsg m"

definition plain_msg :: "ServerMsg \<Rightarrow> bool" where
  "plain_msg m \<longleftrightarrow> announces m = [] \<and> sendable m"

lemma sendable_simps [simp]:
  "sendable (AudioReady sq)" "sendable (RadioEv ev)" "sendable (Stats rx tx lat)" "sendable Pong"
  by (cases ev; simp add: sendable_def fits_frame_def to_vec_def push_u8_def push_u64_def push_u32_def
      encode_GpioState_def encode_LatencyStats_def)+

lemma plain_simps [simp]: "plain_msg (RadioEv ev)" "plain_msg (Stats rx tx lat)" "plain_msg Pong"
  by (simp_all add: plain_msg_def)

inductive reg_edit :: "ClientRegistry \<Rightarrow> ClientRegistry \<Rightarrow> bool" for r where
  same: "reg_edit r r"
| streams: "reg_edit r r' \<Longrightarrow> reg_edit r (update_streams cid st r')"
| some: "reg_edit r r' \<Longrightarrow> plain_msg m \<Longrightarrow> reg_edit r (send_where test m r')"
| one: "reg_edit r r' \<Longrightarrow> plain_msg m \<Longrightarrow> reg_edit r (send_to cid m r')"
| taken: "reg_edit r r' \<Longrightarrow> clients r' cid = Some h \<Longrightarrow>
    queued c = tl (queued (h_sender h)) \<or> queued c = [] \<Longrightarrow>
    reg_edit r (r'\<lparr>clients := (clients r')(cid \<mapsto> h\<lparr>h_sender := c\<rparr>)\<rparr>)"

lemma reg_edit_ok: "reg_edit r r' \<Longrightarrow> registry_ok n r \<Longrightarrow> registry_ok n r'"
proof (induction rule: reg_edit.induct)
  case (taken r' cid h c)
  then have ok: "registry_ok n r'" by simp
  from registry_okD [OF ok taken.hyps(2)] taken.hyps(3) have "handle_ok n cid (h\<lparr>h_sender := c\<rparr>)"
    by (auto simp: handle_ok_def)
  with registry_okD [OF ok] show ?case by (intro registry_okI [OF ok]) (auto split: if_splits)
qed (simp_all add: registry_ok_ops)

lemma reg_edit_dom: "reg_edit r r' \<Longrightarrow> dom (clients r') = dom (clients r)"
proof (induction rule: reg_edit.induct)
  case (taken r' cid h c)
  then show ?case by (auto simp: dom_def)
qed (auto simp: reg_simps dom_def split: if_splits)

text \<open>The audio announcements waiting for a client are strictly increasing and none is
  ahead of the counter.\<close>

definition queue_notices :: "u64 \<Rightarrow> channel \<Rightarrow> bool" where
  "queue_notices m c \<longleftrightarrow>
     sorted_wrt (<) (ready_seqs (queued c)) \<and> list_all (\<lambda>x. x \<le> m) (ready_seqs (queued c))"

definition notices_le :: "u64 \<Rightarrow> ClientRegistry \<Rightarrow> bool" where
  "notices_le m r \<longleftrightarrow> (\<forall>cid h. clients r cid = Some h \<longrightarrow> queue_notices m (h_sender h))"

lemma ready_seqs_simps [simp]:
  "ready_seqs [] = []" "ready_seqs (m # ms) = announces m @ ready_seqs ms"
  "ready_seqs (ms @ ns) = ready_seqs ms @ ready_seqs ns"
  by (simp_all add: ready_seqs_def)

lemma ready_seqs_send [simp]: "announces m = [] \<Longrightarrow> ready_seqs (queued (try_send m c)) = ready_seqs (queued c)"
  by (simp add: chan.put_contents)

lemma ready_seqs_tl: "\<exists>xs. ready_seqs ms = xs @ ready_seqs (tl ms)"
  by (cases ms) auto

lemma queue_notices_send: "announces m = [] \<Longrightarrow> queue_notices k (try_send m c) = queue_notices k c"
  by (simp add: queue_notices_def)

lemma queue_notices_tl:
  assumes "queue_notices m c" "queued c' = tl (queued c) \<or> queued c' = []"
  shows "queue_notices m c'"
proof -
  obtain xs where "ready_seqs (queued c) = xs @ ready_seqs (tl (queued c))"
    using ready_seqs_tl by blast
  with assms show ?thesis by (elim disjE) (simp_all add: queue_notices_def sorted_wrt_append)
qed

lemma queue_notices_announce:
  assumes "queue_notices m c" "m < sq"
  shows "queue_notices sq c" "queue_notices sq (try_send (AudioReady sq) c)"
proof -
  have *: "sorted_wrt (<) (ready_seqs (queued c))" "\<forall>x \<in> set (ready_seqs (queued c)). x < sq"
    using assms by (auto simp: queue_notices_def list_all_iff)
  then show "queue_notices sq c" by (auto simp: queue_notices_def list_all_iff)
  with * show "queue_notices sq (try_send (AudioReady sq) c)"
    by (simp add: queue_notices_def chan.put_contents sorted_wrt_append)
qed

lemma reg_edit_notices: "reg_edit r r' \<Longrightarrow> notices_le m r \<Longrightarrow> notices_le m r'"
proof (induction rule: reg_edit.induct)
  case (taken r' cid h c)
  then show ?case using queue_notices_tl [of m "h_sender h" c] by (simp add: notices_le_def)
qed (auto simp: notices_le_def reg_simps queue_notices_send plain_msg_def split: if_splits)

lemma notify_notices:
  assumes "notices_le m r" "m < sq"
  shows "notices_le sq (notify_audio_ready sq r)"
proof -
  have "queue_notices sq (h_sender h)" "queue_notices sq (try_send (AudioReady sq) (h_sender h))"
    if "clients r cid = Some h" for cid h
    using queue_notices_announce [OF _ assms(2)] assms(1) that by (auto simp: notices_le_def)
  then show ?thesis by (auto simp: notices_le_def notify_audio_ready_def reg_simps)
qed

text \<open>Every queued message can be read back by the client.\<close>

definition queues_sendable :: "ClientRegistry \<Rightarrow> bool" where
  "queues_sendable r \<longleftrightarrow> (\<forall>cid h. clients r cid = Some h \<longrightarrow> list_all sendable (queued (h_sender h)))"

lemma try_send_sendable:
  "sendable m \<Longrightarrow> list_all sendable (queued c) \<Longrightarrow> list_all sendable (queued (try_send m c))"
  by (simp add: chan.put_contents)

lemma list_all_tl: "list_all P xs \<Longrightarrow> list_all P (tl xs)"
  by (cases xs) simp_all

lemma reg_edit_sendable: "reg_edit r r' \<Longrightarrow> queues_sendable r \<Longrightarrow> queues_sendable r'"
proof (induction rule: reg_edit.induct)
  case (taken r' cid h c)
  then show ?case using list_all_tl [of sendable "queued (h_sender h)"]
    by (auto simp: queues_sendable_def)
qed (auto simp: queues_sendable_def reg_simps plain_msg_def try_send_sendable split: if_splits)

lemma notify_sendable: "queues_sendable r \<Longrightarrow> queues_sendable (notify_audio_ready sq r)"
  by (auto simp: queues_sendable_def notify_audio_ready_def reg_simps try_send_sendable)

lemma fold_broadcast_edit: "reg_edit r r' \<Longrightarrow> reg_edit r (fold broadcast_radio_event evs r')"
proof (induction evs arbitrary: r')
  case (Cons e evs)
  from Cons.IH [OF reg_edit.some [OF Cons.prems]] show ?case by (simp add: broadcast_radio_event_def)
qed simp

lemma reg_edit_once:
  "reg_edit r r" "reg_edit r (update_streams cid st r)"
  "plain_msg m \<Longrightarrow> reg_edit r (send_where test m r)" "plain_msg m \<Longrightarrow> reg_edit r (send_to cid m r)"
  by (intro reg_edit.intros; assumption)+

lemma dispatch_msg_edit:
  assumes "dispatch_client_msg p wc api now cid msg c = (c', b)"
  shows "reg_edit (registry c) (registry c')"
proof (cases msg)
  case (SetGpio n high)
  with assms locked_set_pin_frame(1) show ?thesis
    by (fastforce simp: dispatch_client_msg_def Let_def intro: reg_edit.same)
qed (use assms in \<open>auto simp: dispatch_client_msg_def Let_def split: if_splits prod.splits
       intro!: reg_edit_once\<close>)

lemma on_channel_edit:
  assumes "\<And>c. queued (f c) = tl (queued c) \<or> queued (f c) = []"
  shows "reg_edit (registry (ctx s)) (registry (ctx (on_channel cid f s)))"
  using assms reg_edit.taken [OF reg_edit.same]
  by (cases "clients (registry (ctx s)) cid") (auto simp: on_channel_def intro: reg_edit.same)

text \<open>The registry after any step but connecting and disconnecting.\<close>

fun membership :: "server_event \<Rightarrow> bool" where
  "membership Accept = True"
| "membership AcceptFails = True"
| "membership (Close cid) = True"
| "membership _ = False"

lemma membership_cases:
  assumes "membership e"
  obtains "e = Accept" | "e = AcceptFails" | cid where "e = Close cid"
  using assms by (cases e) auto

lemma registry_step:
  assumes w: "window_ok s" and st: "server_step p wc api e s = Returns s'"
    and e: "\<not> membership e"
  shows "(\<exists>f q. ring_pop api (rx_consumer s) = Some (f, q) \<and>
      reg_edit (notify_audio_ready (fst (shm_write (region s) f)) (registry (ctx s))) (registry (ctx s')) \<and>
      region s' = snd (shm_write (region s) f) \<and> dispatched s' = dispatched s @ [f] \<and>
      sessions s' = sessions s \<and> connects s' = connects s \<and> leaked s' = leaked s) \<or>
    reg_edit (registry (ctx s)) (registry (ctx s')) \<and> region s' = region s \<and> dispatched s' = dispatched s \<and>
      connects s' = connects s \<and> leaked s' = leaked s \<and> set (sessions s') \<subseteq> set (sessions s) \<and>
      (p = Release \<longrightarrow> sessions s' = sessions s)"
proof (cases e)
  case (Dispatch el)
  show ?thesis
  proof (cases "ring_pop api (rx_consumer s)")
    case None
    with Dispatch st show ?thesis by (simp add: dispatch_round_def reg_edit.same)
  next
    case (Some fq)
    obtain f q where "fq = (f, q)" by force
    with Some have pop: "ring_pop api (rx_consumer s) = Some (f, q)" by simp
    show ?thesis using w pop
      by (cases rule: dispatch_round_cases [where p = p and elapsed = el])
        (use Dispatch st pop in \<open>auto simp: published_state_def snapshot_state_def broadcast_stats_def
           intro!: reg_edit_once\<close>)
  qed
next
  case (PollGpio res)
  then show ?thesis using st
    by (cases rule: gpio_round_cases [of p res s]) (auto intro!: reg_edit.same fold_broadcast_edit)
next
  case (Heartbeat now)
  obtain c where c: "locked_set_pin p wc HEARTBEAT_PIN (\<not> pin_state s) (ctx s) = (c, False)"
    "heartbeat_round p wc now s = Returns (s\<lparr>ctx := c, pin_state := \<not> pin_state s\<rparr>, half_period now (last_activity_ms (ctx s)))"
    using heartbeat_round_returns by blast
  with Heartbeat st locked_set_pin_frame(1) [OF c(1)] show ?thesis by (auto intro: reg_edit.same)
next
  case (Receive cid msg now)
  obtain c b where d: "dispatch_client_msg p wc api now cid msg (ctx s) = (c, b)" by force
  have "p = Release \<longrightarrow> \<not> b" using d dispatch_release by (metis snd_conv)
  with Receive st d dispatch_msg_edit [OF d] show ?thesis
    by (intro disjI2) (cases "cid \<in> set (sessions s)"; auto simp: receive_def intro: reg_edit.same split: if_splits)
next
  case (WriterSends cid)
  with st on_channel_edit [of "\<lambda>c. c\<lparr>queued := tl (queued c)\<rparr>" s cid] show ?thesis by auto
next
  case (WriterFails cid)
  with st on_channel_edit [of "\<lambda>c. c\<lparr>queued := [], receiver_alive := False\<rparr>" s cid] show ?thesis by auto
qed (use st e in \<open>auto simp: rx_arrives_def tx_takes_def intro: reg_edit.same split: option.splits\<close>)

lemma clients_okD: "clients_ok p s \<Longrightarrow> registry_ok (connects s) (registry (ctx s))"
  by (simp add: clients_ok_def)

lemma connected_registry:
  assumes "clients_ok p s" "connects s + 1 < 2 ^ 64"
  shows "registry_ok (Suc (connects s)) (registry (connected (ctx s)))"
    "dom (clients (registry (connected (ctx s)))) =
      insert (fst (allocate_id (registry (ctx s)))) (dom (clients (registry (ctx s))))"
    "fst (allocate_id (registry (ctx s))) \<notin> dom (clients (registry (ctx s)))"
proof -
  show "registry_ok (Suc (connects s)) (registry (connected (ctx s)))"
    unfolding connected_def
    using registry_ok_connect [OF clients_okD [OF assms(1)], of "fst (allocate_id (registry (ctx s)))"
        "snd (allocate_id (registry (ctx s)))" sync_channel flags_empty] assms(2)
    by (simp add: sync_channel_def)
  show "dom (clients (registry (connected (ctx s)))) =
      insert (fst (allocate_id (registry (ctx s)))) (dom (clients (registry (ctx s))))"
    by (auto simp: connected_def reg_simps allocate_id_simps split: if_splits)
  show "fst (allocate_id (registry (ctx s))) \<notin> dom (clients (registry (ctx s)))"
    using fresh_id [OF clients_okD [OF assms(1)] assms(2)] by auto
qed

lemma clients_accept:
  assumes "clients_ok p s" "connects s + 1 < 2 ^ 64"
  shows "clients_ok p (accept s)" "p = Debug \<Longrightarrow> clients_ok p (accept_fails s)"
proof -
  note c = connected_registry [OF assms]
  show "clients_ok p (accept s)" using c assms by (auto simp: clients_ok_def accept_def)
  have "dom (clients (hang_up i r)) = dom (clients r)" for i r by (auto simp: reg_simps dom_def split: if_splits)
  with c assms registry_ok_ops(5) [OF c(1)] show "clients_ok p (accept_fails s)" if "p = Debug"
    using that by (auto simp: clients_ok_def accept_fails_def Let_def)
qed

lemma clients_close:
  assumes "clients_ok p s" "cid \<in> set (sessions s)"
  shows "clients_ok p (close_session cid s)"
proof -
  have "dom (clients (unregister cid r)) = dom (clients r) - {cid}" for r by (simp add: unregister_def)
  with registry_ok_ops(1) [OF clients_okD [OF assms(1)], of cid] assms show ?thesis
    unfolding clients_ok_def close_session_def by simp blast
qed

lemma clients_step:
  assumes w: "window_ok s" and inv: "clients_ok p s" and ev: "event_ok e s"
    and st: "server_step p wc api e s = Returns s'"
  shows "clients_ok p s'"
proof (cases "membership e")
  case True
  then show ?thesis
    by (cases rule: membership_cases) (use st ev inv clients_accept [OF inv] clients_close [OF inv] in auto)
next
  case False
  have n: "registry_ok (connects s) (notify_audio_ready sq (registry (ctx s)))"
    "dom (clients (notify_audio_ready sq (registry (ctx s)))) = dom (clients (registry (ctx s)))" for sq
    using registry_ok_ops(3) [OF clients_okD [OF inv]]
    by (simp_all add: notify_audio_ready_def) (auto simp: reg_simps)
  have edit: ?thesis if r: "reg_edit r1 (registry (ctx s'))" "registry_ok (connects s) r1"
      "dom (clients r1) = dom (clients (registry (ctx s)))" and "connects s' = connects s" "leaked s' = leaked s"
      "set (sessions s') \<subseteq> set (sessions s)" "p = Release \<longrightarrow> sessions s' = sessions s" for r1
    using reg_edit_ok [OF r(1,2)] reg_edit_dom [OF r(1)] that inv by (auto simp: clients_ok_def)
  from registry_step [OF w st False] show ?thesis
    by (elim disjE exE conjE) (auto intro: edit [OF _ n] edit [OF _ clients_okD [OF inv] refl])
qed

definition notices_ok :: "'r server \<Rightarrow> bool" where
  "notices_ok s \<longleftrightarrow>
     (2 * length (dispatched s) < 2 ^ 64 \<longrightarrow> notices_le (of_nat (2 * length (dispatched s))) (registry (ctx s)))"

lemma notices_step:
  assumes w: "window_ok s" and a: "audio_path_ok contents s" and inv: "notices_ok s"
    and st: "server_step p wc api e s = Returns s'"
  shows "notices_ok s'"
proof (cases "membership e")
  case True
  then show ?thesis
    by (cases rule: membership_cases)
      (use st inv in \<open>auto simp: notices_ok_def notices_le_def accept_def accept_fails_def close_session_def connected_def
         reg_simps allocate_id_simps sync_channel_def queue_notices_def split: if_splits\<close>)
next
  case False
  with registry_step [OF w st] consider
    (audio) f where "reg_edit (notify_audio_ready (fst (shm_write (region s) f)) (registry (ctx s))) (registry (ctx s'))"
      "dispatched s' = dispatched s @ [f]"
  | (plain) "reg_edit (registry (ctx s)) (registry (ctx s'))" "dispatched s' = dispatched s"
    by blast
  then show ?thesis
  proof cases
    case audio
    let ?d = "length (dispatched s)"
    have "fst (shm_write (region s) f) = of_nat (2 * Suc ?d)"
      using a by (simp add: audio_path_ok_def shm_write_def Let_def)
    moreover have "notices_le (of_nat (2 * Suc ?d)) (notify_audio_ready (of_nat (2 * Suc ?d)) (registry (ctx s)))"
      if "2 * Suc ?d < 2 ^ 64"
    proof (rule notify_notices)
      show "notices_le (of_nat (2 * ?d)) (registry (ctx s))" using inv that by (simp add: notices_ok_def)
      have "unat (of_nat (2 * ?d) :: u64) = 2 * ?d" "unat (of_nat (2 * Suc ?d) :: u64) = 2 * Suc ?d"
        using that by (intro unat_of_nat_small; simp)+
      then show "(of_nat (2 * ?d) :: u64) < of_nat (2 * Suc ?d)" by (simp add: word_less_nat_alt del: of_nat_mult of_nat_Suc mult_Suc_right)
    qed
    ultimately show ?thesis
      using audio reg_edit_notices by (auto simp: notices_ok_def)
  next
    case plain
    with inv reg_edit_notices show ?thesis by (auto simp: notices_ok_def)
  qed
qed

lemma sendable_step:
  assumes w: "window_ok s" and inv: "queues_sendable (registry (ctx s))"
    and st: "server_step p wc api e s = Returns s'"
  shows "queues_sendable (registry (ctx s'))"
proof (cases "membership e")
  case True
  then show ?thesis
    by (cases rule: membership_cases)
      (use st inv in \<open>auto simp: queues_sendable_def accept_def accept_fails_def close_session_def connected_def
         reg_simps allocate_id_simps sync_channel_def split: if_splits\<close>)
next
  case False
  from registry_step [OF w st this] show ?thesis
    by (elim disjE exE conjE) (use inv notify_sendable reg_edit_sendable in blast)+
qed

section \<open>Reachable states\<close>

definition server_ok :: "profile \<Rightarrow> ('r \<Rightarrow> AudioFrame list) \<Rightarrow> 'r server \<Rightarrow> bool" where
  "server_ok p contents s \<longleftrightarrow>
     audio_path_ok contents s \<and> window_ok s \<and> clients_ok p s \<and> notices_ok s \<and>
     queues_sendable (registry (ctx s)) \<and> (p = Release \<longrightarrow> pins_ok s)"

lemma server_ok_init:
  assumes "contents rx = []" "contents tx = []"
  shows "server_ok p contents (server_init fd (replicate SHMEM_SIZE 0) rx tx)"
proof -
  have z: "seq_load (replicate SHMEM_SIZE 0) = 0"
    by (simp add: seq_load_def SHMEM_SIZE_def of_le_bytes_replicate_0)
  have "data_bytes (replicate SHMEM_SIZE 0) = frame_mem AudioFrame_default"
    by (simp add: data_bytes_def SHMEM_SIZE_def frame_mem_default layout)
  then have "read_frame_pass (replicate SHMEM_SIZE 0) = Some AudioFrame_default"
    by (simp add: read_frame_pass_def z Let_def mem_frame_frame_mem)
  then have "audio_path_ok contents (server_init fd (replicate SHMEM_SIZE 0) rx tx)"
    using assms z by (simp add: audio_path_ok_def server_init_def)
  moreover have "hist_abs hist_new []" by (simp add: hist_abs_def hist_new_def)
  ultimately show ?thesis
    using registry_ok_new
    by (simp add: server_ok_def window_ok_def clients_ok_def notices_ok_def pins_ok_def reports_follow_def register_shows_def server_init_def
        notices_le_def queues_sendable_def ClientRegistry_new_def HidGpio_new_def)
qed

lemma server_ok_step:
  assumes "ring_fifo api contents RING_CAPACITY" "server_ok p contents s" "event_ok e s"
    "server_step p wc api e s = Returns s'"
  shows "server_ok p contents s'"
  using assms audio_path_step [OF assms(1) _ _ assms(3,4)] window_step [OF _ assms(4)]
    clients_step [OF _ _ assms(3,4)] notices_step [OF _ _ _ assms(4)] sendable_step [OF _ _ assms(4)]
    pins_step [of s wc api e s']
  unfolding server_ok_def by blast

lemma server_reach_ok:
  assumes "server_reach p wc api s0 s" "ring_fifo api contents RING_CAPACITY" "server_ok p contents s0"
  shows "server_ok p contents s"
  using assms(1)
proof (induction rule: server_reach.induct)
  case start
  show ?case by (fact assms(3))
next
  case (step s e s')
  then show ?case using server_ok_step [OF assms(2)] by blast
qed

lemmas reach_init_ok = server_reach_ok [OF _ _ server_ok_init]

lemma server_step_returns:
  assumes "window_ok s" "\<not> (p = Release \<and> e = AcceptFails)"
  shows "\<exists>s'. server_step p wc api e s = Returns s'"
proof (cases e)
  case (Dispatch el)
  show ?thesis
  proof (cases "ring_pop api (rx_consumer s)")
    case None
    with Dispatch show ?thesis by (simp add: dispatch_round_def)
  next
    case (Some fq)
    obtain f q where "fq = (f, q)" by force
    with Some have pop: "ring_pop api (rx_consumer s) = Some (f, q)" by simp
    show ?thesis using assms(1) pop
      by (cases rule: dispatch_round_cases [where p = p and elapsed = el]) (use Dispatch in auto)
  qed
next
  case (PollGpio res)
  then show ?thesis by (cases rule: gpio_round_cases [of p res s]) auto
next
  case (Heartbeat now)
  obtain c where "heartbeat_round p wc now s = Returns (s\<lparr>ctx := c, pin_state := \<not> pin_state s\<rparr>, half_period now (last_activity_ms (ctx s)))"
    using heartbeat_round_returns by blast
  with Heartbeat show ?thesis by simp
qed (use assms(2) in \<open>cases p; simp\<close>)+

text \<open>A message makes its handler panic in the debug profile, and then only by a pin number
  out of range.\<close>

lemma dispatch_panics_iff:
  "snd (dispatch_client_msg p wc api now cid msg c) \<longleftrightarrow>
     p = Debug \<and> \<not> poisoned (gpio c) \<and> (\<exists>n high. msg = SetGpio n high \<and> 4 \<le> n)"
proof (cases msg)
  case (SetGpio n high)
  have "set_pin p wc g n high = Panics \<longleftrightarrow> p = Debug \<and> 4 \<le> n" for g
  proof (cases "p = Release \<or> n < 4")
    case True
    with set_pin_returns [of p n wc g high] show ?thesis by auto
  next
    case False
    then show ?thesis by (cases p) (auto simp: set_pin_def debug_assert_def)
  qed
  with SetGpio show ?thesis
    by (auto simp: dispatch_client_msg_def locked_set_pin_def Let_def split: outcome.splits)
qed (simp_all add: dispatch_client_msg_def Let_def split_beta)

text \<open>The dispatch and poller threads configure themselves, at the priorities and on the
  processors of the sources, and go on whatever the kernel answers.\<close>

lemma daemon_threads_configured:
  assumes "cpu_lib_ok lib"
  shows "\<exists>ps'. dispatch_thread_rt k lib ps = Returns ps' \<and> trace ps' = trace ps @ rt_calls 88 1"
    "\<exists>ps'. gpio_thread_rt k lib ps = Returns ps' \<and> trace ps' = trace ps @ rt_calls 85 2"
  using configure_rt_calls [OF assms, of 1 k 88 ps] configure_rt_calls [OF assms, of 2 k 85 ps]
  by (auto simp: dispatch_thread_rt_def gpio_thread_rt_def)

section \<open>A concrete run\<close>

definition demo_server0 :: "AudioFrame list server" where
  "demo_server0 = server_init 5 (replicate SHMEM_SIZE 0) [] []"

lemma demo_server_reach:
  "\<exists>s. server_reach p (\<lambda>_. Inr 4) list_ring demo_server0 s \<and> dispatched s = [AudioFrame_default] \<and>
     sessions s = [1]"
proof -
  let ?wc = "\<lambda>_ :: ctl_request. (Inr 4 :: RusbError + nat)"
  let ?s1 = "accept (rx_arrives list_ring AudioFrame_default demo_server0)"
  have "server_reach p ?wc list_ring demo_server0 (rx_arrives list_ring AudioFrame_default demo_server0)"
    by (rule server_reach.step [OF server_reach.start, where e = "RxFrame AudioFrame_default"]) simp_all
  then have r1: "server_reach p ?wc list_ring demo_server0 ?s1"
    by (rule server_reach.step [where e = Accept])
      (simp_all add: demo_server0_def server_init_def rx_arrives_def list_ring_def)
  have "server_ok p (\<lambda>q. q) ?s1"
    using server_reach_ok [OF r1 list_ring_fifo] server_ok_init [of "\<lambda>q. q" "[]" "[]"]
    by (simp add: demo_server0_def)
  then have w: "window_ok ?s1" by (simp add: server_ok_def)
  have pop: "ring_pop list_ring (rx_consumer ?s1) = Some (AudioFrame_default, [])"
    by (simp add: accept_def rx_arrives_def demo_server0_def server_init_def list_ring_def)
  have f: "dispatched ?s1 = []" "sessions ?s1 = [1]"
    by (simp_all add: accept_def rx_arrives_def demo_server0_def server_init_def list_ring_def
        allocate_id_def ClientRegistry_new_def)
  obtain s2 where "dispatch_round p list_ring 7 ?s1 = Returns (s2, 0)" "dispatched s2 = [AudioFrame_default]"
    "sessions s2 = [1]"
    using w pop by (cases rule: dispatch_round_cases [where p = p and elapsed = 7])
      (auto simp: published_state_def snapshot_state_def f)
  then show ?thesis using server_reach.step [OF r1, where e = "Dispatch 7" and s' = s2] by auto
qed

section \<open>Properties\<close>

text \<open>C4: The received audio, in every state the daemon can reach (all threads and
  clients interleaved in any order, either build profile): every frame the receive
  ring accepted was published or is still waiting, in order and without duplicates;
  a client that maps the shared region reads exactly the frame published last, under
  the counter value twice the number of publications; and the receive overrun
  counter is the number of frames lost.\<close>

theorem published_audio_correct:
  assumes "ring_fifo api contents RING_CAPACITY" and "contents rx = []" and "contents tx = []"
    and "server_reach p wc api (server_init fd (replicate SHMEM_SIZE 0) rx tx) s"
  shows "accepted s = dispatched s @ contents (rx_consumer s) \<and>
    read_frame_pass (region s) = Some (last (AudioFrame_default # dispatched s)) \<and>
    current_seq (region s) = of_nat (2 * length (dispatched s)) \<and>
    length (accepted s) \<le> offered s \<and> rx_xruns (ctx s) = of_nat (offered s - length (accepted s))"
  using reach_init_ok [where contents = contents, OF assms(4,1-3)]
  by (auto simp: server_ok_def audio_path_ok_def current_seq_def)

theorem published_audio_correct_witness:
  "\<exists>s. server_reach Debug (\<lambda>_. Inr 4) list_ring demo_server0 s \<and>
     read_frame_pass (region s) = Some (last [AudioFrame_default, AudioFrame_default]) \<and>
     current_seq (region s) = 2"
proof -
  obtain s where s: "server_reach Debug (\<lambda>_. Inr 4) list_ring demo_server0 s"
    "dispatched s = [AudioFrame_default]"
    using demo_server_reach by blast
  show ?thesis
    using published_audio_correct [OF list_ring_fifo refl refl s(1) [unfolded demo_server0_def]] s by auto
qed



text \<open>C30: The latency statistics a client can ask for are always those of a complete
  window: the defaults before the first one, afterwards exactly what sorting the at most
  5000 dispatch times recorded between the last two snapshots would give (smallest,
  largest, and the power-of-two bound above the value of rank 99 percent).\<close>

theorem latency_report_correct:
  assumes "ring_fifo api contents RING_CAPACITY" and "contents rx = []" and "contents tx = []"
    and "server_reach p wc api (server_init fd (replicate SHMEM_SIZE 0) rx tx) s"
  shows "length (last_window s) \<le> 5000 \<and>
    (if last_window s = [] then last_latency (ctx s) = LatencyStats_default
     else last_latency (ctx s) = reference_stats (last_window s))"
  using reach_init_ok [where contents = contents, OF assms(4,1-3)]
  by (simp add: server_ok_def window_ok_def)

theorem latency_report_correct_witness:
  "\<exists>s. server_reach Debug (\<lambda>_. Inr 4) list_ring demo_server0 s \<and> length (last_window s) \<le> 5000 \<and>
     (if last_window s = [] then last_latency (ctx s) = LatencyStats_default
      else last_latency (ctx s) = reference_stats (last_window s))"
proof -
  obtain s where s: "server_reach Debug (\<lambda>_. Inr 4) list_ring demo_server0 s"
    using demo_server_reach by blast
  show ?thesis
    using latency_report_correct [OF list_ring_fifo refl refl s [unfolded demo_server0_def]] s by blast
qed

text \<open>C5: The transmitter is keyed only on request (release build). In every reachable
  state the PTT bit of the output register, like every other bit but the heartbeat
  LED's, has the level a client last requested for a pin number that is equal to it
  modulo eight, and is low if no client ever asked: neither the heartbeat nor any other
  thread keys the transmitter. The direction register never changes. The same holds of
  every report the device was ever sent: each shows the requests made when it was sent,
  in the order they were made, and the last report shows them all.\<close>

theorem ptt_only_on_request:
  assumes "ring_fifo api contents RING_CAPACITY" and "contents rx = []" and "contents tx = []"
    and "server_reach Release wc api (server_init fd (replicate SHMEM_SIZE 0) rx tx) s"
  shows "gpio_dir (guarded (gpio (ctx s))) = GPIO_DIR_RIM_LITE \<and>
    (\<forall>b<8. b \<noteq> 3 \<longrightarrow> bit (gpio_out (guarded (gpio (ctx s)))) b =
       last_level b False (map (\<lambda>(n, high). (n mod 8, high)) (pin_ops s))) \<and>
    reports_follow (pin_ops s) (ctl_log (ctx s))"
  using reach_init_ok [where contents = contents, OF assms(4,1-3)]
  by (simp add: server_ok_def pins_ok_def register_shows_def)

theorem ptt_only_on_request_witness:
  "\<exists>s. server_reach Release (\<lambda>_. Inr 4) list_ring demo_server0 s \<and>
     gpio_dir (guarded (gpio (ctx s))) = GPIO_DIR_RIM_LITE \<and> reports_follow (pin_ops s) (ctl_log (ctx s))"
proof -
  obtain s where s: "server_reach Release (\<lambda>_. Inr 4) list_ring demo_server0 s"
    using demo_server_reach by blast
  show ?thesis
    using ptt_only_on_request [OF list_ring_fifo refl refl s [unfolded demo_server0_def]] s by blast
qed

text \<open>C18: The registry in every reachable state: every connection has its entry under
  its own id; in a release build the entries are exactly the open connections; in a debug
  build a connection whose writer thread could not be started keeps its entry for ever,
  without being open; no queue holds more than 128 messages; and the audio announcements waiting for a
  client have strictly increasing numbers that never run ahead of the shared counter
  (for the first $2^{63}$ frames), so a client that skips old numbers loses none.\<close>

theorem registry_consistent:
  assumes "ring_fifo api contents RING_CAPACITY" and "contents rx = []" and "contents tx = []"
    and "server_reach p wc api (server_init fd (replicate SHMEM_SIZE 0) rx tx) s"
  shows "set (sessions s) \<subseteq> dom (clients (registry (ctx s))) \<and>
    (p = Release \<longrightarrow> dom (clients (registry (ctx s))) = set (sessions s)) \<and>
    set (leaked s) \<subseteq> dom (clients (registry (ctx s))) - set (sessions s) \<and>
    (\<forall>cid h. clients (registry (ctx s)) cid = Some h \<longrightarrow> h_id h = cid \<and> length (queued (h_sender h)) \<le> 128 \<and>
       (length (dispatched s) < 2 ^ 63 \<longrightarrow>
          sorted_wrt (<) (ready_seqs (queued (h_sender h))) \<and>
          (\<forall>x \<in> set (ready_seqs (queued (h_sender h))). x \<le> current_seq (region s))))"
proof -
  have ok: "server_ok p contents s" using reach_init_ok [where contents = contents, OF assms(4,1-3)] .
  then have c: "clients_ok p s" and sq: "current_seq (region s) = of_nat (2 * length (dispatched s))"
    and n: "notices_ok s"
    by (simp_all add: server_ok_def audio_path_ok_def current_seq_def)
  have "h_id h = cid \<and> length (queued (h_sender h)) \<le> 128" if "clients (registry (ctx s)) cid = Some h" for cid h
    using registry_okD [OF clients_okD [OF c] that] by (simp add: handle_ok_def CHANNEL_BOUND_def)
  moreover have "sorted_wrt (<) (ready_seqs (queued (h_sender h))) \<and>
      (\<forall>x \<in> set (ready_seqs (queued (h_sender h))). x \<le> current_seq (region s))"
    if "clients (registry (ctx s)) cid = Some h" "length (dispatched s) < 2 ^ 63" for cid h
  proof -
    have "2 * length (dispatched s) < 2 ^ 64" using that(2) by simp
    with n that(1) sq show ?thesis
      by (simp add: notices_ok_def notices_le_def queue_notices_def list_all_iff)
  qed
  ultimately show ?thesis using c by (auto simp: clients_ok_def)
qed

theorem registry_consistent_witness:
  "\<exists>s. server_reach Release (\<lambda>_. Inr 4) list_ring demo_server0 s \<and>
     dom (clients (registry (ctx s))) = {1}"
proof -
  obtain s where s: "server_reach Release (\<lambda>_. Inr 4) list_ring demo_server0 s" "sessions s = [1]"
    using demo_server_reach by blast
  show ?thesis
    using registry_consistent [OF list_ring_fifo refl refl s(1) [unfolded demo_server0_def]] s by auto
qed

text \<open>The heartbeat: a round sets the LED bit to the opposite of the thread's last
  level and leaves every other output bit, among them PTT, as it is; the pause before it is 250 ms within two seconds of the
  last client message (or when the clock went backwards) and 500 ms otherwise.\<close>

lemma heartbeat_toggles_led:
  assumes "\<not> poisoned (gpio (ctx s))"
  shows "\<exists>s' pause. heartbeat_round p wc now s = Returns (s', pause) \<and>
    bit (gpio_out (guarded (gpio (ctx s')))) 3 = (\<not> pin_state s) \<and> pin_state s' = (\<not> pin_state s) \<and>
    (\<forall>b<8. b \<noteq> 3 \<longrightarrow> bit (gpio_out (guarded (gpio (ctx s')))) b = bit (gpio_out (guarded (gpio (ctx s)))) b) \<and>
    pause = (if unat (wall_ms now) < unat (last_activity_ms (ctx s)) + 2000 then 250 else 500)"
proof -
  let ?g = "guarded (gpio (ctx s))"
  obtain g req res where g: "set_pin p wc ?g HEARTBEAT_PIN (\<not> pin_state s) = Returns (g, req, res)"
    using set_pin_returns [of p HEARTBEAT_PIN wc ?g "\<not> pin_state s"] by (auto simp: HEARTBEAT_PIN_def)
  have u: "unat HEARTBEAT_PIN mod 8 = 3" by (simp add: HEARTBEAT_PIN_def)
  have "half_period now (last_activity_ms (ctx s)) =
      (if unat (wall_ms now) < unat (last_activity_ms (ctx s)) + 2000 then 250 else 500)"
    by (auto simp: half_period_def saturating_sub_def word_less_nat_alt unat_sub_if')
  then show ?thesis
    using g assms set_pin_effect(1) [OF g] u
    by (simp add: heartbeat_round_def locked_set_pin_def Let_def)
qed

text \<open>C36: A pin number out of range in a debug build: one such request from a client
  kills its handler thread while its entry stays in the registry, and poisons the GPIO
  mutex, after which every pin write of every client and of the heartbeat is skipped
  and the output register keeps its last value, whatever PTT was.\<close>

theorem debug_bad_pin_freezes_gpio:
  assumes "cid \<in> set (sessions s)" and "\<not> poisoned (gpio (ctx s))" and "4 \<le> n"
    and "server_step Debug wc api (Receive cid (SetGpio n high) now) s = Returns s'"
  shows "cid \<notin> set (sessions s') \<and> clients (registry (ctx s')) = clients (registry (ctx s)) \<and>
    gpio_out (guarded (gpio (ctx s'))) = gpio_out (guarded (gpio (ctx s))) \<and>
    locked_set_pin p wc' m level (ctx s') = (ctx s', False)"
proof -
  have "set_pin Debug wc (guarded (gpio (ctx s))) n high = Panics"
    using assms(3) by (auto simp: set_pin_def debug_assert_def)
  with assms(1,2,4) show ?thesis
    by (auto simp: receive_def dispatch_client_msg_def locked_set_pin_def Let_def)
qed

theorem debug_bad_pin_freezes_gpio_witness:
  "\<exists>s'. server_step Debug (\<lambda>_. Inr 4) list_ring (Receive 1 (SetGpio 200 True) None) (accept demo_server0) = Returns s' \<and>
     1 \<notin> set (sessions s') \<and> clients (registry (ctx s')) = clients (registry (ctx (accept demo_server0)))"
proof -
  let ?s = "accept demo_server0"
  have a: "1 \<in> set (sessions ?s)" "\<not> poisoned (gpio (ctx ?s))"
    by (simp_all add: accept_def connected_def demo_server0_def server_init_def allocate_id_def ClientRegistry_new_def)
  obtain s' where "server_step Debug (\<lambda>_. Inr 4) list_ring (Receive 1 (SetGpio 200 True) None) ?s = Returns s'"
    by simp
  with debug_bad_pin_freezes_gpio [OF a _ this] show ?thesis by simp
qed

text \<open>C26: Everything the daemon queues can be sent and understood: in every reachable state
  the messages waiting for any client are well formed and within the size limit, so the
  client's writer thread, run over the queue, writes bytes from which the client reads
  exactly these messages, in order, and nothing else.\<close>

theorem queued_messages_readable:
  assumes "ring_fifo api contents RING_CAPACITY" and "contents rx = []" and "contents tx = []"
    and "server_reach p wc api (server_init fd (replicate SHMEM_SIZE 0) rx tx) s"
    and "clients (registry (ctx s)) cid = Some h"
  shows "\<exists>t. writer_thread (h_sender h) \<lparr>outp = [], out_limit = None\<rparr> = (Inr (), t) \<and>
    fst (read_loop read_server_msg (Suc (length (queued (h_sender h)))) \<lparr>inp = outp t, in_end = None\<rparr>) =
      queued (h_sender h)"
proof -
  let ?q = "queued (h_sender h)"
  have "list_all sendable ?q"
    using reach_init_ok [where contents = contents, OF assms(4,1-3)] assms(5)
    by (auto simp: server_ok_def queues_sendable_def)
  then have ok: "list_all server_msg_ok ?q" "list_all (fits_frame encode_ServerMsg) ?q"
    by (auto simp: list_all_iff sendable_def)
  have "writer_thread (h_sender h) \<lparr>outp = [], out_limit = None\<rparr> = (Inr (), \<lparr>outp = to_client.wire ?q, out_limit = None\<rparr>)"
    unfolding writer_thread_def by (simp add: to_client.write_seq_appends)
  moreover have "fst (read_loop read_server_msg (Suc (length ?q)) \<lparr>inp = to_client.wire ?q, in_end = None\<rparr>) = ?q"
    by (simp only: to_client.read_loop_wire [OF ok] fst_conv)
  ultimately show ?thesis by (auto simp del: read_loop.simps)
qed

theorem queued_messages_readable_witness:
  "\<exists>s h t. server_reach Debug (\<lambda>_. Inr 4) list_ring demo_server0 s \<and> clients (registry (ctx s)) 1 = Some h \<and>
    writer_thread (h_sender h) \<lparr>outp = [], out_limit = None\<rparr> = (Inr (), t) \<and>
    fst (read_loop read_server_msg (Suc (length (queued (h_sender h)))) \<lparr>inp = outp t, in_end = None\<rparr>) =
      queued (h_sender h)"
proof -
  obtain s where s: "server_reach Debug (\<lambda>_. Inr 4) list_ring demo_server0 s" "sessions s = [1]"
    using demo_server_reach by blast
  have "server_ok Debug (\<lambda>q. q) s"
    using server_reach_ok [OF s(1) list_ring_fifo] server_ok_init [of "\<lambda>q. q" "[]" "[]"] by (simp add: demo_server0_def)
  with s(2) obtain h where h: "clients (registry (ctx s)) 1 = Some h" by (auto simp: server_ok_def clients_ok_def)
  from queued_messages_readable [OF list_ring_fifo refl refl s(1) [unfolded demo_server0_def] h] s(1) h
  show ?thesis by blast
qed

text \<open>The events of one connection: it is accepted, its messages are received at the times
  of the clock, it closes.\<close>

fun receives :: "ClientId \<Rightarrow> (nat \<Rightarrow> nat option) \<Rightarrow> ClientMsg list \<Rightarrow> server_event list" where
  "receives cid clock [] = []"
| "receives cid clock (m # ms) = Receive cid m (clock 0) # receives cid (\<lambda>k. clock (Suc k)) ms"

lemma receives_run:
  assumes "dispatch_seq Release wc api clock cid ms (ctx s) = (c', b)" "cid \<in> set (sessions s)"
  shows "\<exists>s'. ofold (\<lambda>s e. server_step Release wc api e s) s (receives cid clock ms) = Returns s' \<and>
    ctx s' = c' \<and> sessions s' = sessions s"
  using assms
proof (induction ms arbitrary: s clock)
  case Nil
  then show ?case by simp
next
  case (Cons m ms)
  obtain c1 b1 where d: "dispatch_client_msg Release wc api (clock 0) cid m (ctx s) = (c1, b1)" by force
  then have nb: "\<not> b1" using dispatch_release by (metis snd_conv)
  let ?s1 = "receive Release wc api cid m (clock 0) s"
  have s1: "ctx ?s1 = c1" "sessions ?s1 = sessions s" using d nb by (simp_all add: receive_def)
  then have "dispatch_seq Release wc api (\<lambda>k. clock (Suc k)) cid ms (ctx ?s1) = (c', b)"
    using Cons.prems(1) d nb by simp
  from Cons.IH [OF this] Cons.prems(2) s1 show ?case by simp
qed

text \<open>C16: The daemon's event system describes the connection handler exactly: a whole
  connection run by \<open>handle_client\<close> in a release build on the bytes of any list of
  messages leaves the shared state that the events of the connection (accepted, one event
  per message, closed) leave when no other event comes between them; and after them the
  daemon has the same open connections as before.\<close>

theorem session_is_event_run:
  assumes "list_all client_msg_ok ms" and "list_all (fits_frame encode_ClientMsg) ms"
    and "cid = fst (allocate_id (registry (ctx s)))" and "cid \<notin> set (sessions s)"
  shows "\<exists>s'. ofold (\<lambda>s e. server_step Release wc api e s) s (Accept # receives cid clock ms @ [Close cid]) = Returns s' \<and>
    handle_client Release wc api clock True True True \<lparr>inp = to_server.wire ms, in_end = None\<rparr> (ctx s) = Returns (ctx s', False) \<and>
    sessions s' = sessions s"
proof -
  have w: "write_seq write_client_msg ms \<lparr>outp = [], out_limit = None\<rparr> =
      (Inr (), \<lparr>outp = to_server.wire ms, out_limit = None\<rparr>)"
    by (simp add: to_server.write_seq_appends)
  obtain c2 where c2: "dispatch_seq Release wc api clock cid ms (connected (ctx s)) = (c2, False)"
    "handle_client Release wc api clock True True True \<lparr>inp = to_server.wire ms, in_end = None\<rparr> (ctx s) =
       Returns (c2\<lparr>registry := unregister cid (registry c2)\<rparr>, False)"
    using handle_client_sent [OF assms(1,2) w, of Release wc api clock "ctx s"] assms(3) by auto
  have a: "ctx (accept s) = connected (ctx s)" "sessions (accept s) = cid # sessions s"
    using assms(3) by (simp_all add: accept_def)
  from receives_run [of wc api clock cid ms "accept s"] c2(1) a obtain s1 where
    s1: "ofold (\<lambda>s e. server_step Release wc api e s) (accept s) (receives cid clock ms) = Returns s1"
      "ctx s1 = c2" "sessions s1 = cid # sessions s"
    by auto
  have "ctx (close_session cid s1) = c2\<lparr>registry := unregister cid (registry c2)\<rparr>"
    "sessions (close_session cid s1) = sessions s"
    using s1 assms(4) by (simp_all add: close_session_def)
  with s1 c2(2) show ?thesis by (simp add: ofold_append)
qed

theorem session_is_event_run_witness:
  "\<exists>s'. ofold (\<lambda>s e. server_step Release (\<lambda>_. Inr 4) list_ring e s) demo_server0
      (Accept # receives 1 (\<lambda>_. None) [Ping, SetGpio 0 True] @ [Close 1]) = Returns s' \<and>
    handle_client Release (\<lambda>_. Inr 4) list_ring (\<lambda>_. None) True True True
      \<lparr>inp = to_server.wire [Ping, SetGpio 0 True], in_end = None\<rparr> (ctx demo_server0) = Returns (ctx s', False)"
proof -
  have "list_all client_msg_ok [Ping, SetGpio 0 True]" "list_all (fits_frame encode_ClientMsg) [Ping, SetGpio 0 True]"
    by (simp_all add: fits_client_small)
  moreover have "1 = fst (allocate_id (registry (ctx demo_server0)))" "1 \<notin> set (sessions demo_server0)"
    by (simp_all add: demo_server0_def server_init_def allocate_id_def ClientRegistry_new_def)
  ultimately show ?thesis using session_is_event_run [of "[Ping, SetGpio 0 True]" 1 demo_server0] by blast
qed

text \<open>The dispatch thread alone: a round publishes the oldest waiting frame, if there is one.\<close>

lemma dispatch_publishes:
  assumes fifo: "ring_fifo api contents RING_CAPACITY" and ok: "server_ok p contents s"
    and st: "server_step p wc api (Dispatch el) s = Returns s'"
  shows "dispatched s' = dispatched s @ take 1 (contents (rx_consumer s)) \<and>
    contents (rx_consumer s') = drop 1 (contents (rx_consumer s)) \<and> accepted s' = accepted s"
proof (cases "ring_pop api (rx_consumer s)")
  case None
  then have "contents (rx_consumer s) = []" by (rule ring_pop_None [OF fifo])
  with None st show ?thesis by (simp add: dispatch_round_def)
next
  case (Some fq)
  obtain f q where fq: "fq = (f, q)" by force
  note pop = Some [unfolded fq]
  have w: "window_ok s" using ok by (simp add: server_ok_def)
  show ?thesis using w pop
    by (cases rule: dispatch_round_cases [where p = p and elapsed = el])
      (use st ring_popD [OF fifo pop] in \<open>auto simp: published_state_def snapshot_state_def\<close>)
qed

lemma dispatch_rounds_publish:
  assumes fifo: "ring_fifo api contents RING_CAPACITY" and "server_ok p contents s"
  shows "\<exists>s'. ofold (\<lambda>s el. server_step p wc api (Dispatch el) s) s els = Returns s' \<and>
    dispatched s' = dispatched s @ take (length els) (contents (rx_consumer s)) \<and>
    contents (rx_consumer s') = drop (length els) (contents (rx_consumer s)) \<and> server_ok p contents s'"
  using assms(2)
proof (induction els arbitrary: s)
  case Nil
  then show ?case by simp
next
  case (Cons el els)
  have "window_ok s" using Cons.prems by (simp add: server_ok_def)
  then obtain s1 where s1: "server_step p wc api (Dispatch el) s = Returns s1" using server_step_returns by blast
  have "server_ok p contents s1" by (rule server_ok_step [OF fifo Cons.prems _ s1]) simp
  from Cons.IH [OF this] dispatch_publishes [OF fifo Cons.prems s1] s1 show ?case
    by (cases "contents (rx_consumer s)") (auto simp del: server_step.simps)
qed

text \<open>C25: The dispatch thread keeps up. From every reachable state, its next \<open>n\<close> rounds,
  however long each takes, complete and publish the \<open>n\<close> oldest waiting frames in order;
  since the ring holds at most 64 frames, after 64 rounds without an arrival every frame
  the ring ever accepted has been published, the ring is empty, and the shared region holds
  the newest frame.\<close>

theorem dispatch_drains_ring:
  assumes "ring_fifo api contents RING_CAPACITY" and "contents rx = []" and "contents tx = []"
    and "server_reach p wc api (server_init fd (replicate SHMEM_SIZE 0) rx tx) s"
  shows "\<exists>s'. ofold (\<lambda>s el. server_step p wc api (Dispatch el) s) s els = Returns s' \<and>
    dispatched s' = dispatched s @ take (length els) (contents (rx_consumer s)) \<and>
    (64 \<le> length els \<longrightarrow> contents (rx_consumer s') = [] \<and> dispatched s' = accepted s \<and>
       read_frame_pass (region s') = Some (last (AudioFrame_default # accepted s)))"
proof -
  have ok: "server_ok p contents s" using reach_init_ok [where contents = contents, OF assms(4,1-3)] .
  from dispatch_rounds_publish [OF assms(1) this, of wc els] obtain s' where
    s': "ofold (\<lambda>s el. server_step p wc api (Dispatch el) s) s els = Returns s'"
      "dispatched s' = dispatched s @ take (length els) (contents (rx_consumer s))"
      "contents (rx_consumer s') = drop (length els) (contents (rx_consumer s))" "server_ok p contents s'"
    by blast
  have a: "length (contents (rx_consumer s)) \<le> 64" "accepted s = dispatched s @ contents (rx_consumer s)"
    "read_frame_pass (region s') = Some (last (AudioFrame_default # dispatched s'))"
    using ok s'(4) by (simp_all add: server_ok_def audio_path_ok_def RING_CAPACITY_def)
  have "contents (rx_consumer s') = [] \<and> dispatched s' = accepted s" if "64 \<le> length els"
    using s'(2,3) a(1,2) that by simp
  with s'(1,2) a(3) show ?thesis by metis
qed

theorem dispatch_drains_ring_witness:
  "\<exists>s s'. server_reach Debug (\<lambda>_. Inr 4) list_ring demo_server0 s \<and>
     ofold (\<lambda>s el. server_step Debug (\<lambda>_. Inr 4) list_ring (Dispatch el) s) s (replicate 64 3) = Returns s' \<and>
     dispatched s' = accepted s \<and> rx_consumer s' = []"
proof -
  obtain s where s: "server_reach Debug (\<lambda>_. Inr 4) list_ring demo_server0 s"
    using demo_server_reach by blast
  from dispatch_drains_ring [OF list_ring_fifo refl refl s [unfolded demo_server0_def], of "replicate 64 3"] s
  show ?thesis by auto
qed

end
