(* ===== verification/Cm108_Runs.thy ===== *)
theory Cm108_Runs
  imports Cm108_Prelude
begin

text \<open>
  Simulation between step relations, the contract by which a detailed system is shown to
  behave like a more abstract one: every step of the detailed system from a good state
  leads to a good state and is either invisible or a step of the abstract system.
\<close>

locale step_simulation =
  fixes cstep :: "'c \<Rightarrow> 'c \<Rightarrow> bool"
    and astep :: "'a \<Rightarrow> 'a \<Rightarrow> bool"
    and absf :: "'c \<Rightarrow> 'a"
    and good :: "'c \<Rightarrow> bool"
  assumes good_step: "good c \<Longrightarrow> cstep c c' \<Longrightarrow> good c'"
    and sim_step: "good c \<Longrightarrow> cstep c c' \<Longrightarrow> absf c' = absf c \<or> astep (absf c) (absf c')"
begin

lemma good_run: "cstep\<^sup>*\<^sup>* c c' \<Longrightarrow> good c \<Longrightarrow> good c'"
  by (induction rule: rtranclp_induct) (auto dest: good_step)

lemma sim_run: "cstep\<^sup>*\<^sup>* c c' \<Longrightarrow> good c \<Longrightarrow> astep\<^sup>*\<^sup>* (absf c) (absf c')"
proof (induction rule: rtranclp_induct)
  case base
  show ?case by simp
next
  case (step d d')
  have "good d" using step.hyps(1) step.prems by (rule good_run)
  from sim_step [OF this step.hyps(2)] step show ?case by (auto intro: rtranclp.rtrancl_into_rtrancl)
qed

text \<open>An invariant of the abstract system is one of the detailed system.\<close>

lemma sim_invariant:
  assumes "cstep\<^sup>*\<^sup>* c c'" "good c" "P (absf c)" "\<And>a a'. P a \<Longrightarrow> astep a a' \<Longrightarrow> P a'"
  shows "P (absf c')"
  using sim_run [OF assms(1,2)] assms(3) by (induction rule: rtranclp_induct) (auto dest: assms(4))

end

end
