(* ===== verification/Cm108_System.thy ===== *)
theory Cm108_System
  imports Cm108_Daemon Cm108_Runs
begin

text \<open>
  The whole daemon: the event system of \<open>Cm108_Server\<close> with the two USB threads of
  \<open>Cm108_Iso\<close> in place of its abstract ring events. The threads share the rings and the
  overrun counters with the rest (the \<open>Arc\<close>s handed out by \<open>IsoStream::start\<close>): each
  iteration loads them, runs the loop body of \<^verbatim>\<open>iso_stream.rs\<close> against the kernel, and
  stores them. This system is proved to be a simulation of the event system, so that
  its invariants hold of the whole daemon.
\<close>

section \<open>Model\<close>

text \<open>The kernels the two threads see, their device files, and the texts of errors.\<close>

record usb_env =
  rx_kernel :: kernel
  tx_kernel :: kernel
  rx_file :: i32
  tx_file :: i32
  err_text :: "ErrorKind \<Rightarrow> rstring"

text \<open>Ghost fields, which no thread reads: \<open>completed\<close>, for each receive URB what the kernel
  reported when it completed it, until it hands it back; \<open>handed_back\<close>, the completions the
  kernel has handed back by the index of their URB, in order; \<open>tx_sent\<close>, the frames clients
  have written; \<open>tx_in\<close>, those of them the transmit ring took.\<close>

record 'r system =
  srv :: "'r server"
  rxh :: "'r iso_thread"
  txh :: "'r iso_thread"
  rxp :: process
  txp :: process
  completed :: "nat \<rightharpoonup> completion"
  handed_back :: "completion list"
  tx_sent :: "AudioFrame list"
  tx_in :: "AudioFrame list"

definition load_rx :: "'r system \<Rightarrow> 'r iso_thread" where
  "load_rx y = (rxh y)\<lparr>ring := rx_consumer (srv y), xruns := rx_xruns (ctx (srv y))\<rparr>"

definition load_tx :: "'r system \<Rightarrow> 'r iso_thread" where
  "load_tx y = (txh y)\<lparr>ring := guarded (tx_producer (ctx (srv y))), xruns := tx_xruns (ctx (srv y))\<rparr>"

text \<open>The frames of \<open>fs\<close> the ring takes.\<close>

fun taken_in :: "'r ring_api \<Rightarrow> 'r \<Rightarrow> AudioFrame list \<Rightarrow> AudioFrame list" where
  "taken_in api q [] = []"
| "taken_in api q (f # fs) =
     (case ring_push api q f of Some q' \<Rightarrow> f # taken_in api q' fs | None \<Rightarrow> taken_in api q fs)"

definition store_rx :: "'r ring_api \<Rightarrow> 'r iso_thread \<Rightarrow> AudioFrame list \<Rightarrow> 'r server \<Rightarrow> 'r server" where
  "store_rx api t fs s =
     s\<lparr>rx_consumer := ring t, ctx := (ctx s)\<lparr>rx_xruns := xruns t\<rparr>,
       accepted := accepted s @ taken_in api (rx_consumer s) fs, offered := offered s + length fs\<rparr>"

definition store_tx :: "'r iso_thread \<Rightarrow> 'r server \<Rightarrow> 'r server" where
  "store_tx t s =
     s\<lparr>ctx := (ctx s)\<lparr>tx_producer := (tx_producer (ctx s))\<lparr>guarded := ring t\<rparr>, tx_xruns := xruns t\<rparr>\<rparr>"

text \<open>The answer of a reap from the kernel's side: it hands back the URB whose index it
  stores, with what it reported when it completed it. A kernel that stores anything else
  hands back nothing the thread could recognize.\<close>

definition given_back :: "ErrorKind + u64 \<Rightarrow> (nat \<rightharpoonup> completion) \<Rightarrow> completion list" where
  "given_back res m = (case res of Inl e \<Rightarrow> [] | Inr cx \<Rightarrow> (case m (unat cx) of None \<Rightarrow> [] | Some c \<Rightarrow> [c]))"

definition still_out :: "ErrorKind + u64 \<Rightarrow> (nat \<rightharpoonup> completion) \<Rightarrow> (nat \<rightharpoonup> completion)" where
  "still_out res m = (case res of Inl e \<Rightarrow> m | Inr cx \<Rightarrow> m(unat cx := None))"

definition hand_back :: "ErrorKind + u64 \<Rightarrow> 'r system \<Rightarrow> 'r system" where
  "hand_back res y = y\<lparr>completed := still_out res (completed y), handed_back := handed_back y @ given_back res (completed y)\<rparr>"

text \<open>The frames of the good packets handed back.\<close>

definition packets :: "'r system \<Rightarrow> AudioFrame list" where
  "packets y = good_packets (handed_back y)"

definition rx_thread_step :: "usb_env \<Rightarrow> 'r ring_api \<Rightarrow> 'r system \<Rightarrow> 'r system outcome" where
  "rx_thread_step env api y =
     (let res = fst (reap_urb (rx_kernel env) (rx_file env) (rxp y));
          fs = round_frame (reap_result_of res) (load_rx y)
      in obind (rx_iterate (rx_kernel env) (err_text env) api (rx_file env) (load_rx y) (rxp y)) (\<lambda>(t, _, ps).
         Returns (hand_back res (y\<lparr>rxh := t, rxp := ps, srv := store_rx api t fs (srv y)\<rparr>))))"

definition tx_thread_step :: "usb_env \<Rightarrow> 'r ring_api \<Rightarrow> 'r system \<Rightarrow> 'r system" where
  "tx_thread_step env api y =
     (case tx_iterate (tx_kernel env) (err_text env) api (tx_file env) (load_tx y) (txp y) of
        (t, _, ps) \<Rightarrow> y\<lparr>txh := t, txp := ps, srv := store_tx t (srv y)\<rparr>)"

text \<open>Events: the kernel completes a receive URB; an iteration of one of the USB threads; an
  event of the rest of the daemon.\<close>

datatype system_event = UrbDone nat i32 u32 bytes | RxLoop | TxLoop | Daemon server_event

fun own_event :: "server_event \<Rightarrow> bool" where
  "own_event (RxFrame f) = False"
| "own_event TxFrame = False"
| "own_event _ = True"

fun written_by :: "server_event \<Rightarrow> 'r server \<Rightarrow> AudioFrame list" where
  "written_by (Receive cid (AudioWrite fs) now) s = (if cid \<in> set (sessions s) then fs else [])"
| "written_by _ s = []"

fun queued_by :: "'r ring_api \<Rightarrow> server_event \<Rightarrow> 'r server \<Rightarrow> AudioFrame list" where
  "queued_by api (Receive cid (AudioWrite fs) now) s =
     (if cid \<in> set (sessions s) \<and> \<not> poisoned (tx_producer (ctx s))
      then taken_in api (guarded (tx_producer (ctx s))) fs else [])"
| "queued_by api _ s = []"

fun system_step :: "profile \<Rightarrow> write_control \<Rightarrow> 'r ring_api \<Rightarrow> usb_env \<Rightarrow> system_event \<Rightarrow> 'r system \<Rightarrow> 'r system outcome" where
  "system_step p wc api env (UrbDone i st n data) y = Returns (y\<lparr>rxh := kernel_complete i st n data (rxh y), completed := (completed y)(i \<mapsto> Completion st n data)\<rparr>)"
| "system_step p wc api env RxLoop y = rx_thread_step env api y"
| "system_step p wc api env TxLoop y = Returns (tx_thread_step env api y)"
| "system_step p wc api env (Daemon e) y =
     obind (server_step p wc api e (srv y)) (\<lambda>s'.
     Returns (y\<lparr>srv := s', tx_sent := tx_sent y @ written_by e (srv y),
                tx_in := tx_in y @ queued_by api e (srv y)\<rparr>))"

fun system_event_ok :: "system_event \<Rightarrow> 'r system \<Rightarrow> bool" where
  "system_event_ok (UrbDone i st n data) y = kernel_ok (Completes i st n data)"
| "system_event_ok (Daemon e) y = (own_event e \<and> event_ok e (srv y))"
| "system_event_ok _ y = True"

definition system_moves :: "profile \<Rightarrow> write_control \<Rightarrow> 'r ring_api \<Rightarrow> usb_env \<Rightarrow> 'r system \<Rightarrow> 'r system \<Rightarrow> bool" where
  "system_moves p wc api env y y' \<longleftrightarrow>
     (\<exists>e. system_event_ok e y \<and> system_step p wc api env e y = Returns y')"

definition server_moves :: "profile \<Rightarrow> write_control \<Rightarrow> 'r ring_api \<Rightarrow> 'r server \<Rightarrow> 'r server \<Rightarrow> bool" where
  "server_moves p wc api s s' \<longleftrightarrow> (\<exists>e. event_ok e s \<and> server_step p wc api e s = Returns s')"

text \<open>The daemon once its threads have been started (\<open>rx_thread_started\<close>,
  \<open>tx_thread_started\<close>).\<close>

definition system_init :: "i32 \<Rightarrow> 'r \<Rightarrow> 'r \<Rightarrow> 'r iso_thread \<Rightarrow> 'r iso_thread \<Rightarrow> process \<Rightarrow> process \<Rightarrow> 'r system" where
  "system_init fd rx tx t1 t2 ps1 ps2 =
     \<lparr>srv = server_init fd (replicate SHMEM_SIZE 0) rx tx, rxh = t1, txh = t2, rxp = ps1, txp = ps2,
      completed = Map.empty, handed_back = [], tx_sent = [], tx_in = []\<rparr>"

section \<open>Simulation\<close>

lemma server_reach_moves: "server_reach p wc api s0 s \<longleftrightarrow> (server_moves p wc api)\<^sup>*\<^sup>* s0 s"
proof
  assume "server_reach p wc api s0 s"
  then show "(server_moves p wc api)\<^sup>*\<^sup>* s0 s"
    by (induction rule: server_reach.induct) (auto simp: server_moves_def intro: rtranclp.rtrancl_into_rtrancl)
next
  assume "(server_moves p wc api)\<^sup>*\<^sup>* s0 s"
  then show "server_reach p wc api s0 s"
    by (induction rule: rtranclp_induct)
      (auto simp: server_moves_def intro: server_reach.start server_reach.step)
qed

text \<open>A thread state with other shared fields is as good.\<close>

lemma iso_ok_load [simp]: "iso_ok (t\<lparr>ring := q, xruns := x\<rparr>) = iso_ok t"
  by (simp add: iso_ok_def)

lemma tx_ok_load [simp]: "tx_ok (t\<lparr>ring := q, xruns := x\<rparr>) = tx_ok t"
  by (simp add: tx_ok_def)

definition system_ok :: "'r system \<Rightarrow> bool" where
  "system_ok y \<longleftrightarrow> iso_ok (rxh y) \<and> tx_ok (txh y)"

text \<open>One iteration of the RX thread: nothing, or one good packet.\<close>

lemma rx_iterate_cases:
  assumes "iso_ok t"
  obtains (idle) t' pause ps' where "rx_iterate k io_text api fd t ps = Returns (t', pause, ps')" "iso_ok t'"
      "ring t' = ring t" "xruns t' = xruns t" "round_frame (reap_result_of (fst (reap_urb k fd ps))) t = []"
  | (packet) f t' pause ps' where "rx_iterate k io_text api fd t ps = Returns (t', pause, ps')" "iso_ok t'"
      "round_frame (reap_result_of (fst (reap_urb k fd ps))) t = [f]" "frame_ok f"
      "ring t' = (case ring_push api (ring t) f of Some q \<Rightarrow> q | None \<Rightarrow> ring t)"
      "xruns t' = (case ring_push api (ring t) f of Some q \<Rightarrow> xruns t | None \<Rightarrow> xruns t + 1)"
proof -
  obtain res ps1 where r: "reap_urb k fd ps = (res, ps1)" by force
  obtain ok ps2 where s: "submit_again k io_text (str ''RX'') init_rx_urb fd res t ps1 = (ok, ps2)" by force
  have it: "rx_iterate k io_text api fd t ps =
      obind (rx_round api (reap_result_of res) ok t) (\<lambda>(t', pause). Returns (t', pause, ps2))"
    using r s by (simp add: rx_iterate_def)
  show thesis
  proof (cases "\<exists>ctx. reap_result_of res = ReapOk ctx \<and> unat ctx < 8")
    case False
    then obtain pause where "rx_round api (reap_result_of res) ok t = Returns (t, pause)"
      "round_frame (reap_result_of res) t = []"
      by (cases "reap_result_of res") (simp_all add: rx_round_def round_frame_def N_URBS_def Let_def)
    with idle assms it r show thesis by simp
  next
    case True
    then obtain ctx where c: "reap_result_of res = ReapOk ctx" "unat ctx < 8" by blast
    obtain fr where fr: "rx_packet (urbs t ! unat ctx) (bufs t ! unat ctx) = Returns fr"
      using rx_packet_returns [OF assms c(2)] by blast
    let ?t' = "resubmit init_rx_urb (unat ctx) ok (rx_push api fr t)"
    have it': "rx_iterate k io_text api fd t ps = Returns (?t', 0, ps2)" "iso_ok ?t'"
      using it c fr assms by (simp_all add: rx_round_def N_URBS_def Let_def iso_ok_resubmit iso_ok_rx_push)
    show thesis
    proof (cases fr)
      case None
      with idle [OF it'] c fr r show thesis by (simp add: round_frame_def N_URBS_def rx_push_def)
    next
      case (Some f)
      then have "frame_ok f" using fr by (auto simp: rx_packet_def Let_def split: if_splits)
      with packet [OF it', of f] c fr r Some show thesis
        by (simp add: round_frame_def N_URBS_def rx_push_def split: option.split)
    qed
  qed
qed

text \<open>What the thread finds in its URBs is what the kernel reported.\<close>

fun slot_ok :: "completion option \<Rightarrow> SingleIsoUrb \<Rightarrow> bytes \<Rightarrow> bool" where
  "slot_ok None urb buf = (pkt_actual_length (pkt urb) = 0)"
| "slot_ok (Some c) urb buf =
     (urb_status (hdr urb) = c_status c \<and> pkt_actual_length (pkt urb) = c_length c \<and> buf = c_data c)"

definition slots_ok :: "(nat \<rightharpoonup> completion) \<Rightarrow> 'r iso_thread \<Rightarrow> bool" where
  "slots_ok m t \<longleftrightarrow> (\<forall>i<8. slot_ok (m i) (urbs t ! i) (bufs t ! i)) \<and> (\<forall>i\<ge>8. m i = None)"

lemma slots_ok_load [simp]: "slots_ok m (t\<lparr>ring := q, xruns := x\<rparr>) = slots_ok m t"
  by (simp add: slots_ok_def)

lemma slots_ok_armed: "iso_ok t \<Longrightarrow> armed t \<Longrightarrow> slots_ok Map.empty t"
  by (simp add: slots_ok_def iso_ok_def armed_def list_all_length)

lemma slots_ok_complete:
  assumes "slots_ok m t" "iso_ok t" "i < 8"
  shows "slots_ok (m(i \<mapsto> Completion st n data)) (kernel_complete i st n data t)"
  using assms by (auto simp: slots_ok_def kernel_complete_def iso_ok_def nth_list_update)

text \<open>The frame the thread makes of its URB is that of the completion handed back.\<close>

lemma slots_ok_frame:
  assumes "slots_ok m t" "iso_ok t"
  shows "round_frame (reap_result_of res) t = good_packets (given_back res m)"
proof (cases res)
  case (Inl e)
  then show ?thesis
    by (cases e) (simp_all add: reap_result_of_def round_frame_def given_back_def good_packets_def)
next
  case (Inr cx)
  show ?thesis
  proof (cases "unat cx < 8")
    case True
    from assms(1) True have s: "slot_ok (m (unat cx)) (urbs t ! unat cx) (bufs t ! unat cx)" by (simp add: slots_ok_def)
    have "unat (pkt_actual_length (pkt (urbs t ! unat cx))) \<le> length (bufs t ! unat cx)"
      using assms(2) True by (simp add: iso_ok_def list_all_length)
    with s True Inr show ?thesis
      by (cases "m (unat cx)")
        (auto simp: reap_result_of_def round_frame_def given_back_def good_packets_def N_URBS_def rx_packet_def Let_def bytes_to_frame_heard)
  next
    case False
    then have "m (unat cx) = None" using assms(1) by (simp add: slots_ok_def)
    with False Inr show ?thesis
      by (simp add: reap_result_of_def round_frame_def given_back_def good_packets_def N_URBS_def)
  qed
qed

text \<open>Handing back re-arms the URB.\<close>

lemma slots_ok_iterate:
  assumes "slots_ok m t" "iso_ok t" "rx_iterate k io_text api fd t ps = Returns (t', pause, ps')"
  shows "slots_ok (still_out (fst (reap_urb k fd ps)) m) t'"
proof -
  obtain res ps1 where r: "reap_urb k fd ps = (res, ps1)" by force
  obtain ok where it: "rx_round api (reap_result_of res) ok t = Returns (t', pause)"
    using assms(3) r by (auto simp: rx_iterate_def split: prod.splits)
  show ?thesis
  proof (cases "\<exists>cx. res = Inr cx \<and> unat cx < 8")
    case True
    then obtain cx where cx: "res = Inr cx" "unat cx < 8" by blast
    with it obtain fr where t': "t' = resubmit init_rx_urb (unat cx) ok (rx_push api fr t)"
      by (auto simp: rx_round_def reap_result_of_def N_URBS_def Let_def)
    have "urbs (rx_push api fr t) = urbs t" "bufs (rx_push api fr t) = bufs t"
      by (simp_all add: rx_push_def split: option.split)
    with assms(1,2) cx t' r show ?thesis
      by (auto simp: slots_ok_def still_out_def iso_ok_def resubmit_def nth_list_update init_rx_urb_def)
  next
    case False
    with it have "t' = t"
      by (cases res) (auto simp: rx_round_def reap_result_of_def N_URBS_def Let_def split: ErrorKind.splits)
    with False assms(1) r show ?thesis by (cases res) (auto simp: slots_ok_def still_out_def)
  qed
qed

lemma hand_back_simps [simp]:
  "srv (hand_back res y) = srv y" "rxh (hand_back res y) = rxh y" "txh (hand_back res y) = txh y"
  "rxp (hand_back res y) = rxp y" "txp (hand_back res y) = txp y" "tx_sent (hand_back res y) = tx_sent y"
  "tx_in (hand_back res y) = tx_in y" "completed (hand_back res y) = still_out res (completed y)"
  "handed_back (hand_back res y) = handed_back y @ given_back res (completed y)"
  by (simp_all add: hand_back_def)

lemma rx_thread_step_cases:
  assumes "iso_ok (rxh y)"
  obtains (idle) t ps res where "rx_thread_step env api y = Returns (hand_back res (y\<lparr>rxh := t, rxp := ps\<rparr>))" "iso_ok t"
      "slots_ok (completed y) (rxh y) \<Longrightarrow> slots_ok (still_out res (completed y)) t \<and> good_packets (given_back res (completed y)) = []"
  | (packet) f t ps res where "frame_ok f" "iso_ok t"
      "rx_thread_step env api y = Returns (hand_back res (y\<lparr>rxh := t, rxp := ps, srv := rx_arrives api f (srv y)\<rparr>))"
      "slots_ok (completed y) (rxh y) \<Longrightarrow> slots_ok (still_out res (completed y)) t \<and> good_packets (given_back res (completed y)) = [f]"
proof -
  let ?res = "fst (reap_urb (rx_kernel env) (rx_file env) (rxp y))"
  have ok: "iso_ok (load_rx y)" using assms by (simp add: load_rx_def)
  have l: "ring (load_rx y) = rx_consumer (srv y)" "xruns (load_rx y) = rx_xruns (ctx (srv y))" by (simp_all add: load_rx_def)
  from ok show thesis
  proof (cases rule: rx_iterate_cases
      [where k = "rx_kernel env" and io_text = "err_text env" and api = api and fd = "rx_file env" and ps = "rxp y"])
    case (idle t' pause ps')
    then have "store_rx api t' [] (srv y) = srv y" using l by (simp add: store_rx_def)
    moreover have "slots_ok (still_out ?res (completed y)) t' \<and> good_packets (given_back ?res (completed y)) = []"
      if "slots_ok (completed y) (rxh y)"
    proof -
      from that have s: "slots_ok (completed y) (load_rx y)" by (simp add: load_rx_def)
      from slots_ok_iterate [OF s ok idle(1)] slots_ok_frame [OF s ok, of ?res] idle show ?thesis by simp
    qed
    ultimately show thesis using idle that(1) [where t = t' and ps = ps' and res = ?res]
      by (simp add: rx_thread_step_def Let_def)
  next
    case (packet f t' pause ps')
    then have "store_rx api t' [f] (srv y) = rx_arrives api f (srv y)"
      using l by (simp add: store_rx_def rx_arrives_def split: option.split)
    moreover have "slots_ok (still_out ?res (completed y)) t' \<and> good_packets (given_back ?res (completed y)) = [f]"
      if "slots_ok (completed y) (rxh y)"
    proof -
      from that have s: "slots_ok (completed y) (load_rx y)" by (simp add: load_rx_def)
      from slots_ok_iterate [OF s ok packet(1)] slots_ok_frame [OF s ok, of ?res] packet show ?thesis by simp
    qed
    ultimately show thesis using packet that(2) [where f = f and t = t' and ps = ps' and res = ?res]
      by (simp add: rx_thread_step_def Let_def)
  qed
qed

lemma tx_thread_step_cases:
  assumes "tx_ok (txh y)"
  obtains (idle) t ps where "tx_thread_step env api y = y\<lparr>txh := t, txp := ps\<rparr>" "tx_ok t"
      "handed (trace ps) = handed (trace (txp y))"
  | (round) t ps where "tx_thread_step env api y = y\<lparr>txh := t, txp := ps, srv := tx_takes api (srv y)\<rparr>" "tx_ok t"
      "handed (trace ps) = handed (trace (txp y)) @
         [tx_packet (map_option fst (ring_pop api (guarded (tx_producer (ctx (srv y))))))]"
proof -
  have ok: "tx_ok (load_tx y)" using assms by (simp add: load_tx_def)
  have l: "ring (load_tx y) = guarded (tx_producer (ctx (srv y)))" "xruns (load_tx y) = tx_xruns (ctx (srv y))"
    by (simp_all add: load_tx_def)
  obtain t pause ps where it: "tx_iterate (tx_kernel env) (err_text env) api (tx_file env) (load_tx y) (txp y) = (t, pause, ps)"
    by (metis prod_cases3)
  have step: "tx_thread_step env api y = y\<lparr>txh := t, txp := ps, srv := store_tx t (srv y)\<rparr>"
    using it by (simp add: tx_thread_step_def)
  show thesis
  proof (cases "\<exists>cx ps1. reap_urb (tx_kernel env) (tx_file env) (txp y) = (Inr cx, ps1) \<and> unat cx < N_URBS")
    case True
    then obtain cx ps1 where "reap_urb (tx_kernel env) (tx_file env) (txp y) = (Inr cx, ps1)" "unat cx < N_URBS" by blast
    note pops = tx_iterate_pops [OF ok this it]
    then have "store_tx t (srv y) = tx_takes api (srv y)"
      using l by (auto simp: store_tx_def tx_takes_def split: option.splits prod.splits)
    with pops that(2) [where t = t and ps = ps] step l show thesis by (simp split: option.splits prod.splits)
  next
    case False
    then have "case reap_urb (tx_kernel env) (tx_file env) (txp y) of (Inr cx, _) \<Rightarrow> N_URBS \<le> unat cx | _ \<Rightarrow> True"
      by (auto simp: not_less split: prod.split sum.split)
    from tx_iterate_idle [OF this, of "err_text env" api "load_tx y"] it
    have t: "t = load_tx y" "handed (trace ps) = handed (trace (txp y))" by auto
    then have "store_tx t (srv y) = srv y" using l by (simp add: store_tx_def)
    with t ok that(1) [where t = t and ps = ps] step show thesis by simp
  qed
qed

interpretation daemon: step_simulation "system_moves p wc api env" "server_moves p wc api" srv system_ok
  for p wc api env
proof
  fix y y'
  assume good: "system_ok y" and "system_moves p wc api env y y'"
  then obtain e where e: "system_event_ok e y" "system_step p wc api env e y = Returns y'"
    by (auto simp: system_moves_def)
  have "system_ok y' \<and> (srv y' = srv y \<or> server_moves p wc api (srv y) (srv y'))"
  proof (cases e)
    case (UrbDone i st n data)
    with e good show ?thesis by (auto simp: system_ok_def iso_ok_complete)
  next
    case RxLoop
    have "iso_ok (rxh y)" using good by (simp add: system_ok_def)
    then show ?thesis
    proof (cases rule: rx_thread_step_cases [where env = env and api = api])
      case (idle t ps)
      with e RxLoop good show ?thesis by (auto simp: system_ok_def)
    next
      case (packet f t ps res)
      with e RxLoop good have "y' = hand_back res (y\<lparr>rxh := t, rxp := ps, srv := rx_arrives api f (srv y)\<rparr>)"
        by simp
      moreover have "server_moves p wc api (srv y) (rx_arrives api f (srv y))"
        unfolding server_moves_def using packet(1) by (intro exI [of _ "RxFrame f"]) simp
      ultimately show ?thesis using good packet(2) by (simp add: system_ok_def)
    qed
  next
    case TxLoop
    have "tx_ok (txh y)" using good by (simp add: system_ok_def)
    then show ?thesis
    proof (cases rule: tx_thread_step_cases [where env = env and api = api])
      case (idle t ps)
      with e TxLoop good show ?thesis by (auto simp: system_ok_def)
    next
      case (round t ps)
      with e TxLoop good have "y' = y\<lparr>txh := t, txp := ps, srv := tx_takes api (srv y)\<rparr>" by simp
      moreover have "server_moves p wc api (srv y) (tx_takes api (srv y))"
        unfolding server_moves_def by (intro exI [of _ TxFrame]) simp
      ultimately show ?thesis using good round(2) by (simp add: system_ok_def)
    qed
  next
    case (Daemon ev)
    with e good show ?thesis by (auto simp: system_ok_def server_moves_def)
  qed
  then show "system_ok y'" "srv y' = srv y \<or> server_moves p wc api (srv y) (srv y')" by blast+
qed

section \<open>What the rest of the daemon does to the shared rings\<close>

text \<open>The fields of the daemon that belong to the USB side.\<close>

definition usb_side :: "'r server \<Rightarrow> AudioFrame list \<times> nat \<times> 'r mutex \<times> u64" where
  "usb_side s = (accepted s, offered s, tx_producer (ctx s), tx_xruns (ctx s))"

lemma dispatch_round_usb: "dispatch_round p api el s = Returns (s', d) \<Longrightarrow> usb_side s' = usb_side s"
  by (cases "ring_pop api (rx_consumer s)")
    (auto simp: dispatch_round_def usb_side_def Let_def split: prod.splits if_splits)

lemma gpio_round_usb: "gpio_round p res s = Returns (s', d) \<Longrightarrow> usb_side s' = usb_side s"
  by (cases rule: gpio_round_cases [of p res s]) (auto simp: usb_side_def)

lemma heartbeat_round_usb: "heartbeat_round p wc now s = Returns (s', d) \<Longrightarrow> usb_side s' = usb_side s"
  using heartbeat_round_returns [of p wc s now] by (auto simp: usb_side_def dest: locked_set_pin_frame(3,4))

lemma accept_usb: "usb_side (accept s) = usb_side s" "usb_side (accept_fails s) = usb_side s"
  by (simp_all add: usb_side_def accept_def accept_fails_def connected_def)

lemma close_usb: "usb_side (close_session cid s) = usb_side s"
  by (simp add: usb_side_def close_session_def)

lemma channel_usb: "usb_side (on_channel cid f s) = usb_side s"
  by (simp add: usb_side_def on_channel_def split: option.split)

lemma dispatch_msg_usb:
  assumes "dispatch_client_msg p wc api now cid msg c = (c', b)" "\<forall>fs. msg \<noteq> AudioWrite fs"
  shows "tx_producer c' = tx_producer c" "tx_xruns c' = tx_xruns c"
  using assms locked_set_pin_frame(3,4) [of p wc _ _ "c\<lparr>last_activity_ms := wall_ms now\<rparr>" c' b]
  by (cases msg; auto simp: dispatch_client_msg_def Let_def)+

lemma own_step_usb:
  assumes "own_event e" "server_step p wc api e s = Returns s'"
    "\<not> (\<exists>cid fs now. e = Receive cid (AudioWrite fs) now \<and> cid \<in> set (sessions s))"
  shows "usb_side s' = usb_side s"
proof (cases e)
  case (Receive cid msg now)
  obtain c b where d: "dispatch_client_msg p wc api now cid msg (ctx s) = (c, b)" by force
  with Receive assms(2,3) dispatch_msg_usb [OF d] show ?thesis
    by (cases "cid \<in> set (sessions s)") (auto simp: usb_side_def receive_def)
qed (use assms in \<open>auto simp: dispatch_round_usb gpio_round_usb heartbeat_round_usb accept_usb close_usb channel_usb\<close>)

lemma own_step_rx:
  assumes "own_event e" "server_step p wc api e s = Returns s'"
  shows "accepted s' = accepted s" "offered s' = offered s"
proof -
  have "accepted s' = accepted s \<and> offered s' = offered s"
  proof (cases "\<exists>cid fs now. e = Receive cid (AudioWrite fs) now \<and> cid \<in> set (sessions s)")
    case True
    with assms(2) show ?thesis by (auto simp: receive_def split: prod.splits)
  next
    case False
    from own_step_usb [OF assms False] show ?thesis by (simp add: usb_side_def)
  qed
  then show "accepted s' = accepted s" "offered s' = offered s" by blast+
qed

lemma taken_in_subseq: "subseq (taken_in api q fs) fs"
  by (induction api q fs rule: taken_in.induct) (auto split: option.split)

lemma push_frames_taken:
  assumes "ring_fifo api contents cap" "push_frames api fs q x = (q', x')"
  shows "contents q' = contents q @ taken_in api q fs \<and> x' = x + of_nat (length fs - length (taken_in api q fs))"
  using assms(2)
proof (induction fs arbitrary: q x)
  case Nil
  then show ?case by simp
next
  case (Cons f fs)
  show ?case
  proof (cases "ring_push api q f")
    case None
    have "length (taken_in api q fs) \<le> length fs" by (rule list_emb_length [OF taken_in_subseq])
    with Cons.IH [of q "x + 1"] Cons.prems None show ?thesis by (simp add: Suc_diff_le)
  next
    case (Some q1)
    with Cons.IH [of q1 x] Cons.prems ring_pushD [OF assms(1) Some] show ?thesis by simp
  qed
qed

lemma own_step_tx:
  assumes fifo: "ring_fifo api contents cap" and e: "own_event e" "server_step p wc api e s = Returns s'"
    and np: "\<not> poisoned (tx_producer (ctx s))"
  shows "\<not> poisoned (tx_producer (ctx s')) \<and>
    contents (guarded (tx_producer (ctx s'))) = contents (guarded (tx_producer (ctx s))) @ queued_by api e s \<and>
    subseq (queued_by api e s) (written_by e s) \<and>
    tx_xruns (ctx s') = tx_xruns (ctx s) + of_nat (length (written_by e s) - length (queued_by api e s))"
proof (cases "\<exists>cid fs now. e = Receive cid (AudioWrite fs) now \<and> cid \<in> set (sessions s)")
  case True
  then obtain cid fs now where ev: "e = Receive cid (AudioWrite fs) now" "cid \<in> set (sessions s)" by blast
  obtain q x where pf: "push_frames api fs (guarded (tx_producer (ctx s))) (tx_xruns (ctx s)) = (q, x)" by force
  from e(2) ev pf np have "tx_producer (ctx s') = (tx_producer (ctx s))\<lparr>guarded := q\<rparr>" "tx_xruns (ctx s') = x"
    by (auto simp: receive_def dispatch_client_msg_def)
  with push_frames_taken [OF fifo pf] np ev taken_in_subseq show ?thesis by simp
next
  case False
  have "tx_producer (ctx s') = tx_producer (ctx s) \<and> tx_xruns (ctx s') = tx_xruns (ctx s)"
    using own_step_usb [OF e False] by (simp add: usb_side_def)
  moreover have "queued_by api e s = [] \<and> written_by e s = []"
  proof (cases e)
    case (Receive cid msg now)
    with False show ?thesis by (cases msg) simp_all
  qed simp_all
  ultimately show ?thesis using np by simp
qed

section \<open>Audio through the whole daemon\<close>

text \<open>Received audio: the ring took a subsequence of the packets' frames, and each packet
  was offered once.\<close>

definition rx_side_ok :: "'r system \<Rightarrow> bool" where
  "rx_side_ok y \<longleftrightarrow> slots_ok (completed y) (rxh y) \<and> subseq (accepted (srv y)) (packets y) \<and>
     offered (srv y) = length (packets y)"

text \<open>Client audio: the packets played are the frames taken off the ring, in order, with
  silence between them; the overrun counter counts refused frames and silent packets.\<close>

definition tx_side_ok :: "('r \<Rightarrow> AudioFrame list) \<Rightarrow> bytes list \<Rightarrow> 'r system \<Rightarrow> bool" where
  "tx_side_ok contents before y \<longleftrightarrow>
     \<not> poisoned (tx_producer (ctx (srv y))) \<and> subseq (tx_in y) (tx_sent y) \<and>
     (\<exists>plays. handed (trace (txp y)) = before @ map tx_packet plays \<and>
        tx_in y = map the (filter (\<lambda>x. x \<noteq> None) plays) @ contents (guarded (tx_producer (ctx (srv y)))) \<and>
        tx_xruns (ctx (srv y)) =
          of_nat (length (tx_sent y) - length (tx_in y) + length (filter (\<lambda>x. x = None) plays)))"

lemma tx_takes_rx [simp]:
  "accepted (tx_takes api s) = accepted s" "offered (tx_takes api s) = offered s"
  by (simp_all add: tx_takes_def split: option.split prod.split)

lemma good_packets_append: "good_packets (cs @ ds) = good_packets cs @ good_packets ds"
  by (simp add: good_packets_def)

lemma rx_side_cong:
  assumes "rx_side_ok y" "accepted (srv y') = accepted (srv y)" "offered (srv y') = offered (srv y)"
    "packets y' = packets y" "slots_ok (completed y') (rxh y')"
  shows "rx_side_ok y'"
  using assms by (simp add: rx_side_ok_def)

lemma rx_side_step:
  assumes "system_ok y" "rx_side_ok y" "system_moves p wc api env y y'"
  shows "rx_side_ok y'"
proof -
  obtain e where e: "system_event_ok e y" "system_step p wc api env e y = Returns y'"
    using assms(3) by (auto simp: system_moves_def)
  have slots: "slots_ok (completed y) (rxh y)" using assms(2) by (simp add: rx_side_ok_def)
  show ?thesis
  proof (cases e)
    case (UrbDone i st n data)
    with e assms(1) slots slots_ok_complete [of "completed y" "rxh y" i st n data] show ?thesis
      by (auto intro!: rx_side_cong [OF assms(2)] simp: packets_def system_ok_def)
  next
    case RxLoop
    have "iso_ok (rxh y)" using assms(1) by (simp add: system_ok_def)
    then show ?thesis
    proof (cases rule: rx_thread_step_cases [where env = env and api = api])
      case (idle t ps res)
      with e(2) RxLoop slots show ?thesis
        by (auto intro!: rx_side_cong [OF assms(2)] simp: packets_def good_packets_append)
    next
      case (packet f t ps res)
      have "subseq (accepted (srv y) @ [f]) (packets y @ [f])" "subseq (accepted (srv y)) (packets y @ [f])"
        using assms(2) by (auto simp: rx_side_ok_def intro: subseq_rev_drop_many)
      moreover have "packets y' = packets y @ [f]" "slots_ok (completed y') (rxh y')"
        using packet(3,4) e(2) RxLoop slots by (auto simp: packets_def good_packets_append)
      ultimately show ?thesis
        using packet(3) e(2) RxLoop assms(2) by (auto simp: rx_side_ok_def rx_arrives_def split: option.splits)
    qed
  next
    case TxLoop
    have "tx_ok (txh y)" using assms(1) by (simp add: system_ok_def)
    moreover have "y' = tx_thread_step env api y" using e(2) TxLoop by simp
    ultimately show ?thesis
      by (cases rule: tx_thread_step_cases [where env = env and api = api]) (simp_all add: rx_side_cong [OF assms(2)] slots packets_def)
  qed (use e own_step_rx slots in \<open>auto intro!: rx_side_cong [OF assms(2)] simp: packets_def\<close>)
qed

lemma rx_arrives_tx [simp]:
  "tx_producer (ctx (rx_arrives api f s)) = tx_producer (ctx s)" "tx_xruns (ctx (rx_arrives api f s)) = tx_xruns (ctx s)"
  by (simp_all add: rx_arrives_def split: option.split)

lemma tx_side_cong:
  assumes "tx_side_ok contents before y" "tx_producer (ctx (srv y')) = tx_producer (ctx (srv y))"
    "tx_xruns (ctx (srv y')) = tx_xruns (ctx (srv y))" "handed (trace (txp y')) = handed (trace (txp y))"
    "tx_sent y' = tx_sent y" "tx_in y' = tx_in y"
  shows "tx_side_ok contents before y'"
  using assms by (simp add: tx_side_ok_def)

lemma length_subseq: "subseq xs ys \<Longrightarrow> length xs \<le> length ys"
  by (rule list_emb_length)

lemma tx_side_step:
  assumes fifo: "ring_fifo api contents cap"
    and "system_ok y" "tx_side_ok contents before y" "system_moves p wc api env y y'"
  shows "tx_side_ok contents before y'"
proof -
  obtain e where e: "system_event_ok e y" "system_step p wc api env e y = Returns y'"
    using assms(4) by (auto simp: system_moves_def)
  obtain plays where np: "\<not> poisoned (tx_producer (ctx (srv y)))" and sub: "subseq (tx_in y) (tx_sent y)"
    and h: "handed (trace (txp y)) = before @ map tx_packet plays"
    and q: "tx_in y = map the (filter (\<lambda>x. x \<noteq> None) plays) @ contents (guarded (tx_producer (ctx (srv y))))"
    and x: "tx_xruns (ctx (srv y)) = of_nat (length (tx_sent y) - length (tx_in y) + length (filter (\<lambda>x. x = None) plays))"
    using assms(3) by (auto simp: tx_side_ok_def)
  show ?thesis
  proof (cases e)
    case (UrbDone i st n data)
    with e(2) show ?thesis by (auto intro: tx_side_cong [OF assms(3)])
  next
    case RxLoop
    have "iso_ok (rxh y)" using assms(2) by (simp add: system_ok_def)
    then show ?thesis
      by (cases rule: rx_thread_step_cases [where env = env and api = api])
        (use e(2) RxLoop in \<open>auto intro: tx_side_cong [OF assms(3)]\<close>)
  next
    case TxLoop
    have "tx_ok (txh y)" using assms(2) by (simp add: system_ok_def)
    then show ?thesis
    proof (cases rule: tx_thread_step_cases [where env = env and api = api])
      case (idle t ps)
      with e(2) TxLoop show ?thesis by (auto intro: tx_side_cong [OF assms(3)])
    next
      case (round t ps)
      let ?play = "map_option fst (ring_pop api (guarded (tx_producer (ctx (srv y)))))"
      have "tx_side_ok contents before (y\<lparr>txh := t, txp := ps, srv := tx_takes api (srv y)\<rparr>)"
        unfolding tx_side_ok_def
      proof (intro conjI exI [of _ "plays @ [?play]"])
      qed (use round np sub h q x ring_popD [OF fifo] in \<open>auto simp: tx_takes_def split: option.splits\<close>)
      with round e(2) TxLoop show ?thesis by simp
    qed
  next
    case (Daemon ev)
    then obtain s' where s': "own_event ev" "server_step p wc api ev (srv y) = Returns s'"
      "y' = y\<lparr>srv := s', tx_sent := tx_sent y @ written_by ev (srv y), tx_in := tx_in y @ queued_by api ev (srv y)\<rparr>"
      using e by auto
    note o = own_step_tx [OF fifo s'(1,2) np]
    have "length (tx_in y) \<le> length (tx_sent y)" "length (queued_by api ev (srv y)) \<le> length (written_by ev (srv y))"
      using sub o length_subseq by blast+
    then have "tx_xruns (ctx s') = of_nat (length (tx_sent y @ written_by ev (srv y)) -
        length (tx_in y @ queued_by api ev (srv y)) + length (filter (\<lambda>x. x = None) plays))"
      using o x by (simp add: algebra_simps flip: of_nat_add)
    moreover have "subseq (tx_in y @ queued_by api ev (srv y)) (tx_sent y @ written_by ev (srv y))"
      using sub o by (simp add: list_emb_append_mono)
    ultimately show ?thesis using o h q unfolding s'(3) tx_side_ok_def
      by (intro conjI exI [of _ plays]) simp_all
  qed
qed

text \<open>From the start on, every state of the whole daemon is good on both sides.\<close>

lemma system_run_ok:
  assumes fifo: "ring_fifo api contents RING_CAPACITY" "contents rx = []" "contents tx = []"
    and thr: "iso_ok t1" "armed t1" "tx_ok t2"
    and run: "(system_moves p wc api env)\<^sup>*\<^sup>* (system_init fd rx tx t1 t2 ps1 ps2) y"
  shows "system_ok y \<and> rx_side_ok y \<and> tx_side_ok contents (handed (trace ps2)) y"
  using run
proof (induction rule: rtranclp_induct)
  case base
  show ?case using thr fifo
    by (simp add: system_ok_def system_init_def rx_side_ok_def tx_side_ok_def server_init_def slots_ok_armed packets_def
        good_packets_def)
next
  case (step y y')
  then show ?case
    using daemon.good_step [of y p wc api env y'] rx_side_step [of y p wc api env y']
      tx_side_step [OF fifo(1), of y "handed (trace ps2)" p wc env y'] by blast
qed

section \<open>A concrete run\<close>

definition demo_env :: usb_env where
  "demo_env = \<lparr>rx_kernel = demo_kernel, tx_kernel = demo_kernel, rx_file = 7, tx_file = 8, err_text = (\<lambda>_. [])\<rparr>"

definition demo_tx :: "AudioFrame list iso_thread" where
  "demo_tx = demo_iso\<lparr>bufs := replicate 8 (replicate 96 0)\<rparr>"

definition demo_system :: "AudioFrame list system" where
  "demo_system = system_init 5 [] [] demo_iso demo_tx demo_process demo_process"

lemma demo_tx_ok: "tx_ok demo_tx"
  by (simp add: tx_ok_def demo_tx_def demo_iso_def list_all_length)

text \<open>A packet arrives and is received, a client connects and writes a frame, which is
  played.\<close>

abbreviation demo_moves :: "AudioFrame list system \<Rightarrow> AudioFrame list system \<Rightarrow> bool" where
  "demo_moves \<equiv> system_moves Release (\<lambda>_. Inr 4) list_ring demo_env"

lemma demo_move: "system_event_ok e y \<Longrightarrow> system_step Release (\<lambda>_. Inr 4) list_ring demo_env e y = Returns y' \<Longrightarrow> demo_moves y y'"
  by (auto simp: system_moves_def)

lemma rx_thread_step_handed:
  assumes "rx_thread_step env api y = Returns (hand_back res z)" "handed_back z = handed_back y"
  shows "given_back res (completed z) = given_back (fst (reap_urb (rx_kernel env) (rx_file env) (rxp y))) (completed y)"
  using assms by (auto simp: rx_thread_step_def Let_def hand_back_def dest!: arg_cong [of _ _ handed_back])

lemma demo_system_run:
  "\<exists>y. demo_moves\<^sup>*\<^sup>* demo_system y \<and> packets y = [bytes_to_frame (replicate 96 7)] \<and>
     tx_sent y = [AudioFrame_default] \<and> tx_in y = [AudioFrame_default]"
proof -
  let ?c = "Completion 0 96 (replicate 100 7)"
  define y1 where "y1 = demo_system\<lparr>rxh := kernel_complete 0 0 96 (replicate 100 7) (rxh demo_system),
    completed := (completed demo_system)(0 \<mapsto> ?c)\<rparr>"
  have 1: "demo_moves demo_system y1"
    by (rule demo_move [of "UrbDone 0 0 96 (replicate 100 7)"]) (simp_all add: y1_def)
  have srv1: "srv y1 = demo_server0" "packets y1 = []" "handed_back y1 = []" "tx_sent y1 = []" "tx_in y1 = []"
    by (simp_all add: y1_def demo_system_def system_init_def demo_server0_def packets_def good_packets_def)
  have ok: "iso_ok (rxh y1)"
    using demo_iso_ok(1) by (simp add: y1_def demo_system_def system_init_def iso_ok_complete)
  have slots: "slots_ok (completed y1) (rxh y1)"
    using slots_ok_complete [OF slots_ok_armed [OF demo_iso_ok(1,2)] demo_iso_ok(1), of 0 0 96 "replicate 100 7"]
    by (simp add: y1_def demo_system_def system_init_def)
  let ?res = "fst (reap_urb demo_kernel 7 (rxp y1))"
  have "rx_packet (urbs (load_rx y1) ! 0) (bufs (load_rx y1) ! 0) = Returns (Some (bytes_to_frame (replicate 96 7)))"
    by (simp add: load_rx_def y1_def kernel_complete_def demo_system_def system_init_def demo_iso_def rx_packet_def
        init_rx_urb_def)
  moreover have "reap_result_of (fst (reap_urb demo_kernel 7 (rxp y1))) = ReapOk 0"
    by (simp add: reap_urb_def checked_call_eq demo_kernel_def reap_result_of_def)
  ultimately have "round_frame (reap_result_of ?res) (load_rx y1) = [bytes_to_frame (replicate 96 7)]"
    by (simp add: round_frame_def N_URBS_def)
  moreover have "round_frame (reap_result_of ?res) (load_rx y1) = good_packets (given_back ?res (completed y1))"
    using slots ok by (intro slots_ok_frame) (simp_all add: load_rx_def)
  ultimately have fr: "good_packets (given_back ?res (completed y1)) = [bytes_to_frame (replicate 96 7)]" by simp
  from ok obtain y2 where y2: "rx_thread_step demo_env list_ring y1 = Returns y2" "packets y2 = [bytes_to_frame (replicate 96 7)]"
    "tx_sent y2 = []" "tx_in y2 = []" "ctx (srv y2) = ctx demo_server0" "sessions (srv y2) = []" "connects (srv y2) = 0"
  proof (cases rule: rx_thread_step_cases [where env = demo_env and api = list_ring])
    case (idle t ps res)
    from rx_thread_step_handed [OF idle(1)] have "given_back res (completed y1) = given_back ?res (completed y1)"
      by (simp add: demo_env_def)
    with idle(3) [OF slots] fr show ?thesis by simp
  next
    case (packet f t ps res)
    from rx_thread_step_handed [OF packet(3)] have "given_back res (completed y1) = given_back ?res (completed y1)"
      by (simp add: demo_env_def)
    with packet(4) [OF slots] fr have f: "f = bytes_to_frame (replicate 96 7)"
      "good_packets (given_back res (completed y1)) = [bytes_to_frame (replicate 96 7)]" by simp_all
    show ?thesis using packet(3) f srv1
      by (intro that [of "hand_back res (y1\<lparr>rxh := t, rxp := ps, srv := rx_arrives list_ring f (srv y1)\<rparr>)"]) (simp_all add: packets_def rx_arrives_def list_ring_def demo_server0_def server_init_def)
  qed
  have 2: "demo_moves y1 y2" by (rule demo_move [of RxLoop]) (simp_all add: y2)
  define y3 where "y3 = y2\<lparr>srv := accept (srv y2)\<rparr>"
  have 3: "demo_moves y2 y3" by (rule demo_move [of "Daemon Accept"]) (simp_all add: y3_def y2)
  have y3: "sessions (srv y3) = [1]" "tx_producer (ctx (srv y3)) = \<lparr>guarded = [], poisoned = False\<rparr>"
    by (simp_all add: y3_def y2 accept_def connected_def demo_server0_def server_init_def allocate_id_def ClientRegistry_new_def)
  define y4 where "y4 = y3\<lparr>srv := receive Release (\<lambda>_. Inr 4) list_ring 1 (AudioWrite [AudioFrame_default]) None (srv y3),
      tx_sent := [AudioFrame_default], tx_in := [AudioFrame_default]\<rparr>"
  have 4: "demo_moves y3 y4"
    by (rule demo_move [of "Daemon (Receive 1 (AudioWrite [AudioFrame_default]) None)"])
      (simp_all add: y4_def y3 y3_def [THEN arg_cong [of _ _ tx_sent]] y3_def [THEN arg_cong [of _ _ tx_in]] y2 list_ring_def)
  define y5 where "y5 = tx_thread_step demo_env list_ring y4"
  have 5: "demo_moves y4 y5" by (rule demo_move [of TxLoop]) (simp_all add: y5_def)
  have "packets y5 = packets y4" "tx_sent y5 = tx_sent y4" "tx_in y5 = tx_in y4"
    by (simp_all add: y5_def tx_thread_step_def packets_def split: prod.split)
  then have "packets y5 = [bytes_to_frame (replicate 96 7)]" "tx_sent y5 = [AudioFrame_default]" "tx_in y5 = [AudioFrame_default]"
    using y2(2) by (simp_all add: y4_def y3_def y2 packets_def)
  moreover have "demo_moves\<^sup>*\<^sup>* demo_system y5"
    using 1 2 3 4 5 by (meson converse_rtranclp_into_rtranclp rtranclp.rtrancl_refl)
  ultimately show ?thesis by blast
qed

section \<open>Properties\<close>

text \<open>C11: The whole daemon, with its USB threads running their loops against the kernel and
  sharing the rings and counters, does nothing that the event system of the server does
  not allow: whatever the kernel answers and however the threads and clients interleave,
  the state of the server after any run of the whole is one the event system reaches, so
  that everything shown of the reachable states holds of the daemon with its USB threads.\<close>

theorem daemon_refines_events:
  assumes "iso_ok (rxh y0)" and "tx_ok (txh y0)" and "(system_moves p wc api env)\<^sup>*\<^sup>* y0 y"
  shows "server_reach p wc api (srv y0) (srv y) \<and> iso_ok (rxh y) \<and> tx_ok (txh y)"
  using daemon.sim_run [OF assms(3)] daemon.good_run [OF assms(3)] assms(1,2)
  by (simp add: system_ok_def server_reach_moves)

theorem daemon_refines_events_witness:
  "\<exists>y. demo_moves\<^sup>*\<^sup>* demo_system y \<and> packets y = [bytes_to_frame (replicate 96 7)] \<and>
     server_reach Release (\<lambda>_. Inr 4) list_ring demo_server0 (srv y)"
proof -
  obtain y where y: "demo_moves\<^sup>*\<^sup>* demo_system y" "packets y = [bytes_to_frame (replicate 96 7)]"
    using demo_system_run by blast
  have "iso_ok (rxh demo_system)" "tx_ok (txh demo_system)" "srv demo_system = demo_server0"
    by (simp_all add: demo_system_def system_init_def demo_iso_ok demo_tx_ok demo_server0_def)
  with daemon_refines_events [OF _ _ y(1)] y show ?thesis by auto
qed

text \<open>C6: Received audio from the device to the clients. The kernel completes receive URBs
  with any status, length and data, and hands back completions in any order. The good
  packets are the completions it handed back by the index of their URB that report status
  0 and at least one byte; each sounds as its bytes say, two per sample, on both channels.
  In every state of the whole daemon: the frames that were published, followed by those
  that wait in the ring, are in their order a subsequence of the good packets; a client
  that reads the shared region gets the last one published; and the receive overrun
  counter a client is told is the number of good packets that are missing. (A kernel that
  hands back the address of a URB instead of its index hands back no good packet in this
  sense: then nothing is published and nothing is counted.)\<close>

theorem usb_audio_end_to_end:
  assumes "ring_fifo api contents RING_CAPACITY" and "contents rx = []" and "contents tx = []"
    and "iso_ok t1" and "armed t1" and "tx_ok t2"
    and "(system_moves p wc api env)\<^sup>*\<^sup>* (system_init fd rx tx t1 t2 ps1 ps2) y"
  shows "subseq (dispatched (srv y) @ contents (rx_consumer (srv y))) (packets y) \<and>
    read_frame_pass (region (srv y)) = Some (last (AudioFrame_default # dispatched (srv y))) \<and>
    rx_xruns (ctx (srv y)) =
      of_nat (length (packets y) - (length (dispatched (srv y)) + length (contents (rx_consumer (srv y)))))"
proof -
  have ok: "rx_side_ok y" using system_run_ok [OF assms] by blast
  have "(server_moves p wc api)\<^sup>*\<^sup>* (srv (system_init fd rx tx t1 t2 ps1 ps2)) (srv y)"
    using assms(4,6) by (intro daemon.sim_run [OF assms(7)]) (simp add: system_ok_def system_init_def)
  then have "server_reach p wc api (server_init fd (replicate SHMEM_SIZE 0) rx tx) (srv y)"
    by (simp add: server_reach_moves system_init_def)
  from reach_init_ok [where contents = contents, OF this assms(1-3)] have "audio_path_ok contents (srv y)"
    by (simp add: server_ok_def)
  with ok show ?thesis by (simp add: audio_path_ok_def rx_side_ok_def)
qed

theorem usb_audio_end_to_end_witness:
  "\<exists>y. demo_moves\<^sup>*\<^sup>* demo_system y \<and> packets y = [bytes_to_frame (replicate 96 7)] \<and>
     subseq (dispatched (srv y) @ rx_consumer (srv y)) (packets y) \<and>
     rx_xruns (ctx (srv y)) = of_nat (1 - (length (dispatched (srv y)) + length (rx_consumer (srv y))))"
proof -
  obtain y where y: "demo_moves\<^sup>*\<^sup>* demo_system y" "packets y = [bytes_to_frame (replicate 96 7)]"
    using demo_system_run by blast
  from usb_audio_end_to_end [OF list_ring_fifo refl refl demo_iso_ok(1,2) demo_tx_ok y(1) [unfolded demo_system_def]] y
  show ?thesis by (intro exI [of _ y]) simp
qed

text \<open>C7: Client audio from the clients to the device. In every state of the whole daemon: the
  frames the transmit ring took are, in order, a subsequence of those the clients wrote;
  the packets handed to the kernel are the 48 left-channel samples of the frames taken,
  low byte first, in order and each frame once, with silent packets between them, and the
  frames not yet played are in the ring; the transmit counter a client is told is the number of frames refused plus the
  number of silent packets.\<close>

theorem client_audio_end_to_end:
  assumes "ring_fifo api contents RING_CAPACITY" and "contents rx = []" and "contents tx = []"
    and "iso_ok t1" and "armed t1" and "tx_ok t2"
    and "(system_moves p wc api env)\<^sup>*\<^sup>* (system_init fd rx tx t1 t2 ps1 ps2) y"
  shows "subseq (tx_in y) (tx_sent y) \<and>
    (\<exists>plays. handed (trace (txp y)) = handed (trace ps2) @ map tx_packet plays \<and>
       tx_in y = map the (filter (\<lambda>x. x \<noteq> None) plays) @ contents (guarded (tx_producer (ctx (srv y)))) \<and>
       tx_xruns (ctx (srv y)) =
         of_nat (length (tx_sent y) - length (tx_in y) + length (filter (\<lambda>x. x = None) plays)))"
  using system_run_ok [OF assms] by (simp add: tx_side_ok_def)

theorem client_audio_end_to_end_witness:
  "\<exists>y plays. demo_moves\<^sup>*\<^sup>* demo_system y \<and> tx_sent y = [AudioFrame_default] \<and>
     handed (trace (txp y)) = map tx_packet plays \<and>
     [AudioFrame_default] = map the (filter (\<lambda>x. x \<noteq> None) plays) @ guarded (tx_producer (ctx (srv y)))"
proof -
  obtain y where y: "demo_moves\<^sup>*\<^sup>* demo_system y" "tx_sent y = [AudioFrame_default]" "tx_in y = [AudioFrame_default]"
    using demo_system_run by blast
  have "handed (trace demo_process) = []" by (simp add: demo_process_def)
  with client_audio_end_to_end [OF list_ring_fifo refl refl demo_iso_ok(1,2) demo_tx_ok y(1) [unfolded demo_system_def]] y
  show ?thesis by (auto simp del: filter.simps)
qed

end
