(* ===== verification/Cm108_Delivery.thy ===== *)
theory Cm108_Delivery
  imports Cm108_Daemon
begin

text \<open>
  What each client of the daemon is told. \<open>addressed\<close> says declaratively which messages an
  event has for a client (audio notices and radio events by subscription, statistics every
  5000 frames, the replies to its own messages); a run of the daemon is accompanied by the
  messages addressed to, written to and refused for each client. The messages written to
  a client followed by those that wait for it are what was addressed to it, in order,
  without those that found its queue full.
\<close>

section \<open>Model\<close>

text \<open>The messages event \<open>e\<close>, leading from \<open>s\<close> to \<open>s'\<close>, has for the client with handle \<open>h\<close>.\<close>

definition audio_notice :: "'r server \<Rightarrow> 'r server \<Rightarrow> ClientHandle \<Rightarrow> ServerMsg list" where
  "audio_notice s s' h =
     (if dispatched s' \<noteq> dispatched s \<and> contains (h_streams h) AUDIO_IN
      then [AudioReady (of_nat (2 * length (dispatched s')))] else [])"

definition stats_notice :: "'r server \<Rightarrow> 'r server \<Rightarrow> ServerMsg list" where
  "stats_notice s s' =
     (if dispatched s' \<noteq> dispatched s \<and> unat (ticker s') mod 5000 = 0
      then [Stats (rx_xruns (ctx s)) (tx_xruns (ctx s)) (reference_stats (last_window s'))] else [])"

definition pin_events :: "GpioState \<Rightarrow> GpioState \<Rightarrow> RadioEvent list" where
  "pin_events old new =
     (if old = new then []
      else (if bit (gpio_bits new) 0 = bit (gpio_bits old) 0 then []
            else [if bit (gpio_bits new) 0 then PttAssert else PttDeassert]) @
           (if bit (gpio_bits new) 1 = bit (gpio_bits old) 1 then []
            else [if bit (gpio_bits new) 1 then CosActive else CosInactive]) @ [GpioChange new])"

definition gpio_notice :: "'r server \<Rightarrow> 'r server \<Rightarrow> ClientHandle \<Rightarrow> ServerMsg list" where
  "gpio_notice s s' h =
     (if contains (h_streams h) GPIO_EVENTS then map RadioEv (pin_events (prev_gpio s) (prev_gpio s')) else [])"

fun addressed :: "server_event \<Rightarrow> 'r server \<Rightarrow> 'r server \<Rightarrow> ClientId \<Rightarrow> ClientHandle \<Rightarrow> ServerMsg list" where
  "addressed (Dispatch el) s s' cid h = audio_notice s s' h @ stats_notice s s'"
| "addressed (PollGpio res) s s' cid h = gpio_notice s s' h"
| "addressed (Receive i msg now) s s' cid h = (if i = cid \<and> i \<in> set (sessions s) then reply_of (ctx s) msg else [])"
| "addressed _ s s' cid h = []"

definition news :: "server_event \<Rightarrow> 'r server \<Rightarrow> 'r server \<Rightarrow> ClientId \<Rightarrow> ServerMsg list" where
  "news e s s' cid =
     (case clients (registry (ctx s)) cid of None \<Rightarrow> [] | Some h \<Rightarrow> addressed e s s' cid h)"

definition waiting :: "'r server \<Rightarrow> ClientId \<Rightarrow> ServerMsg list" where
  "waiting s cid = (case clients (registry (ctx s)) cid of None \<Rightarrow> [] | Some h \<Rightarrow> queued (h_sender h))"

text \<open>A run with, for each client, the messages addressed to it, those its writer thread has
  taken for writing, and how many found no room.\<close>

record 'r convo =
  conv :: "'r server"
  told :: "ClientId \<Rightarrow> ServerMsg list"
  written :: "ClientId \<Rightarrow> ServerMsg list"
  refused :: "ClientId \<Rightarrow> nat"

definition convo_after :: "server_event \<Rightarrow> 'r server \<Rightarrow> 'r convo \<Rightarrow> 'r convo" where
  "convo_after e s' c =
     \<lparr>conv = s',
      told = (\<lambda>cid. told c cid @ news e (conv c) s' cid),
      written = (\<lambda>cid. written c cid @ (if e = WriterSends cid then take 1 (waiting (conv c) cid) else [])),
      refused = (\<lambda>cid. refused c cid + (length (news e (conv c) s' cid) - (CHANNEL_BOUND - length (waiting (conv c) cid))))\<rparr>"

inductive convo_reach :: "profile \<Rightarrow> write_control \<Rightarrow> 'r ring_api \<Rightarrow> 'r server \<Rightarrow> 'r convo \<Rightarrow> bool"
  for p wc api s0 where
  start: "convo_reach p wc api s0 \<lparr>conv = s0, told = (\<lambda>_. []), written = (\<lambda>_. []), refused = (\<lambda>_. 0)\<rparr>"
| step: "convo_reach p wc api s0 c \<Longrightarrow> event_ok e (conv c) \<Longrightarrow> server_step p wc api e (conv c) = Returns s' \<Longrightarrow>
    convo_reach p wc api s0 (convo_after e s' c)"

lemma convo_server: "convo_reach p wc api s0 c \<Longrightarrow> server_reach p wc api s0 (conv c)"
  by (induction rule: convo_reach.induct) (auto simp: convo_after_def intro: server_reach.intros)

section \<open>What a step does to a client's queue\<close>

lemma fst_shm_write: "fst (shm_write r f) = seq_load r + 2"
  by (simp add: shm_write_def Let_def)

lemma pin_events_eq: "old \<noteq> new \<Longrightarrow> gpio_events p new old = Returns (pin_events old new)"
  by (simp add: gpio_events_eq pin_events_def)

lemma clients_send_all:
  "clients r cid = Some h \<Longrightarrow>
   clients (fold broadcast_radio_event evs r) cid =
     Some (if contains (h_streams h) GPIO_EVENTS
           then h\<lparr>h_sender := fold try_send (map RadioEv evs) (h_sender h)\<rparr> else h)"
  by (simp add: fold_broadcast)

text \<open>Every step that keeps a client and is not its writer queues what is addressed to it.\<close>

definition queues :: "ServerMsg list \<Rightarrow> ClientHandle \<Rightarrow> ClientHandle option \<Rightarrow> bool" where
  "queues ms h entry \<longleftrightarrow> (\<forall>h'. entry = Some h' \<longrightarrow> h_sender h' = fold try_send ms (h_sender h))"

lemma queues_refl: "queues [] h (Some h)"
  by (simp add: queues_def)

lemma dispatch_queues:
  assumes "audio_path_ok contents s" "window_ok s" "clients (registry (ctx s)) cid = Some h"
    "server_step p wc api (Dispatch el) s = Returns s'"
  shows "queues (addressed (Dispatch el) s s' cid h) h (clients (registry (ctx s')) cid)"
proof (cases "ring_pop api (rx_consumer s)")
  case None
  with assms(3,4) show ?thesis by (auto simp: dispatch_round_def audio_notice_def stats_notice_def queues_refl)
next
  case (Some fq)
  obtain f q where "fq = (f, q)" by force
  with Some have pop: "ring_pop api (rx_consumer s) = Some (f, q)" by simp
  have sq: "fst (shm_write (region s) f) = of_nat (2 * length (dispatched s @ [f]))"
    using assms(1) by (simp add: fst_shm_write audio_path_ok_def)
  show ?thesis using assms(2) pop
  proof (cases rule: dispatch_round_cases [where p = p and elapsed = el])
    case (plain h' us)
    then have s': "s' = published_state f q us h' s" using assms(4) by simp
    have "unat (ticker s + 1) mod 5000 \<noteq> 0" using plain(2) by (auto simp: window_ok_def published_state_def)
    with s' sq assms(3) show ?thesis
      by (simp add: published_state_def audio_notice_def stats_notice_def queues_def notify_audio_ready_def reg_simps)
  next
    case (snapshot h' us st)
    then have s': "s' = snapshot_state st (published_state f q us h' s)" using assms(4) by simp
    have "unat (ticker s + 1) mod 5000 = 0" "st = reference_stats (us # window s)"
      using snapshot(2) by (simp_all add: window_ok_def published_state_def snapshot_state_def)
    with s' sq assms(3) show ?thesis
      by (simp add: published_state_def snapshot_state_def audio_notice_def stats_notice_def queues_def
          notify_audio_ready_def broadcast_stats_def reg_simps)
  qed
qed

lemma poll_queues:
  assumes "clients (registry (ctx s)) cid = Some h" "server_step p wc api (PollGpio res) s = Returns s'"
  shows "queues (addressed (PollGpio res) s s' cid h) h (clients (registry (ctx s')) cid)"
proof (cases rule: gpio_round_cases [of p res s])
  case (quiet d)
  with assms show ?thesis by (simp add: gpio_notice_def pin_events_def queues_def)
next
  case (change state evs)
  show ?thesis
  proof (cases "state = prev_gpio s")
    case True
    with change(1) assms show ?thesis by (auto simp: gpio_round_def gpio_notice_def pin_events_def queues_def)
  next
    case False
    with change(2) have "evs = pin_events (prev_gpio s) state" by (simp add: pin_events_eq)
    with change assms clients_send_all [OF assms(1), of evs] show ?thesis
      by (auto simp: gpio_notice_def queues_def)
  qed
qed

lemma receive_queues:
  assumes "clients (registry (ctx s)) cid = Some h" "server_step p wc api (Receive i msg now) s = Returns s'"
  shows "queues (addressed (Receive i msg now) s s' cid h) h (clients (registry (ctx s')) cid)"
proof -
  obtain c b where d: "dispatch_client_msg p wc api now i msg (ctx s) = (c, b)" by force
  show ?thesis
  proof (cases "i = cid \<and> i \<in> set (sessions s)")
    case True
    with assms d show ?thesis
      by (cases msg) (auto simp: receive_def dispatch_client_msg_def Let_def queues_def reg_simps
          dest: locked_set_pin_frame(1) split: if_splits prod.splits)
  next
    case False
    have "clients (registry (ctx s')) cid = Some h"
    proof (cases "i \<in> set (sessions s)")
      case True
      with False assms d dispatch_other [OF d, of cid] show ?thesis by (auto simp: receive_def)
    qed (use assms in simp)
    with False show ?thesis by (auto simp: queues_def)
  qed
qed


lemma next_id_unat: "registry_ok n r \<Longrightarrow> n + 1 < 2 ^ 64 \<Longrightarrow> unat (next_id r) = Suc n"
  by (simp add: registry_ok_def unat_of_nat del: of_nat_Suc)

fun joins :: "server_event \<Rightarrow> bool" where
  "joins Accept = True"
| "joins AcceptFails = True"
| "joins _ = False"

lemma joins_other:
  assumes "cid \<noteq> next_id (registry (ctx s))"
  shows "clients (registry (ctx (accept s))) cid = clients (registry (ctx s)) cid"
    "clients (registry (ctx (accept_fails s))) cid = clients (registry (ctx s)) cid"
  using assms by (simp_all add: accept_def accept_fails_def connected_def reg_simps allocate_id_def)

lemma joins_new:
  "clients (registry (ctx (accept s))) (next_id (registry (ctx s))) = Some h \<Longrightarrow> queued (h_sender h) = []"
  "clients (registry (ctx (accept_fails s))) (next_id (registry (ctx s))) = Some h \<Longrightarrow> queued (h_sender h) = []"
  by (auto simp: accept_def accept_fails_def connected_def reg_simps allocate_id_def sync_channel_def)

lemma step_queues:
  assumes "server_ok p contents s" "event_ok e s" "clients (registry (ctx s)) cid = Some h"
    "server_step p wc api e s = Returns s'" "e \<noteq> WriterSends cid" "e \<noteq> WriterFails cid"
  shows "queues (addressed e s s' cid h) h (clients (registry (ctx s')) cid)"
proof -
  have ok: "registry_ok (connects s) (registry (ctx s))" using assms(1) by (simp add: server_ok_def clients_ok_def)
  have fresh: "cid \<noteq> next_id (registry (ctx s))" if "connects s + 1 < 2 ^ 64"
    using registry_okD [OF ok assms(3)] next_id_unat [OF ok that] by (auto simp: handle_ok_def)
  show ?thesis
  proof (cases e)
    case (Dispatch el)
    have "audio_path_ok contents s" "window_ok s" using assms(1) by (simp_all add: server_ok_def)
    from dispatch_queues [OF this assms(3)] assms(4) Dispatch show ?thesis by blast
  next
    case (PollGpio res)
    with assms poll_queues show ?thesis by blast
  next
    case (Receive i msg now)
    with assms receive_queues show ?thesis by blast
  next
    case (Heartbeat now)
    obtain c where c: "locked_set_pin p wc HEARTBEAT_PIN (\<not> pin_state s) (ctx s) = (c, False)"
      "heartbeat_round p wc now s = Returns (s\<lparr>ctx := c, pin_state := \<not> pin_state s\<rparr>, half_period now (last_activity_ms (ctx s)))"
      using heartbeat_round_returns by blast
    with Heartbeat assms(3,4) locked_set_pin_frame(1) [OF c(1)] show ?thesis by (auto simp: queues_def)
  next
    case Accept
    with assms fresh show ?thesis by (auto simp: joins_other queues_def)
  next
    case AcceptFails
    with assms fresh show ?thesis by (auto simp: joins_other queues_def)
  next
    case (Close i)
    with assms(3,4) show ?thesis
      by (cases "i \<in> set (sessions s)") (auto simp: close_session_def queues_def reg_simps split: if_splits)
  qed (use assms(3-) in \<open>auto simp: rx_arrives_def tx_takes_def close_session_def on_channel_def queues_def reg_simps
         split: option.splits\<close>)
qed

text \<open>A step other than connecting makes no client appear.\<close>

lemma step_dom:
  assumes "window_ok s" "server_step p wc api e s = Returns s'" "\<not> joins e"
  shows "dom (clients (registry (ctx s'))) \<subseteq> dom (clients (registry (ctx s)))"
proof (cases "membership e")
  case True
  then show ?thesis
    by (cases rule: membership_cases) (use assms(2,3) in \<open>auto simp: close_session_def reg_simps split: if_splits\<close>)
next
  case False
  have n: "dom (clients (notify_audio_ready sq r)) = dom (clients r)" for sq r
    by (auto simp: notify_audio_ready_def reg_simps)
  from registry_step [OF assms(1,2) False] show ?thesis
    by (elim disjE exE conjE) (simp_all add: reg_edit_dom n)
qed

lemma step_connects:
  assumes "window_ok s" "server_step p wc api e s = Returns s'"
  shows "connects s \<le> connects s'"
proof (cases "membership e")
  case True
  then show ?thesis
    by (cases rule: membership_cases) (use assms(2) in \<open>auto simp: accept_def accept_fails_def close_session_def\<close>)
next
  case False
  from registry_step [OF assms False] show ?thesis by auto
qed

section \<open>Accounting\<close>

definition convo_ok :: "'r convo \<Rightarrow> ClientId \<Rightarrow> bool" where
  "convo_ok c cid \<longleftrightarrow>
     (connects (conv c) < unat cid \<longrightarrow> told c cid = [] \<and> written c cid = [] \<and> refused c cid = 0) \<and>
     (\<forall>h. clients (registry (ctx (conv c))) cid = Some h \<and> receiver_alive (h_sender h) \<longrightarrow>
        subseq (written c cid @ queued (h_sender h)) (told c cid) \<and>
        length (told c cid) = length (written c cid) + length (queued (h_sender h)) + refused c cid)"

lemma fold_try_send_alive [simp]: "receiver_alive (fold try_send ms ch) = receiver_alive ch"
  by (induction ms arbitrary: ch) (simp_all add: chan.put_live)

lemma convo_after_simps [simp]:
  "conv (convo_after e s' c) = s'"
  "told (convo_after e s' c) cid = told c cid @ news e (conv c) s' cid"
  "written (convo_after e s' c) cid =
     written c cid @ (if e = WriterSends cid then take 1 (waiting (conv c) cid) else [])"
  "refused (convo_after e s' c) cid =
     refused c cid + (length (news e (conv c) s' cid) - (CHANNEL_BOUND - length (waiting (conv c) cid)))"
  by (simp_all add: convo_after_def)

text \<open>A client that is not connected: it connects with this step, or stays away.\<close>

lemma convo_ok_absent:
  assumes ok: "server_ok p contents (conv c)" and inv: "convo_ok c cid" and ev: "event_ok e (conv c)"
    and st: "server_step p wc api e (conv c) = Returns s'" and None: "clients (registry (ctx (conv c))) cid = None"
  shows "convo_ok (convo_after e s' c) cid"
proof -
  have w: "window_ok (conv c)" using ok by (simp add: server_ok_def)
  have same: "told (convo_after e s' c) cid = told c cid" "written (convo_after e s' c) cid = written c cid"
    "refused (convo_after e s' c) cid = refused c cid"
    using None by (simp_all add: news_def waiting_def)
  show ?thesis
  proof (cases "joins e \<and> cid = next_id (registry (ctx (conv c)))")
    case True
    have "registry_ok (connects (conv c)) (registry (ctx (conv c)))" "connects (conv c) + 1 < 2 ^ 64"
      using ok ev True by (auto simp: server_ok_def clients_ok_def elim: joins.elims)
    then have "connects (conv c) < unat cid"
      using True next_id_unat by simp
    then have "told c cid = []" "written c cid = []" "refused c cid = 0" using inv by (simp_all add: convo_ok_def)
    moreover have "clients (registry (ctx s')) cid = Some h \<Longrightarrow> queued (h_sender h) = []" for h
      using True st joins_new [of "conv c"] by (auto elim!: joins.elims)
    ultimately show ?thesis by (simp add: convo_ok_def same del: convo_after_simps(2-4))
  next
    case False
    have "clients (registry (ctx s')) cid = None"
    proof (cases "joins e")
      case True
      with False st None joins_other [of cid "conv c"] show ?thesis by (auto elim!: joins.elims)
    next
      case na: False
      from step_dom [OF w st na] None show ?thesis by blast
    qed
    with step_connects [OF w st] inv show ?thesis
      by (simp add: convo_ok_def same del: convo_after_simps(2-4))
  qed
qed

lemma queue_account:
  assumes "length q \<le> bound" "subseq (ws @ q) ts" "length ts = length ws + length q + n"
    "q' = q @ take (bound - length q) ms"
  shows "subseq (ws @ q') (ts @ ms)"
    "length (ts @ ms) = length ws + length q' + (n + (length ms - (bound - length q)))"
proof -
  have "subseq ((ws @ q) @ take (bound - length q) ms) (ts @ ms)"
    by (rule list_emb_append_mono [OF assms(2)]) (simp add: prefix_imp_subseq take_is_prefix)
  then show "subseq (ws @ q') (ts @ ms)" using assms(4) by simp
  show "length (ts @ ms) = length ws + length q' + (n + (length ms - (bound - length q)))"
    using assms by simp
qed

lemma convo_ok_step:
  assumes ok: "server_ok p contents (conv c)" and inv: "convo_ok c cid" and ev: "event_ok e (conv c)"
    and st: "server_step p wc api e (conv c) = Returns s'"
  shows "convo_ok (convo_after e s' c) cid"
proof (cases "clients (registry (ctx (conv c))) cid")
  case None
  with assms show ?thesis by (rule convo_ok_absent)
next
  case (Some h)
  have w: "window_ok (conv c)" and r: "registry_ok (connects (conv c)) (registry (ctx (conv c)))"
    using ok by (simp_all add: server_ok_def clients_ok_def)
  have h: "unat cid \<le> connects (conv c)" "length (queued (h_sender h)) \<le> CHANNEL_BOUND"
    using registry_okD [OF r Some] by (simp_all add: handle_ok_def)
  have old: "unat cid \<le> connects s'" using h(1) step_connects [OF w st] by simp
  have wt: "waiting (conv c) cid = queued (h_sender h)" and nw: "news e (conv c) s' cid = addressed e (conv c) s' cid h"
    using Some by (simp_all add: waiting_def news_def)
  have "subseq (written (convo_after e s' c) cid @ queued (h_sender h')) (told (convo_after e s' c) cid) \<and>
      length (told (convo_after e s' c) cid) =
        length (written (convo_after e s' c) cid) + length (queued (h_sender h')) + refused (convo_after e s' c) cid"
    if h': "clients (registry (ctx s')) cid = Some h'" "receiver_alive (h_sender h')" for h'
  proof -
    consider "e = WriterSends cid" | "e = WriterFails cid" | "e \<noteq> WriterSends cid" "e \<noteq> WriterFails cid" by blast
    then show ?thesis
    proof cases
      case 1
      then have "h_sender h' = (h_sender h)\<lparr>queued := tl (queued (h_sender h))\<rparr>" using st Some h'(1) by (auto simp: on_channel_def)
      moreover from this have "receiver_alive (h_sender h)" using h'(2) by simp
      moreover have "take 1 xs @ tl xs = xs" "length (take 1 xs) + length (tl xs) = length xs" for xs :: "ServerMsg list"
        by (cases xs; simp)+
      ultimately show ?thesis using inv Some 1 wt nw by (simp add: convo_ok_def)
    next
      case 2
      with st Some h' show ?thesis by (auto simp: on_channel_def)
    next
      case 3
      from step_queues [OF ok ev Some st 3] h'(1)
      have s: "h_sender h' = fold try_send (addressed e (conv c) s' cid h) (h_sender h)" by (simp add: queues_def)
      with h'(2) have a: "receiver_alive (h_sender h)" by simp
      from chan.put_all [OF a h(2)] s have q: "queued (h_sender h') = queued (h_sender h) @
          take (CHANNEL_BOUND - length (queued (h_sender h))) (addressed e (conv c) s' cid h)" by simp
      have i: "subseq (written c cid @ queued (h_sender h)) (told c cid)"
        "length (told c cid) = length (written c cid) + length (queued (h_sender h)) + refused c cid"
        using inv Some a by (simp_all add: convo_ok_def)
      from queue_account [OF h(2) i q] 3 wt nw show ?thesis by simp
    qed
  qed
  with old show ?thesis by (simp add: convo_ok_def del: convo_after_simps(2-4))
qed

lemma convo_reach_ok:
  assumes "convo_reach p wc api (server_init fd (replicate SHMEM_SIZE 0) rx tx) c"
    and "ring_fifo api contents RING_CAPACITY" "contents rx = []" "contents tx = []"
  shows "convo_ok c cid"
  using assms(1)
proof (induction rule: convo_reach.induct)
  case start
  show ?case by (simp add: convo_ok_def server_init_def ClientRegistry_new_def)
next
  case (step c e s')
  have "server_ok p contents (conv c)"
    using reach_init_ok [where contents = contents, OF convo_server [OF step.hyps(1)] assms(2-4)] .
  from convo_ok_step [OF this step.IH step.hyps(2,3)] show ?case .
qed

section \<open>Properties\<close>

text \<open>C10: What a client is told. In every run of the daemon, for every client whose writer
  thread is alive: the messages written to it followed by those that wait in its queue
  are, in order and without repetition, messages addressed to it (a notice with the number
  of each published frame if it subscribed to audio; the PTT, COS and state events of each
  change of the input pins if it subscribed to events; the statistics after every 5000
  frames; the replies to its own messages); and the number of those missing is exactly the
  number of messages that came when its queue of 128 was full. A client whose queue never
  overflowed has lost nothing.\<close>

theorem client_told_everything:
  assumes "ring_fifo api contents RING_CAPACITY" and "contents rx = []" and "contents tx = []"
    and "convo_reach p wc api (server_init fd (replicate SHMEM_SIZE 0) rx tx) c"
    and "clients (registry (ctx (conv c))) cid = Some h" and "receiver_alive (h_sender h)"
  shows "subseq (written c cid @ queued (h_sender h)) (told c cid) \<and>
    length (told c cid) = length (written c cid) + length (queued (h_sender h)) + refused c cid \<and>
    (refused c cid = 0 \<longrightarrow> written c cid @ queued (h_sender h) = told c cid)"
proof -
  have "subseq (written c cid @ queued (h_sender h)) (told c cid)"
    "length (told c cid) = length (written c cid) + length (queued (h_sender h)) + refused c cid"
    using convo_reach_ok [where contents = contents, OF assms(4,1-3)] assms(5,6) by (simp_all add: convo_ok_def)
  then show ?thesis by (simp add: subseq_same_length)
qed

text \<open>A run: a client connects, pings twice, and its writer thread takes the first reply.\<close>

lemma demo_convo:
  "\<exists>c h. convo_reach Release (\<lambda>_. Inr 4) list_ring demo_server0 c \<and>
     clients (registry (ctx (conv c))) 1 = Some h \<and> receiver_alive (h_sender h) \<and>
     told c 1 = [Pong, Pong] \<and> written c 1 = [Pong] \<and> refused c 1 = 0"
proof -
  let ?reach = "convo_reach Release (\<lambda>_. Inr 4) list_ring demo_server0"
  define c0 where "c0 = \<lparr>conv = demo_server0, told = (\<lambda>_. []), written = (\<lambda>_. []), refused = (\<lambda>_. 0)\<rparr>"
  have 0: "?reach c0" unfolding c0_def by (rule convo_reach.start)
  define c1 where "c1 = convo_after Accept (accept (conv c0)) c0"
  have 1: "?reach c1" unfolding c1_def
    by (rule convo_reach.step [OF 0]) (simp_all add: c0_def demo_server0_def server_init_def)
  have s1: "sessions (conv c1) = [1]"
    "clients (registry (ctx (conv c1))) = [1 \<mapsto> \<lparr>h_id = 1, h_streams = flags_empty, h_sender = sync_channel\<rparr>]"
    "told c1 1 = []" "written c1 1 = []" "refused c1 1 = 0"
    by (simp_all add: c1_def c0_def accept_def connected_def demo_server0_def server_init_def allocate_id_def
        ClientRegistry_new_def register_def news_def)
  have ping: "\<exists>c'. ?reach c' \<and> sessions (conv c') = [1] \<and> told c' 1 = told c 1 @ [Pong] \<and> written c' 1 = written c 1 \<and>
      refused c' 1 = refused c 1 \<and>
      clients (registry (ctx (conv c'))) 1 = Some \<lparr>h_id = 1, h_streams = flags_empty,
        h_sender = \<lparr>queued = q @ [Pong], receiver_alive = True\<rparr>\<rparr>"
    if c: "?reach c" "sessions (conv c) = [1]" "length q < 128"
      "clients (registry (ctx (conv c))) 1 = Some \<lparr>h_id = 1, h_streams = flags_empty,
         h_sender = \<lparr>queued = q, receiver_alive = True\<rparr>\<rparr>" for c q
  proof (intro exI conjI)
    let ?s = "receive Release (\<lambda>_. Inr 4) list_ring 1 Ping None (conv c)"
    show "?reach (convo_after (Receive 1 Ping None) ?s c)" by (rule convo_reach.step [OF c(1)]) (simp_all add: c(2))
  qed (use c in \<open>simp_all add: receive_def dispatch_client_msg_def reg_simps try_send_def CHANNEL_BOUND_def news_def waiting_def\<close>)
  have "\<exists>c2. ?reach c2 \<and> sessions (conv c2) = [1] \<and> told c2 1 = [Pong] \<and> written c2 1 = [] \<and> refused c2 1 = 0 \<and>
      clients (registry (ctx (conv c2))) 1 = Some \<lparr>h_id = 1, h_streams = flags_empty,
        h_sender = \<lparr>queued = [Pong], receiver_alive = True\<rparr>\<rparr>"
    using ping [OF 1 s1(1), of "[]"] s1 by (simp add: sync_channel_def)
  then obtain c2 where c2: "?reach c2" "sessions (conv c2) = [1]" "told c2 1 = [Pong]" "written c2 1 = []" "refused c2 1 = 0"
    "clients (registry (ctx (conv c2))) 1 = Some \<lparr>h_id = 1, h_streams = flags_empty,
        h_sender = \<lparr>queued = [Pong], receiver_alive = True\<rparr>\<rparr>" by blast
  obtain c3 where c3: "?reach c3" "told c3 1 = [Pong, Pong]" "written c3 1 = []" "refused c3 1 = 0"
    "clients (registry (ctx (conv c3))) 1 = Some \<lparr>h_id = 1, h_streams = flags_empty,
        h_sender = \<lparr>queued = [Pong, Pong], receiver_alive = True\<rparr>\<rparr>"
    using ping [OF c2(1,2) _ c2(6)] c2 by auto
  let ?s4 = "on_channel 1 (\<lambda>c. c\<lparr>queued := tl (queued c)\<rparr>) (conv c3)"
  have "?reach (convo_after (WriterSends 1) ?s4 c3)" by (rule convo_reach.step [OF c3(1)]) simp_all
  moreover have "\<exists>h. clients (registry (ctx ?s4)) 1 = Some h \<and> receiver_alive (h_sender h)"
    using c3(5) by (simp add: on_channel_def)
  ultimately show ?thesis using c3
    by (intro exI [of _ "convo_after (WriterSends 1) ?s4 c3"]) (auto simp: news_def waiting_def)
qed

theorem client_told_everything_witness:
  "\<exists>c h. convo_reach Release (\<lambda>_. Inr 4) list_ring demo_server0 c \<and> clients (registry (ctx (conv c))) 1 = Some h \<and>
     told c 1 = [Pong, Pong] \<and> written c 1 = [Pong] \<and> written c 1 @ queued (h_sender h) = told c 1"
proof -
  obtain c h where c: "convo_reach Release (\<lambda>_. Inr 4) list_ring demo_server0 c"
    "clients (registry (ctx (conv c))) 1 = Some h" "receiver_alive (h_sender h)"
    "told c 1 = [Pong, Pong]" "written c 1 = [Pong]" "refused c 1 = 0"
    using demo_convo by blast
  from client_told_everything [OF list_ring_fifo refl refl c(1) [unfolded demo_server0_def] c(2,3)] c
  show ?thesis by blast
qed

end
