(* ===== verification/Cm108_Main.thy ===== *)
theory Cm108_Main
  imports Cm108_Types
begin

text \<open>
  The daemon's command line and log levels, \<^verbatim>\<open>crates/cm108-server/src/main.rs\<close>, with
  \<open>set_log_level\<close> of \<^verbatim>\<open>crates/cm108-hal/src/lib.rs\<close>. The environment is an argument;
  an exit carries its code and the lines printed before it.
\<close>

section \<open>Arguments\<close>

datatype parsed = Parsed string string | Exit nat "string list"

definition default_socket :: string where
  "default_socket = ''/run/cm108d/cm108d.sock''"

definition help_text :: "string list" where
  "help_text =
     [''Usage: cm108d [OPTIONS]'',
      '''',
      ''Options:'',
      ''  --socket PATH   Unix socket path  (env: CM108_SOCKET, default: /run/cm108d/cm108d.sock)'',
      ''  --log LEVEL     Log level         (env: CM108_LOG,    default: info)'',
      ''                  Levels: trace | debug | info | warn | error'',
      ''  --help          Show this help'']"

text \<open>The loop over the arguments; \<open>--socket\<close> without a value gives the empty path,
  \<open>--log\<close> without a value the default level.\<close>

fun parse_loop :: "string list \<Rightarrow> string \<Rightarrow> string \<Rightarrow> parsed" where
  "parse_loop [] socket log = Parsed socket log"
| "parse_loop (arg # raw) socket log =
     (if arg = ''--help'' \<or> arg = ''-h'' then Exit 0 help_text
      else if take 9 arg = ''--socket='' then parse_loop raw (drop 9 arg) log
      else if arg = ''--socket'' then
        (case raw of [] \<Rightarrow> Parsed '''' log | v # raw' \<Rightarrow> parse_loop raw' v log)
      else if take 6 arg = ''--log='' then parse_loop raw socket (drop 6 arg)
      else if arg = ''--log'' then
        (case raw of [] \<Rightarrow> Parsed socket ''info'' | v # raw' \<Rightarrow> parse_loop raw' socket v)
      else Exit 1 [''cm108d: unknown argument: '' @ arg])"

definition parse_args :: "string option \<Rightarrow> string option \<Rightarrow> string list \<Rightarrow> parsed" where
  "parse_args env_socket env_log args =
     parse_loop (drop 1 args)
       (case env_socket of Some v \<Rightarrow> v | None \<Rightarrow> default_socket)
       (case env_log of Some v \<Rightarrow> v | None \<Rightarrow> ''info'')"

section \<open>Log levels\<close>

definition level_from_str :: "string \<Rightarrow> u8" where
  "level_from_str s =
     (if s = ''trace'' then 0 else if s = ''debug'' then 1 else if s = ''info'' then 2
      else if s = ''warn'' then 3 else if s = ''error'' then 4 else 2)"

text \<open>The level of the daemon and that of the hardware crate.\<close>

record log_levels =
  server_level :: u8
  hal_level :: u8

definition log_init :: log_levels where
  "log_init = \<lparr>server_level = 2, hal_level = 2\<rparr>"

definition set_log_level :: "u8 \<Rightarrow> log_levels \<Rightarrow> log_levels" where
  "set_log_level level s = s\<lparr>hal_level := level\<rparr>"

definition log_debug_on :: "u8 \<Rightarrow> bool" where "log_debug_on level \<longleftrightarrow> level \<le> 1"
definition log_info_on :: "u8 \<Rightarrow> bool" where "log_info_on level \<longleftrightarrow> level \<le> 2"
definition log_warn_on :: "u8 \<Rightarrow> bool" where "log_warn_on level \<longleftrightarrow> level \<le> 3"

text \<open>\<open>main\<close> up to the call of \<open>server::run\<close>: the socket path it is called with and the
  log levels, or the exit code.\<close>

definition main_start :: "string option \<Rightarrow> string option \<Rightarrow> string list
    \<Rightarrow> nat \<times> string list + string \<times> log_levels" where
  "main_start env_socket env_log args =
     (case parse_args env_socket env_log args of
        Exit k printed \<Rightarrow> Inl (k, printed)
      | Parsed socket log \<Rightarrow>
          (let level = level_from_str log in
           Inr (socket, set_log_level level (log_init\<lparr>server_level := level\<rparr>))))"

section \<open>Writing an option list\<close>

text \<open>An option as its meaning and whether it is written in one argument
  (\<open>--socket=PATH\<close>) or in two (\<open>--socket PATH\<close>).\<close>

datatype opt = SocketOpt bool string | LogOpt bool string

fun render :: "opt \<Rightarrow> string list" where
  "render (SocketOpt joined v) = (if joined then [''--socket='' @ v] else [''--socket'', v])"
| "render (LogOpt joined v) = (if joined then [''--log='' @ v] else [''--log'', v])"

fun meaning :: "opt list \<Rightarrow> string \<Rightarrow> string \<Rightarrow> string \<times> string" where
  "meaning [] s l = (s, l)"
| "meaning (SocketOpt _ v # os) s l = meaning os v l"
| "meaning (LogOpt _ v # os) s l = meaning os s v"

lemma parse_render:
  "parse_loop (concat (map render os) @ rest) s l = (case meaning os s l of (s', l') \<Rightarrow> parse_loop rest s' l')"
  by (induction os s l rule: meaning.induct) simp_all

section \<open>Properties\<close>

text \<open>The command line means what it says: any list of socket and log options, each
  written in one argument or two and with any value, is parsed to the last value given
  for each, with the environment (or the built-in default) for those not given; both
  crates log at the level named, an unknown name counting as \<open>info\<close>; and an unknown
  argument behind the options stops the daemon with exit code 1 and a line that names
  it, a help request with exit code 0 and the help text.\<close>

lemma command_line_parsed:
  "(let (s, l) = meaning os (case env_socket of Some v \<Rightarrow> v | None \<Rightarrow> default_socket)
                            (case env_log of Some v \<Rightarrow> v | None \<Rightarrow> ''info'')
    in main_start env_socket env_log (prog # concat (map render os)) =
         Inr (s, \<lparr>server_level = level_from_str l, hal_level = level_from_str l\<rparr>) \<and>
       main_start env_socket env_log (prog # concat (map render os) @ ''--help'' # more_args) = Inl (0, help_text) \<and>
       main_start env_socket env_log (prog # concat (map render os) @ ''--verbose'' # more_args) =
         Inl (1, [''cm108d: unknown argument: --verbose'']))"
  using parse_render [of os "[]"] parse_render [of os "''--help'' # more_args"]
    parse_render [of os "''--verbose'' # more_args"]
  by (simp add: main_start_def parse_args_def set_log_level_def log_init_def Let_def split_beta)

end
