(* ===== verification/Cm108_Startup.thy ===== *)
theory Cm108_Startup
  imports Cm108_Daemon Cm108_Main
begin

text \<open>
  The start of the daemon, \<open>main\<close> of \<^verbatim>\<open>crates/cm108-server/src/main.rs\<close> and \<open>run\<close> of
  \<^verbatim>\<open>crates/cm108-server/src/server.rs\<close>: the device, the shared region, the USB threads,
  the three threads of the daemon, the socket with its directory, and the accept loop.
  The file system answers each operation given the operations before it, like the kernel
  of \<open>Cm108_Kernel\<close>. Paths are lists of components, by which Rust compares them.
\<close>

section \<open>Paths\<close>

datatype component = RootDir | CurDir | ParentDir | Normal string

fun split_slash :: "string \<Rightarrow> string list" where
  "split_slash [] = [[]]"
| "split_slash (c # cs) =
     (if c = CHR ''/'' then [] # split_slash cs
      else case split_slash cs of [] \<Rightarrow> [[c]] | w # ws \<Rightarrow> (c # w) # ws)"

text \<open>Repeated slashes and inner dots are dropped; a leading dot counts.\<close>

definition comp_of :: "string \<Rightarrow> component list" where
  "comp_of w = (if w = '''' \<or> w = ''.'' then [] else if w = ''..'' then [ParentDir] else [Normal w])"

definition path_components :: "string \<Rightarrow> component list" where
  "path_components p =
     (case split_slash p of
        [] \<Rightarrow> []
      | w # ws \<Rightarrow>
          (if p \<noteq> '''' \<and> w = '''' then [RootDir] else if w = ''.'' then [CurDir] else comp_of w) @
          concat (map comp_of ws))"

definition path_parent :: "component list \<Rightarrow> component list option" where
  "path_parent cs = (if cs = [] \<or> last cs = RootDir then None else Some (butlast cs))"

section \<open>The socket\<close>

datatype fs_call =
    PathExists "component list"
  | RemoveFile "component list"
  | CreateDirAll "component list"
  | SetPermissions "component list" nat
  | BindListener "component list"

type_synonym fs = "fs_call list \<Rightarrow> fs_call \<Rightarrow> ErrorKind + unit"

definition fs_do :: "fs \<Rightarrow> fs_call \<Rightarrow> fs_call list \<Rightarrow> (ErrorKind + unit) \<times> fs_call list" where
  "fs_do fs c tr = (fs tr c, tr @ [c])"

text \<open>The mode is \<open>0o755\<close>.\<close>

definition socket_setup :: "fs \<Rightarrow> component list \<Rightarrow> fs_call list \<Rightarrow> (ErrorKind + unit) \<times> fs_call list" where
  "socket_setup fs sock_path tr =
     (let (ex, tr1) = fs_do fs (PathExists sock_path) tr;
          (removed, tr2) = (if ex = Inr () then fs_do fs (RemoveFile sock_path) tr1 else (Inr (), tr1))
      in case removed of
           Inl e \<Rightarrow> (Inl e, tr2)
         | Inr _ \<Rightarrow>
             (case path_parent sock_path of
                None \<Rightarrow> fs_do fs (BindListener sock_path) tr2
              | Some parent \<Rightarrow>
                  (let (made, tr3) = fs_do fs (CreateDirAll parent) tr2
                   in case made of
                        Inl e \<Rightarrow> (Inl e, tr3)
                      | Inr _ \<Rightarrow>
                          (let (_, tr4) = fs_do fs (SetPermissions parent 493) tr3
                           in fs_do fs (BindListener sock_path) tr4))))"

section \<open>The daemon's own threads\<close>

datatype daemon_thread = DispatchThread | GpioThread | HeartbeatThread

text \<open>Spawning stops at the first failure.\<close>

fun spawn_all :: "(daemon_thread \<Rightarrow> ErrorKind + unit) \<Rightarrow> daemon_thread list \<Rightarrow> (ErrorKind + unit) \<times> daemon_thread list" where
  "spawn_all spawn [] = (Inr (), [])"
| "spawn_all spawn (t # ts) =
     (case spawn t of
        Inl e \<Rightarrow> (Inl e, [])
      | Inr _ \<Rightarrow> (case spawn_all spawn ts of (r, started) \<Rightarrow> (r, t # started)))"

section \<open>run\<close>

datatype run_error = RunHal HalError | RunIo ErrorKind

text \<open>What a start has done: USB threads and daemon threads started, file operations.\<close>

record startup =
  usb_started :: "iso_spawn list"
  own_started :: "daemon_thread list"
  fs_trace :: "fs_call list"

text \<open>The environment of a start: the result of opening the device, the ring buffers, error
  texts, and which threads can be spawned.\<close>

record ('h, 'r) start_env =
  opened :: "HalError + 'h Cm108Device"
  os :: kernel
  file_system :: fs
  new_ring :: "nat \<Rightarrow> 'r"
  error_text :: "ErrorKind \<Rightarrow> rstring"
  spawn_usb :: "iso_spawn \<Rightarrow> ErrorKind + unit"
  spawn_own :: "daemon_thread \<Rightarrow> ErrorKind + unit"

definition server_log_info :: "rstring \<Rightarrow> process \<Rightarrow> process" where
  "server_log_info = eprint_at 2 ''[INFO]  ''"

definition server_log_warn :: "rstring \<Rightarrow> process \<Rightarrow> process" where
  "server_log_warn = eprint_at 3 ''[WARN]  ''"

text \<open>\<open>run\<close> up to the accept loop. The first failure is returned from \<open>main\<close> and ends the
  process.\<close>

definition run_setup :: "('h, 'r) start_env \<Rightarrow> string \<Rightarrow> process
    \<Rightarrow> ((run_error + 'r server) \<times> process \<times> startup) outcome" where
  "run_setup env socket_path ps =
     (let none = \<lparr>usb_started = [], own_started = [], fs_trace = []\<rparr> in
      case opened env of
        Inl e \<Rightarrow> Returns (Inl (RunHal e), ps, none)
      | Inr dev \<Rightarrow>
          obind (AudioShmem_create (os env) (str ''cm108-rx'') ps) (\<lambda>(shm, ps1). Returns
          (case shm of
             Inl e \<Rightarrow> (Inl (RunIo e), ps1, none)
           | Inr m \<Rightarrow>
               (case iso_stream_start (new_ring env) (error_text env) (spawn_usb env) 90 90 1 1 of
                  (Inl e, usb) \<Rightarrow> (Inl (RunHal e), ps1, none\<lparr>usb_started := usb\<rparr>)
                | (Inr st, usb) \<Rightarrow>
                    (case spawn_all (spawn_own env) [DispatchThread, GpioThread, HeartbeatThread] of
                       (Inl e, own) \<Rightarrow> (Inl (RunIo e), ps1, none\<lparr>usb_started := usb, own_started := own\<rparr>)
                     | (Inr _, own) \<Rightarrow>
                         (case socket_setup (file_system env) (path_components socket_path) [] of
                            (Inl e, tr) \<Rightarrow> (Inl (RunIo e), ps1, \<lparr>usb_started = usb, own_started = own, fs_trace = tr\<rparr>)
                          | (Inr _, tr) \<Rightarrow>
                              (Inr (server_init (raw_fd m) (replicate SHMEM_SIZE 0)
                                      (iso_rx_consumer st) (iso_tx_producer st)),
                               server_log_info (str (''cm108d listening socket='' @ socket_path)) ps1,
                               \<lparr>usb_started = usb, own_started = own, fs_trace = tr\<rparr>)))))))"

text \<open>The accept loop over the first connections that arrive: an accepted stream with
  whether a thread for its handler can be created, or an error. \<open>thread::spawn\<close> panics
  when it cannot, here in the main thread. The result are the streams handed to a
  handler.\<close>

fun accept_loop :: "(ErrorKind \<Rightarrow> rstring) \<Rightarrow> (ErrorKind + 'c \<times> bool) list \<Rightarrow> 'c list \<Rightarrow> process \<Rightarrow> ('c list \<times> process) outcome" where
  "accept_loop io_text [] handled ps = Returns (handled, ps)"
| "accept_loop io_text (Inr (stream, can_spawn) # conns) handled ps =
     (if can_spawn then accept_loop io_text conns (handled @ [stream]) ps else Panics)"
| "accept_loop io_text (Inl e # conns) handled ps =
     accept_loop io_text conns handled (server_log_warn (str ''accept error: '' @ io_text e) ps)"

section \<open>The poller thread\<close>

text \<open>Configuration, then the loop over the results of the first interrupt transfers, with
  the sum of the pauses in milliseconds. The rounds change the state as in
  \<open>Cm108_Server\<close>; a failed transfer is logged.\<close>

fun gpio_loop :: "(RusbError \<Rightarrow> rstring) \<Rightarrow> profile \<Rightarrow> (RusbError + bytes) list \<Rightarrow> 'r server \<Rightarrow> process
    \<Rightarrow> ('r server \<times> process \<times> nat) outcome" where
  "gpio_loop rusb_txt p [] s ps = Returns (s, ps, 0)"
| "gpio_loop rusb_txt p (r # rs) s ps =
     obind (gpio_round p r s) (\<lambda>(s1, pause).
     let ps1 = (case read_state r of
                  Inl e \<Rightarrow> server_log_warn (str ''HID poll error: '' @ display_HalError rusb_txt e) ps
                | Inr _ \<Rightarrow> ps)
     in obind (gpio_loop rusb_txt p rs s1 ps1) (\<lambda>(s2, ps2, t). Returns (s2, ps2, pause + t)))"

definition gpio_thread :: "kernel \<Rightarrow> cpu_lib \<Rightarrow> (RusbError \<Rightarrow> rstring) \<Rightarrow> profile \<Rightarrow> (RusbError + bytes) list
    \<Rightarrow> 'r server \<Rightarrow> process \<Rightarrow> ('r server \<times> process \<times> nat) outcome" where
  "gpio_thread k lib rusb_txt p rs s ps = obind (gpio_thread_rt k lib ps) (gpio_loop rusb_txt p rs s)"

text \<open>Reference: the states of the rounds alone, and the transfers that failed.\<close>

fun gpio_rounds :: "profile \<Rightarrow> (RusbError + bytes) list \<Rightarrow> 'r server \<Rightarrow> 'r server outcome" where
  "gpio_rounds p [] s = Returns s"
| "gpio_rounds p (r # rs) s = obind (gpio_round p r s) (\<lambda>(s', _). gpio_rounds p rs s')"

definition poll_errors :: "(RusbError + bytes) list \<Rightarrow> HalError list" where
  "poll_errors rs = concat (map (\<lambda>r. case read_state r of Inl e \<Rightarrow> [e] | Inr _ \<Rightarrow> []) rs)"

section \<open>main\<close>

text \<open>An exit code of the command line, or what \<open>run\<close> does with the socket path and the log
  level. Both crates log at one level (\<open>command_line_parsed\<close>).\<close>

definition main_run :: "string option \<Rightarrow> string option \<Rightarrow> string list \<Rightarrow> ('h, 'r) start_env \<Rightarrow> process
    \<Rightarrow> nat \<times> string list + ((run_error + 'r server) \<times> process \<times> startup) outcome" where
  "main_run env_socket env_log args env ps =
     (case main_start env_socket env_log args of
        Inl stop \<Rightarrow> Inl stop
      | Inr (socket, levels) \<Rightarrow> Inr (run_setup env socket (ps\<lparr>log_level := server_level levels\<rparr>)))"

section \<open>The plan of the socket\<close>

text \<open>Reference: calls made one after the other up to the first failure, except those whose
  failure does not matter.\<close>

fun run_plan :: "fs \<Rightarrow> (fs_call \<Rightarrow> bool) \<Rightarrow> fs_call list \<Rightarrow> fs_call list \<Rightarrow> (ErrorKind + unit) \<times> fs_call list" where
  "run_plan fs optional [] tr = (Inr (), tr)"
| "run_plan fs optional (c # cs) tr =
     (case fs tr c of
        Inl e \<Rightarrow> if optional c then run_plan fs optional cs (tr @ [c]) else (Inl e, tr @ [c])
      | Inr _ \<Rightarrow> run_plan fs optional cs (tr @ [c]))"

fun optional_call :: "fs_call \<Rightarrow> bool" where
  "optional_call (PathExists p) = True"
| "optional_call (SetPermissions p mode) = True"
| "optional_call _ = False"

definition socket_plan :: "fs \<Rightarrow> component list \<Rightarrow> fs_call list" where
  "socket_plan fs p =
     [PathExists p] @ (if fs [] (PathExists p) = Inr () then [RemoveFile p] else []) @
     (case path_parent p of Some d \<Rightarrow> [CreateDirAll d, SetPermissions d 493] | None \<Rightarrow> []) @ [BindListener p]"

lemma run_plan_prefix: "run_plan fs optional cs tr = (r, tr') \<Longrightarrow> prefix tr' (tr @ cs)"
  by (induction fs optional cs tr arbitrary: r tr' rule: run_plan.induct) (auto split: sum.splits if_splits)

lemma run_plan_done: "run_plan fs optional cs tr = (Inr (), tr') \<Longrightarrow> tr' = tr @ cs"
  by (induction fs optional cs tr arbitrary: tr' rule: run_plan.induct) (auto split: sum.splits if_splits)

lemma socket_setup_plan: "socket_setup fs p [] = run_plan fs optional_call (socket_plan fs p) []"
  by (cases "fs [] (PathExists p)"; cases "path_parent p")
    (auto simp: socket_setup_def fs_do_def socket_plan_def Let_def split: sum.split)

lemma socket_setup_trace:
  assumes "socket_setup fs p [] = (r, tr)"
  shows "prefix tr (socket_plan fs p)" "r = Inr () \<Longrightarrow> tr = socket_plan fs p"
  using run_plan_prefix [of fs optional_call "socket_plan fs p" "[]" r tr]
    run_plan_done [of fs optional_call "socket_plan fs p" "[]" tr] assms
  by (simp_all add: socket_setup_plan)

lemma spawn_all_prefix: "spawn_all spawn ts = (r, started) \<Longrightarrow> prefix started ts"
  by (induction ts arbitrary: started) (auto split: sum.splits prod.splits)

lemma spawn_all_done: "spawn_all spawn ts = (r, started) \<Longrightarrow> r = Inr () \<longleftrightarrow> (\<forall>t \<in> set ts. spawn t = Inr ())"
  by (induction ts arbitrary: started) (auto split: sum.splits prod.splits)

lemma spawn_all_ok: "spawn_all spawn ts = (Inr (), started) \<Longrightarrow> started = ts"
  by (induction ts arbitrary: started) (auto split: sum.splits prod.splits)

text \<open>The stages of \<open>run\<close> after the shared region exists.\<close>

lemma run_setup_region:
  assumes "opened env = Inr dev" "AudioShmem_create (os env) (str ''cm108-rx'') ps = Returns (Inr m, ps1)"
  obtains (usb) e started where "run_setup env path ps =
        Returns (Inl (RunHal e), ps1, \<lparr>usb_started = started, own_started = [], fs_trace = []\<rparr>)"
      "prefix started [SpawnRx 90 1, SpawnTx 90 1]"
      "spawn_usb env (SpawnRx 90 1) \<noteq> Inr () \<or> spawn_usb env (SpawnTx 90 1) \<noteq> Inr ()"
  | (own) e own where "run_setup env path ps =
        Returns (Inl (RunIo e), ps1, \<lparr>usb_started = [SpawnRx 90 1, SpawnTx 90 1], own_started = own, fs_trace = []\<rparr>)"
      "prefix own [DispatchThread, GpioThread, HeartbeatThread]" "\<not> (\<forall>t. spawn_own env t = Inr ())"
  | (socket) e tr where "run_setup env path ps =
        Returns (Inl (RunIo e), ps1, \<lparr>usb_started = [SpawnRx 90 1, SpawnTx 90 1],
          own_started = [DispatchThread, GpioThread, HeartbeatThread], fs_trace = tr\<rparr>)"
      "socket_setup (file_system env) (path_components path) [] = (Inl e, tr)"
  | (serves) tr where "run_setup env path ps =
        Returns (Inr (server_init (shm_file m) (replicate SHMEM_SIZE 0) (new_ring env RING_CAPACITY) (new_ring env RING_CAPACITY)),
          server_log_info (str (''cm108d listening socket='' @ path)) ps1,
          \<lparr>usb_started = [SpawnRx 90 1, SpawnTx 90 1], own_started = [DispatchThread, GpioThread, HeartbeatThread], fs_trace = tr\<rparr>)"
      "socket_setup (file_system env) (path_components path) [] = (Inr (), tr)"
      "spawn_usb env (SpawnRx 90 1) = Inr ()" "spawn_usb env (SpawnTx 90 1) = Inr ()" "\<forall>t. spawn_own env t = Inr ()"
proof -
  obtain r own where own: "spawn_all (spawn_own env) [DispatchThread, GpioThread, HeartbeatThread] = (r, own)" by force
  have all: "r = Inr () \<longleftrightarrow> (\<forall>t. spawn_own env t = Inr ())"
    using spawn_all_done [OF own] by (auto simp del: spawn_all.simps) (metis daemon_thread.exhaust)
  obtain rs tr where sock: "socket_setup (file_system env) (path_components path) [] = (rs, tr)" by force
  note run = run_setup_def assms own sock iso_stream_start_def raw_fd_def
  consider e where "spawn_usb env (SpawnRx 90 1) = Inl e"
    | e where "spawn_usb env (SpawnRx 90 1) = Inr ()" "spawn_usb env (SpawnTx 90 1) = Inl e"
    | "spawn_usb env (SpawnRx 90 1) = Inr ()" "spawn_usb env (SpawnTx 90 1) = Inr ()"
    by (metis old.unit.exhaust sum.exhaust)
  then show thesis
  proof cases
    case 3
    show thesis
    proof (cases r)
      case (Inl e)
      with 3 all spawn_all_prefix [OF own] show thesis
        by (intro that(2)) (simp_all add: run del: spawn_all.simps)
    next
      case r: (Inr u)
      then have o: "own = [DispatchThread, GpioThread, HeartbeatThread]" using spawn_all_ok own by (metis old.unit.exhaust)
      show thesis
      proof (cases rs)
        case (Inl e)
        with 3 r o show thesis by (intro that(3)) (simp_all add: run del: spawn_all.simps)
      next
        case (Inr v)
        with 3 r o all show thesis by (intro that(4)) (simp_all add: run del: spawn_all.simps)
      qed
    qed
  qed (use that(1) in \<open>auto simp: run\<close>)
qed

lemma run_setup_serving:
  assumes "run_setup env path ps = Returns (Inr s, ps', st)"
  obtains dev m ps1 where "opened env = Inr dev" "AudioShmem_create (os env) (str ''cm108-rx'') ps = Returns (Inr m, ps1)"
proof (cases "opened env")
  case (Inl e)
  with assms show thesis by (simp add: run_setup_def)
next
  case (Inr dev)
  with assms obtain shm ps1 where c: "AudioShmem_create (os env) (str ''cm108-rx'') ps = Returns (shm, ps1)"
    by (auto simp: run_setup_def Let_def)
  with Inr assms that show thesis by (cases shm) (simp_all add: run_setup_def Let_def)
qed

lemma AudioShmem_create_level:
  "AudioShmem_create k label ps = Returns (res, ps') \<Longrightarrow> log_level ps' = log_level ps"
  by (auto simp: AudioShmem_create_def create_memfd_def ftruncate_def mmap_shared_def map_call_def checked_call_eq
      unit_call_eq close_fd_def syscall_def Let_def split: if_splits sum.splits prod.splits)

text \<open>The poller's loop never panics and changes the state as its rounds do; it writes one
  line for each failed transfer and nothing else, and pauses ten milliseconds for each of
  these, so a device that is gone costs at most a hundred lines a second.\<close>

lemma gpio_loop_log:
  "\<exists>s'. gpio_rounds p rs s = Returns s' \<and> gpio_loop rusb_txt p rs s ps =
    Returns (s', ps\<lparr>stderr := stderr ps @ (if log_level ps \<le> 3
        then map (\<lambda>e. str ''[WARN]  '' @ str ''HID poll error: '' @ display_HalError rusb_txt e) (poll_errors rs) else [])\<rparr>,
      10 * length (poll_errors rs))"
proof (induction rs arbitrary: s ps)
  case Nil
  then show ?case by (simp add: poll_errors_def)
next
  case (Cons r rs)
  obtain g evs d where "poll_round p (prev_gpio s) r = Returns (g, evs, d)" using poll_round_follow by blast
  from gpio_round_poll [OF this] obtain s1 d where r: "gpio_round p r s = Returns (s1, d)" by blast
  then have d: "d = (case read_state r of Inl e \<Rightarrow> 10 | Inr _ \<Rightarrow> 0)"
    by (auto simp: gpio_round_def obind_Returns_iff split: sum.splits option.splits if_splits)
  show ?case
  proof (cases "read_state r")
    case (Inl e)
    with r d Cons.IH [of s1 "server_log_warn (str ''HID poll error: '' @ display_HalError rusb_txt e) ps"] show ?thesis
      by (auto simp: poll_errors_def server_log_warn_def eprint_at_def)
  next
    case (Inr x)
    with r d Cons.IH [of s1 ps] show ?thesis by (auto simp: poll_errors_def)
  qed
qed

section \<open>Properties\<close>

text \<open>Preparing the socket follows its plan, whatever the file system answers: an old file
  at the path is removed if there is one; the directory, if the path has one, is created
  with its parents and opened to other users; the socket is bound last. The first failure
  ends the sequence and is returned, except that a missing old file and a failure to set
  the permissions do not matter; success means that the whole plan was carried out.\<close>

lemma socket_setup_follows_plan:
  assumes "socket_setup fs p [] = (r, tr)"
  shows "(r, tr) = run_plan fs optional_call (socket_plan fs p) [] \<and> prefix tr (socket_plan fs p) \<and>
    (r = Inr () \<longrightarrow> tr = socket_plan fs p)"
  using socket_setup_trace [OF assms] assms by (simp add: socket_setup_plan)

text \<open>C27: The start of the daemon, whatever the kernel and the file system answer and whichever
  stage fails. It never panics. It starts to serve exactly when the device was opened, the
  shared region created, both USB threads and the three threads of the daemon started and
  the socket set up; then it is in the initial state from which all runs are described,
  holds the descriptor and the mapping of the region and no other, and has carried out the
  whole plan of the socket. Otherwise it ends with an error. The stages come in order: no
  thread is started before the region exists, no thread of the daemon before both USB
  threads, and no file is touched before all threads run.\<close>

theorem daemon_start:
  "\<exists>res ps' st cs. run_setup env path ps = Returns (res, ps', st) \<and> trace ps' = trace ps @ cs \<and>
    ((\<exists>s. res = Inr s) \<longleftrightarrow>
       (\<exists>dev. opened env = Inr dev) \<and> (\<exists>m ps1. AudioShmem_create (os env) (str ''cm108-rx'') ps = Returns (Inr m, ps1)) \<and>
       spawn_usb env (SpawnRx 90 1) = Inr () \<and> spawn_usb env (SpawnTx 90 1) = Inr () \<and> (\<forall>t. spawn_own env t = Inr ()) \<and>
       fst (socket_setup (file_system env) (path_components path) []) = Inr ()) \<and>
    prefix (usb_started st) [SpawnRx 90 1, SpawnTx 90 1] \<and>
    prefix (own_started st) [DispatchThread, GpioThread, HeartbeatThread] \<and>
    prefix (fs_trace st) (socket_plan (file_system env) (path_components path)) \<and>
    (usb_started st = [] \<or> (\<exists>m ps1. AudioShmem_create (os env) (str ''cm108-rx'') ps = Returns (Inr m, ps1))) \<and>
    (own_started st = [] \<or> usb_started st = [SpawnRx 90 1, SpawnTx 90 1]) \<and>
    (fs_trace st = [] \<or> own_started st = [DispatchThread, GpioThread, HeartbeatThread]) \<and>
    (case res of
       Inl e \<Rightarrow> True
     | Inr s \<Rightarrow> fs_trace st = socket_plan (file_system env) (path_components path) \<and>
         (\<exists>p. held (os env) (trace ps) {#} cs = Some {#FdRes (rx_shmem_fd (ctx s)), MapRes p#}) \<and>
         s = server_init (rx_shmem_fd (ctx s)) (replicate SHMEM_SIZE 0) (new_ring env RING_CAPACITY) (new_ring env RING_CAPACITY))"
proof (cases "opened env")
  case (Inl e)
  then show ?thesis by (simp add: run_setup_def)
next
  case opened: (Inr dev)
  have "0 \<notin> set (str ''cm108-rx'')" by (simp add: str_def)
  from AudioShmem_create_held [OF this, of "os env" ps] obtain shm ps1 cs where
    c: "AudioShmem_create (os env) (str ''cm108-rx'') ps = Returns (shm, ps1)" "trace ps1 = trace ps @ cs"
      "case shm of Inl e \<Rightarrow> held (os env) (trace ps) {#} cs = Some {#}
       | Inr m \<Rightarrow> held (os env) (trace ps) {#} cs = Some {#FdRes (shm_file m), MapRes (shm_addr m)#}"
    by (elim exE conjE) (simp split: sum.splits)
  show ?thesis
  proof (cases shm)
    case (Inl e)
    with opened c show ?thesis by (simp add: run_setup_def)
  next
    case (Inr m)
    note c1 = c(1) [unfolded Inr]
    from opened c1 show ?thesis
    proof (cases rule: run_setup_region [where path = path])
      case (usb e started)
      then show ?thesis using c(2) c1 by auto
    next
      case (own e ts)
      then show ?thesis using c(2) c1 by auto
    next
      case (socket e tr)
      with socket_setup_trace(1) [OF socket(2)] show ?thesis using c(2) c1 by auto
    next
      case (serves tr)
      with socket_setup_trace(2) [OF serves(2)] opened show ?thesis
        using c c1 Inr by (simp add: server_init_def server_log_info_def)
    qed
  qed
qed

lemma accept_loop_run:
  "accept_loop io_text conns handled ps =
     (if \<exists>stream. Inr (stream, False) \<in> set conns then Panics
      else Returns (handled @ [stream. Inr (stream, _) \<leftarrow> conns],
        fold (\<lambda>e. server_log_warn (str ''accept error: '' @ io_text e)) [e. Inl e \<leftarrow> conns] ps))"
  by (induction io_text conns handled ps rule: accept_loop.induct) auto

text \<open>C39: The accept loop. Errors of \<open>accept\<close> are reported, in order, and never stop the
  daemon; every accepted connection is handed to a handler, in the order they come. But
  one connection for whose handler no thread can be created ends the daemon: the panic is
  in the main thread.\<close>

theorem accept_loop_serves:
  "accept_loop io_text conns [] ps =
     (if \<exists>stream. Inr (stream, False) \<in> set conns then Panics
      else Returns ([stream. Inr (stream, _) \<leftarrow> conns],
        fold (\<lambda>e. server_log_warn (str ''accept error: '' @ io_text e)) [e. Inl e \<leftarrow> conns] ps))"
  by (simp add: accept_loop_run)

text \<open>An environment in which everything succeeds.\<close>

definition demo_start :: "(unit, AudioFrame list) start_env" where
  "demo_start = \<lparr>opened = Inr demo_device, os = (\<lambda>_ _. \<lparr>ret = 3, stored = 0x1000, errno = 0, control = []\<rparr>),
     file_system = (\<lambda>_ _. Inr ()), new_ring = (\<lambda>_. []), error_text = (\<lambda>_. []), spawn_usb = (\<lambda>_. Inr ()),
     spawn_own = (\<lambda>_. Inr ())\<rparr>"

lemma demo_start_serves:
  "\<exists>s ps' st. main_run None None [''cm108d''] demo_start demo_process = Inr (Returns (Inr s, ps', st))"
proof -
  let ?ps = "demo_process\<lparr>log_level := 2\<rparr>"
  have "\<not> (3 :: i32) <s 0" by (simp add: word_sless_alt)
  then have "\<exists>m ps1. AudioShmem_create (os demo_start) (str ''cm108-rx'') ?ps = Returns (Inr m, ps1)"
    by (simp add: AudioShmem_create_def create_memfd_def ftruncate_def mmap_shared_def map_call_def checked_call_eq
        unit_call_eq syscall_def demo_start_def str_def MAP_FAILED_def)
  then have "\<exists>s ps' st. run_setup demo_start default_socket ?ps = Returns (Inr s, ps', st)"
    by (auto simp: run_setup_def Let_def demo_start_def iso_stream_start_def socket_setup_def fs_do_def
        split: option.split)
  then show ?thesis
    by (simp add: main_run_def main_start_def parse_args_def level_from_str_def set_log_level_def log_init_def Let_def)
qed

text \<open>C40: From the command line to the socket: whatever list of options the daemon is called
  with, if it starts to serve then it listens at the path of the last socket option (or
  of the environment, or the built-in one), having created the directory of that path,
  and the log says so if the level named admits it.\<close>

theorem main_listens_as_told:
  assumes "meaning opts (case env_socket of Some v \<Rightarrow> v | None \<Rightarrow> default_socket)
      (case env_log of Some v \<Rightarrow> v | None \<Rightarrow> ''info'') = (path, level)"
    and "main_run env_socket env_log (prog # concat (map render opts)) env ps = Inr (Returns (Inr s, ps', st))"
  shows "last (fs_trace st) = BindListener (path_components path) \<and>
    (case path_parent (path_components path) of None \<Rightarrow> True | Some d \<Rightarrow> CreateDirAll d \<in> set (fs_trace st)) \<and>
    (level_from_str level \<le> 2 \<longrightarrow> last (stderr ps') = str (''[INFO]  cm108d listening socket='' @ path))"
proof -
  have "main_start env_socket env_log (prog # concat (map render opts)) =
      Inr (path, \<lparr>server_level = level_from_str level, hal_level = level_from_str level\<rparr>)"
    using parse_render [of opts "[]"] assms(1)
    by (simp add: main_start_def parse_args_def set_log_level_def log_init_def Let_def split_beta)
  then have run: "run_setup env path (ps\<lparr>log_level := level_from_str level\<rparr>) = Returns (Inr s, ps', st)"
    using assms(2) by (simp add: main_run_def)
  then obtain dev m ps1 where d: "opened env = Inr dev"
    "AudioShmem_create (os env) (str ''cm108-rx'') (ps\<lparr>log_level := level_from_str level\<rparr>) = Returns (Inr m, ps1)"
    by (rule run_setup_serving)
  from AudioShmem_create_level [OF d(2)] have lv: "log_level ps1 = level_from_str level" by simp
  from d show ?thesis
  proof (cases rule: run_setup_region [where path = path])
    case (serves tr)
    with run socket_setup_trace(2) [OF serves(2)] lv show ?thesis
      by (auto simp: socket_plan_def server_log_info_def eprint_at_def str_def split: option.split)
  qed (use run in simp_all)
qed

theorem main_listens_as_told_witness:
  "\<exists>s ps' st. main_run None None [''cm108d''] demo_start demo_process = Inr (Returns (Inr s, ps', st)) \<and>
     last (fs_trace st) = BindListener [RootDir, Normal ''run'', Normal ''cm108d'', Normal ''cm108d.sock''] \<and>
     CreateDirAll [RootDir, Normal ''run'', Normal ''cm108d''] \<in> set (fs_trace st)"
proof -
  obtain s ps' st where "main_run None None [''cm108d''] demo_start demo_process = Inr (Returns (Inr s, ps', st))"
    using demo_start_serves by blast
  moreover have "path_components default_socket = [RootDir, Normal ''run'', Normal ''cm108d'', Normal ''cm108d.sock'']"
    by (simp add: path_components_def default_socket_def comp_of_def)
  ultimately show ?thesis
    using main_listens_as_told [of "[]" None None default_socket "''info''" "''cm108d''" demo_start demo_process s ps' st]
    by (simp add: path_parent_def)
qed

end
