(* ===== verification/Cm108_Client.thy ===== *)
theory Cm108_Client
  imports Cm108_Framing Cm108_Mapping
begin

text \<open>
  The client library: \<^verbatim>\<open>crates/cm108-client/src/client.rs\<close>, its error type in
  \<^verbatim>\<open>lib.rs\<close>, the C interface \<^verbatim>\<open>ffi.rs\<close>, and the passing of the shared-memory
  descriptor (\<open>recv_fd\<close> here, \<open>send_fd\<close> of \<^verbatim>\<open>crates/cm108-server/src/ipc.rs\<close>). The
  receiving half of the socket is the bytes that have arrived, the bytes still to
  come and how the stream ends; the two halves of the Rust client are one record.
  Loops of the client that wait for a message take fuel (the number of messages);
  the loop that waits for a stable counter takes the list of the region's contents
  at its successive passes.
\<close>

section \<open>State\<close>

datatype ClientError = Io ErrorKind | Protocol rstring | Disconnected

text \<open>\<open>hung_up\<close>: the end of the stream has already arrived behind the last byte.\<close>

record client =
  to_srv :: out_stream
  arrived :: bytes
  coming :: bytes
  stream_end :: "ErrorKind option"
  hung_up :: bool
  nonblocking :: bool
  writer_fd :: i32
  reader_fd :: i32
  shm_fd :: i32
  shm_ptr :: u64
  last_seq :: u64

text \<open>What a read sees: in blocking mode everything that will come, in non-blocking
  mode what has arrived.\<close>

definition read_view :: "client \<Rightarrow> in_stream" where
  "read_view c =
     (if nonblocking c
      then \<lparr>inp = arrived c, in_end = (if coming c = [] \<and> hung_up c then stream_end c else Some WouldBlock)\<rparr>
      else \<lparr>inp = arrived c @ coming c, in_end = stream_end c\<rparr>)"

definition recv_msg :: "client \<Rightarrow> (ErrorKind + ServerMsg option) \<times> client" where
  "recv_msg c =
     (let (res, s') = read_server_msg (read_view c);
          k = length (inp (read_view c)) - length (inp s')
      in (res, c\<lparr>arrived := drop k (arrived c), coming := drop (k - length (arrived c)) (coming c)\<rparr>))"

definition client_send :: "ClientMsg \<Rightarrow> client \<Rightarrow> (ClientError + unit) \<times> client" where
  "client_send m c =
     (case write_client_msg m (to_srv c) of
        (Inl e, t) \<Rightarrow> (Inl (Io e), c\<lparr>to_srv := t\<rparr>)
      | (Inr _, t) \<Rightarrow> (Inr (), c\<lparr>to_srv := t\<rparr>))"

section \<open>Connecting\<close>

text \<open>\<open>CMSG_SPACE\<close> of one descriptor.\<close>

definition cmsg_space :: nat where "cmsg_space = 24"

definition send_fd :: "kernel \<Rightarrow> i32 \<Rightarrow> i32 \<Rightarrow> process \<Rightarrow> (ErrorKind + unit) \<times> process" where
  "send_fd k socket fd_to_send =
     unit_call k (SendMsg socket [0] [\<lparr>cmsg_level = SOL_SOCKET, cmsg_type = SCM_RIGHTS, cmsg_data = fd_to_send, cmsg_more = []\<rparr>])"

fun scan_cmsgs :: "cmsg list \<Rightarrow> i32 option" where
  "scan_cmsgs [] = None"
| "scan_cmsgs (m # ms) =
     (if cmsg_level m = SOL_SOCKET \<and> cmsg_type m = SCM_RIGHTS then Some (cmsg_data m) else scan_cmsgs ms)"

definition no_fd_text :: rstring where
  "no_fd_text = str ''server did not send shmem fd on connect''"

definition recv_fd :: "kernel \<Rightarrow> i32 \<Rightarrow> process \<Rightarrow> (ClientError + i32) \<times> process" where
  "recv_fd k socket ps =
     (case checked_call k (RecvMsg socket 1 cmsg_space) ps of
        (Inl e, ps') \<Rightarrow> (Inl (Io e), ps')
      | (Inr r, ps') \<Rightarrow>
          (case scan_cmsgs (control r) of Some fd \<Rightarrow> (Inr fd, ps') | None \<Rightarrow> (Inl (Protocol no_fd_text), ps')))"

text \<open>Mapping the region read-only; when it fails the descriptor, which was moved into the
  call, is closed.\<close>

definition RxShmem_map :: "kernel \<Rightarrow> i32 \<Rightarrow> process \<Rightarrow> (ClientError + u64) \<times> process" where
  "RxShmem_map k fd ps =
     (case map_call k PROT_READ fd SHMEM_SIZE ps of
        (Inl e, ps') \<Rightarrow> (Inl (Io e), close_fd k fd ps')
      | (Inr p, ps') \<Rightarrow> (Inr p, ps'))"

definition RxShmem_drop :: "kernel \<Rightarrow> u64 \<Rightarrow> i32 \<Rightarrow> process \<Rightarrow> process" where
  "RxShmem_drop k p fd ps = close_fd k fd (unmap k p SHMEM_SIZE ps)"

text \<open>\<open>sock\<close> is the connected socket as a stream. An early return drops the locals, the
  last one first.\<close>

definition connect :: "kernel \<Rightarrow> rstring \<Rightarrow> client \<Rightarrow> process \<Rightarrow> (ClientError + client) \<times> process" where
  "connect k path sock ps =
     (case checked_call k (ConnectUnix path) ps of
        (Inl e, ps1) \<Rightarrow> (Inl (Io e), ps1)
      | (Inr r1, ps1) \<Rightarrow>
          (case checked_call k (DupFd (ret r1)) ps1 of
             (Inl e, ps2) \<Rightarrow> (Inl (Io e), close_fd k (ret r1) ps2)
           | (Inr r2, ps2) \<Rightarrow>
               (case recv_fd k (ret r1) ps2 of
                  (Inl e, ps3) \<Rightarrow> (Inl e, close_fd k (ret r1) (close_fd k (ret r2) ps3))
                | (Inr fd, ps3) \<Rightarrow>
                    (case RxShmem_map k fd ps3 of
                       (Inl e, ps4) \<Rightarrow> (Inl e, close_fd k (ret r1) (close_fd k (ret r2) ps4))
                     | (Inr p, ps4) \<Rightarrow>
                         (Inr (sock\<lparr>writer_fd := ret r1, reader_fd := ret r2, shm_fd := fd, shm_ptr := p,
                                    last_seq := 0\<rparr>), ps4)))))"

text \<open>Dropping a client drops its fields in their order.\<close>

definition client_drop :: "kernel \<Rightarrow> client \<Rightarrow> process \<Rightarrow> process" where
  "client_drop k c ps =
     RxShmem_drop k (shm_ptr c) (shm_fd c) (close_fd k (reader_fd c) (close_fd k (writer_fd c) ps))"

text \<open>The text of an error, from that of the errors of the standard library.\<close>

fun display_ClientError :: "(ErrorKind \<Rightarrow> rstring) \<Rightarrow> ClientError \<Rightarrow> rstring" where
  "display_ClientError io_text (Io e) = str ''IO error: '' @ io_text e"
| "display_ClientError io_text (Protocol s) = str ''protocol error: '' @ s"
| "display_ClientError io_text Disconnected = str ''server disconnected''"

section \<open>Requests\<close>

definition subscribe :: "StreamFlags \<Rightarrow> client \<Rightarrow> (ClientError + unit) \<times> client" where
  "subscribe fl = client_send (Subscribe fl)"

definition set_ptt :: "bool \<Rightarrow> client \<Rightarrow> (ClientError + unit) \<times> client" where
  "set_ptt asserted = client_send (SetGpio 0 asserted)"

definition set_gpio :: "u8 \<Rightarrow> bool \<Rightarrow> client \<Rightarrow> (ClientError + unit) \<times> client" where
  "set_gpio n high = client_send (SetGpio n high)"

definition write_audio :: "AudioFrame list \<Rightarrow> client \<Rightarrow> (ClientError + unit) \<times> client" where
  "write_audio fs c = (if fs = [] then (Inr (), c) else client_send (AudioWrite fs) c)"

definition ping :: "client \<Rightarrow> (ClientError + unit) \<times> client" where
  "ping = client_send Ping"

section \<open>Reading audio and messages\<close>

fun read_frame :: "bytes list \<Rightarrow> AudioFrame option" where
  "read_frame [] = None"
| "read_frame (r # rs) = (case read_frame_pass r of Some f \<Rightarrow> Some f | None \<Rightarrow> read_frame rs)"

definition read_audio_latest :: "bytes list \<Rightarrow> AudioFrame option" where
  "read_audio_latest snaps = read_frame snaps"

definition current_rx_seq :: "bytes \<Rightarrow> u64" where
  "current_rx_seq r = current_seq r"

text \<open>\<open>None\<close>: still waiting (out of fuel, or the counter never seen stable).\<close>

fun read_audio_blocking :: "nat \<Rightarrow> bytes list \<Rightarrow> client \<Rightarrow> ((ClientError + AudioFrame) \<times> client) option" where
  "read_audio_blocking 0 snaps c = None"
| "read_audio_blocking (Suc n) snaps c =
     (case recv_msg c of
        (Inl e, c1) \<Rightarrow> Some (Inl (Io e), c1)
      | (Inr None, c1) \<Rightarrow> Some (Inl Disconnected, c1)
      | (Inr (Some (AudioReady sq)), c1) \<Rightarrow>
          if sq > last_seq c1
          then map_option (\<lambda>f. (Inr f, c1\<lparr>last_seq := sq\<rparr>)) (read_frame snaps)
          else read_audio_blocking n snaps c1
      | (Inr (Some _), c1) \<Rightarrow> read_audio_blocking n snaps c1)"

definition wait_msg :: "client \<Rightarrow> (ClientError + ServerMsg option) \<times> client" where
  "wait_msg c = (case recv_msg c of (Inl e, c1) \<Rightarrow> (Inl (Io e), c1) | (Inr m, c1) \<Rightarrow> (Inr m, c1))"

text \<open>\<open>set_on\<close> and \<open>set_off\<close> are the errors, if any, of the two \<open>set_nonblocking\<close> calls.\<close>

definition poll_msg :: "ErrorKind option \<Rightarrow> ErrorKind option \<Rightarrow> client
    \<Rightarrow> (ClientError + ServerMsg option) \<times> client" where
  "poll_msg set_on set_off c =
     (case set_on of
        Some e \<Rightarrow> (Inl (Io e), c)
      | None \<Rightarrow>
          (let (res, c1) = recv_msg (c\<lparr>nonblocking := True\<rparr>) in
           case set_off of
             Some e \<Rightarrow> (Inl (Io e), c1)
           | None \<Rightarrow>
               (let c2 = c1\<lparr>nonblocking := False\<rparr> in
                case res of
                  Inr m \<Rightarrow> (Inr m, c2)
                | Inl e \<Rightarrow> if e = WouldBlock then (Inr None, c2) else (Inl (Io e), c2))))"

fun await_stats :: "nat \<Rightarrow> client \<Rightarrow> ((ClientError + (u64 \<times> u64 \<times> LatencyStats)) \<times> client) option" where
  "await_stats 0 c = None"
| "await_stats (Suc n) c =
     (case recv_msg c of
        (Inl e, c1) \<Rightarrow> Some (Inl (Io e), c1)
      | (Inr None, c1) \<Rightarrow> Some (Inl Disconnected, c1)
      | (Inr (Some (Stats rx tx lat)), c1) \<Rightarrow> Some (Inr (rx, tx, lat), c1)
      | (Inr (Some _), c1) \<Rightarrow> await_stats n c1)"

definition get_stats :: "nat \<Rightarrow> client \<Rightarrow> ((ClientError + (u64 \<times> u64 \<times> LatencyStats)) \<times> client) option" where
  "get_stats fuel c =
     (case client_send GetStats c of
        (Inl e, c1) \<Rightarrow> Some (Inl e, c1)
      | (Inr _, c1) \<Rightarrow> await_stats fuel c1)"

section \<open>The C interface\<close>

text \<open>A pointer to a client is \<open>None\<close> when null; the out-parameters are the value
  written, if any. Return codes are C integers.\<close>

record Cm108Event =
  event_type :: u8
  gpio_state :: u8

fun radio_to_c :: "RadioEvent \<Rightarrow> Cm108Event" where
  "radio_to_c PttAssert = \<lparr>event_type = 0, gpio_state = 0\<rparr>"
| "radio_to_c PttDeassert = \<lparr>event_type = 1, gpio_state = 0\<rparr>"
| "radio_to_c CosActive = \<lparr>event_type = 2, gpio_state = 0\<rparr>"
| "radio_to_c CosInactive = \<lparr>event_type = 3, gpio_state = 0\<rparr>"
| "radio_to_c (GpioChange g) = \<lparr>event_type = 4, gpio_state = gpio_bits g\<rparr>"

fun server_msg_to_event :: "ServerMsg \<Rightarrow> Cm108Event option" where
  "server_msg_to_event (RadioEv ev) = Some (radio_to_c ev)"
| "server_msg_to_event _ = None"

definition code_of :: "ClientError + 'a \<Rightarrow> i32" where
  "code_of r = (case r of Inr _ \<Rightarrow> 0 | Inl _ \<Rightarrow> - 1)"

definition cm108_connect :: "kernel \<Rightarrow> bytes option \<Rightarrow> client \<Rightarrow> process \<Rightarrow> client option \<times> process" where
  "cm108_connect k socket_path sock ps =
     (case socket_path of
        None \<Rightarrow> (None, ps)
      | Some path \<Rightarrow>
          if utf8_valid path
          then (case connect k path sock ps of (Inr c, ps') \<Rightarrow> (Some c, ps') | (Inl _, ps') \<Rightarrow> (None, ps'))
          else (None, ps))"

definition cm108_destroy :: "kernel \<Rightarrow> client option \<Rightarrow> process \<Rightarrow> process" where
  "cm108_destroy k p ps = (case p of None \<Rightarrow> ps | Some c \<Rightarrow> client_drop k c ps)"

definition ffi_call :: "(client \<Rightarrow> (ClientError + unit) \<times> client) \<Rightarrow> client option \<Rightarrow> i32 \<times> client option" where
  "ffi_call op p =
     (case p of
        None \<Rightarrow> (- 1, None)
      | Some c \<Rightarrow> (case op c of (r, c1) \<Rightarrow> (code_of r, Some c1)))"

definition cm108_subscribe :: "u8 \<Rightarrow> client option \<Rightarrow> i32 \<times> client option" where
  "cm108_subscribe fl = ffi_call (subscribe (from_bits_truncate fl))"

definition cm108_set_ptt :: "i32 \<Rightarrow> client option \<Rightarrow> i32 \<times> client option" where
  "cm108_set_ptt asserted = ffi_call (set_ptt (asserted \<noteq> 0))"

definition cm108_set_gpio :: "u8 \<Rightarrow> i32 \<Rightarrow> client option \<Rightarrow> i32 \<times> client option" where
  "cm108_set_gpio n high = ffi_call (set_gpio n (high \<noteq> 0))"

text \<open>\<open>buf\<close> is the caller's buffer, \<open>None\<close> when null.\<close>

definition cm108_read_audio :: "nat \<Rightarrow> bytes list \<Rightarrow> client option \<Rightarrow> i16 list option \<Rightarrow> u64
    \<Rightarrow> (i32 \<times> client option \<times> i16 list option) option" where
  "cm108_read_audio fuel snaps p buf n_frames =
     (case buf of
        None \<Rightarrow> Some (- 1, p, None)
      | Some b \<Rightarrow>
          (case p of
             None \<Rightarrow> Some (- 1, None, Some b)
           | Some c \<Rightarrow>
               (case read_audio_blocking fuel snaps c of
                  None \<Rightarrow> None
                | Some (Inl e, c1) \<Rightarrow> Some (- 1, Some c1, Some b)
                | Some (Inr f, c1) \<Rightarrow>
                    (let n = min (unat n_frames) SAMPLES_PER_FRAME in
                     Some (of_nat n, Some c1, Some (take (n * 2) (samples f) @ drop (n * 2) b))))))"

definition cm108_write_audio :: "client option \<Rightarrow> i16 list option \<Rightarrow> u64 \<Rightarrow> i32" where
  "cm108_write_audio p buf n_frames = ucast n_frames"

definition cm108_poll_event :: "ErrorKind option \<Rightarrow> ErrorKind option \<Rightarrow> client option \<Rightarrow> bool
    \<Rightarrow> i32 \<times> client option \<times> Cm108Event option" where
  "cm108_poll_event set_on set_off p out_null =
     (if out_null then (- 1, p, None)
      else case p of
        None \<Rightarrow> (- 1, None, None)
      | Some c \<Rightarrow>
          (case poll_msg set_on set_off c of
             (Inr (Some m), c1) \<Rightarrow>
               (case server_msg_to_event m of
                  Some ev \<Rightarrow> (1, Some c1, Some ev)
                | None \<Rightarrow> (0, Some c1, None))
           | (Inr None, c1) \<Rightarrow> (0, Some c1, None)
           | (Inl e, c1) \<Rightarrow> (- 1, Some c1, None)))"

section \<open>A concrete client\<close>

definition demo_client_on :: "bytes \<Rightarrow> bytes \<Rightarrow> client" where
  "demo_client_on now later =
     \<lparr>to_srv = \<lparr>outp = [], out_limit = None\<rparr>, arrived = now, coming = later, stream_end = None,
      hung_up = False, nonblocking = False, writer_fd = 3, reader_fd = 4,
      shm_fd = 5, shm_ptr = 0x7000, last_seq = 0\<rparr>"

section \<open>Receiving\<close>

definition pending :: "client \<Rightarrow> bytes" where
  "pending c = arrived c @ coming c"

lemma recv_msg_eq:
  assumes "read_server_msg (read_view c) = (res, s')" "length (inp (read_view c)) - length (inp s') = k"
  shows "recv_msg c = (res, c\<lparr>arrived := drop k (arrived c), coming := drop (k - length (arrived c)) (coming c)\<rparr>)"
  unfolding recv_msg_def assms(1) Let_def prod.case assms(2) ..

lemma recv_msg_blocking:
  assumes "\<not> nonblocking c" "pending c = to_framed encode_ServerMsg m @ rest"
    "server_msg_ok m" "fits_frame encode_ServerMsg m"
  shows "\<exists>a b. recv_msg c = (Inr (Some m), c\<lparr>arrived := a, coming := b\<rparr>) \<and> a @ b = rest"
proof -
  let ?k = "length (to_framed encode_ServerMsg m)"
  have "read_server_msg (read_view c) = (Inr (Some m), \<lparr>inp = rest, in_end = stream_end c\<rparr>)"
    using assms to_client.rd_sent [OF assms(3,4)] by (simp add: read_view_def pending_def)
  moreover have "length (inp (read_view c)) - length (inp \<lparr>inp = rest, in_end = stream_end c\<rparr>) = ?k"
    using assms(1) arg_cong [OF assms(2), of length] by (simp add: read_view_def pending_def)
  ultimately have "recv_msg c = (Inr (Some m), c\<lparr>arrived := drop ?k (arrived c),
      coming := drop (?k - length (arrived c)) (coming c)\<rparr>)"
    by (rule recv_msg_eq)
  moreover have "drop ?k (arrived c) @ drop (?k - length (arrived c)) (coming c) = rest"
    using assms(2) by (simp only: pending_def flip: drop_append) simp
  ultimately show ?thesis by blast
qed

lemma recv_msg_eof:
  assumes "\<not> nonblocking c" "pending c = []" "stream_end c = None"
  shows "recv_msg c = (Inr None, c)"
  using assms to_client.rd_eof [of "read_view c"]
  by (auto simp: recv_msg_def read_view_def pending_def Let_def)

text \<open>A loop of the client that reads messages until one it wants: the contract shared
  by \<open>read_audio_blocking\<close> and \<open>get_stats\<close>.\<close>

locale wait_loop =
  fixes loop :: "nat \<Rightarrow> client \<Rightarrow> 'r option"
    and wants :: "u64 \<Rightarrow> ServerMsg \<Rightarrow> bool"
    and finish :: "ServerMsg \<Rightarrow> client \<Rightarrow> 'r option"
    and fail :: "ClientError \<Rightarrow> client \<Rightarrow> 'r option"
  assumes loop_Suc: "loop (Suc n) c =
      (case recv_msg c of
         (Inl e, c1) \<Rightarrow> fail (Io e) c1
       | (Inr None, c1) \<Rightarrow> fail Disconnected c1
       | (Inr (Some m), c1) \<Rightarrow> if wants (last_seq c1) m then finish m c1 else loop n c1)"
begin

lemma skips:
  assumes "\<not> nonblocking c" "pending c = to_client.wire ms @ rest" "list_all server_msg_ok ms"
    "list_all (fits_frame encode_ServerMsg) ms" "list_all (\<lambda>m. \<not> wants (last_seq c) m) ms"
  shows "\<exists>a b. loop (length ms + n) c = loop n (c\<lparr>arrived := a, coming := b\<rparr>) \<and> a @ b = rest"
  using assms
proof (induction ms arbitrary: c)
  case Nil
  then show ?case by (intro exI [of _ "arrived c"] exI [of _ "coming c"]) (simp add: pending_def)
next
  case (Cons m ms)
  from Cons.prems obtain a b where
    r: "recv_msg c = (Inr (Some m), c\<lparr>arrived := a, coming := b\<rparr>)" "a @ b = to_client.wire ms @ rest"
    using recv_msg_blocking [of c m "to_client.wire ms @ rest"] by auto
  let ?c1 = "c\<lparr>arrived := a, coming := b\<rparr>"
  from Cons.IH [of ?c1] Cons.prems r obtain a' b' where
    "loop (length ms + n) ?c1 = loop n (?c1\<lparr>arrived := a', coming := b'\<rparr>)" "a' @ b' = rest"
    by (auto simp: pending_def)
  with Cons.prems r show ?case by (auto simp: loop_Suc)
qed

lemma first_wanted:
  assumes "\<not> nonblocking c" "pending c = to_client.wire (pre @ m # post)" "list_all server_msg_ok (pre @ [m])"
    "list_all (fits_frame encode_ServerMsg) (pre @ [m])" "list_all (\<lambda>m. \<not> wants (last_seq c) m) pre"
    "wants (last_seq c) m" "length pre < n"
  shows "\<exists>a b. loop n c = finish m (c\<lparr>arrived := a, coming := b\<rparr>) \<and> a @ b = to_client.wire post"
proof -
  obtain k where k: "n = length pre + Suc k" using assms(7) less_imp_Suc_add by fastforce
  obtain a b where l: "loop n c = loop (Suc k) (c\<lparr>arrived := a, coming := b\<rparr>)"
    "a @ b = to_client.wire (m # post)"
    using skips [of c pre "to_client.wire (m # post)" "Suc k"] assms k by auto
  obtain a' b' where "recv_msg (c\<lparr>arrived := a, coming := b\<rparr>) =
      (Inr (Some m), c\<lparr>arrived := a', coming := b'\<rparr>)" "a' @ b' = to_client.wire post"
    using recv_msg_blocking [of "c\<lparr>arrived := a, coming := b\<rparr>" m "to_client.wire post"] assms(1,3,4) l
    by (auto simp: pending_def)
  with l assms(6) show ?thesis by (auto simp: loop_Suc)
qed

lemma none_wanted:
  assumes "\<not> nonblocking c" "pending c = to_client.wire ms" "stream_end c = None"
    "list_all server_msg_ok ms" "list_all (fits_frame encode_ServerMsg) ms"
    "list_all (\<lambda>m. \<not> wants (last_seq c) m) ms" "length ms < n"
  shows "\<exists>c'. loop n c = fail Disconnected c'"
proof -
  obtain k where k: "n = length ms + Suc k" using assms(7) less_imp_Suc_add by fastforce
  obtain a b where "loop n c = loop (Suc k) (c\<lparr>arrived := a, coming := b\<rparr>)" "a @ b = []"
    using skips [of c ms "[]" "Suc k"] assms k by auto
  with recv_msg_eof [of "c\<lparr>arrived := a, coming := b\<rparr>"] assms(1,3) show ?thesis
    by (auto simp: loop_Suc pending_def)
qed

end

text \<open>The messages each loop wants, given the last sequence number.\<close>

fun fresh_notice :: "u64 \<Rightarrow> ServerMsg \<Rightarrow> bool" where
  "fresh_notice seen_seq (AudioReady sq) = (sq > seen_seq)"
| "fresh_notice seen_seq _ = False"

fun is_stats :: "ServerMsg \<Rightarrow> bool" where
  "is_stats (Stats rx tx lat) = True"
| "is_stats _ = False"

fun notice_seq :: "ServerMsg \<Rightarrow> u64" where
  "notice_seq (AudioReady sq) = sq"
| "notice_seq _ = 0"

fun stats_content :: "ServerMsg \<Rightarrow> u64 \<times> u64 \<times> LatencyStats" where
  "stats_content (Stats rx tx lat) = (rx, tx, lat)"
| "stats_content _ = (0, 0, LatencyStats_default)"

interpretation audio_wait: wait_loop "\<lambda>n. read_audio_blocking n snaps" fresh_notice
  "\<lambda>m c. map_option (\<lambda>f. (Inr f, c\<lparr>last_seq := notice_seq m\<rparr>)) (read_frame snaps)"
  "\<lambda>e c. Some (Inl e, c)" for snaps
  by unfold_locales (auto split: prod.split sum.split option.split ServerMsg.split)

interpretation stats_wait: wait_loop await_stats "\<lambda>_. is_stats"
  "\<lambda>m c. Some (Inr (stats_content m), c)" "\<lambda>e c. Some (Inl e, c)"
  by unfold_locales (auto split: prod.split sum.split option.split ServerMsg.split)

section \<open>Polling\<close>

lemma read_frame_stable:
  assumes "r \<in> set snaps" "seq_load r mod 2 = 0"
  shows "\<exists>f. read_frame snaps = Some f"
proof -
  have "read_frame_pass r \<noteq> None" using assms(2) by (simp add: read_frame_pass_def Let_def)
  with assms(1) show ?thesis by (induction snaps) (auto split: option.split)
qed

lemma read_server_msg_short:
  assumes "length bs < 4"
  shows "read_server_msg \<lparr>inp = bs, in_end = Some WouldBlock\<rparr> = (Inr None, \<lparr>inp = [], in_end = Some WouldBlock\<rparr>)"
  using assms by (simp add: read_defs)

lemma read_server_msg_cut:
  assumes "fits_frame encode_ServerMsg m" "k < length (to_framed encode_ServerMsg m)" "4 \<le> k"
  shows "read_server_msg \<lparr>inp = take k (to_framed encode_ServerMsg m), in_end = Some WouldBlock\<rparr> =
    (Inl WouldBlock, \<lparr>inp = [], in_end = Some WouldBlock\<rparr>)"
proof -
  let ?p = "to_vec encode_ServerMsg m"
  have p: "unat (of_nat (length ?p) :: u32) = length ?p" "length ?p \<le> 65536"
    using assms(1) by (simp_all add: fits_frame_def)
  have t: "take k (to_framed encode_ServerMsg m) = le_bytes 4 (of_nat (length ?p) :: u32) @ take (k - 4) ?p"
    using assms(3) by (simp add: to_framed_def Let_def)
  have "k - 4 < length ?p" using assms(2,3) by (simp add: to_client.length_to_framed)
  with p show ?thesis unfolding t by (simp add: read_defs)
qed

lemma poll_msg_incomplete:
  assumes "fits_frame encode_ServerMsg m" "arrived c = take k (to_framed encode_ServerMsg m)"
    "k < length (to_framed encode_ServerMsg m)" "coming c \<noteq> []"
  shows "poll_msg None None c = (Inr None, c\<lparr>arrived := [], nonblocking := False\<rparr>)"
proof -
  have v: "read_view (c\<lparr>nonblocking := True\<rparr>) = \<lparr>inp = arrived c, in_end = Some WouldBlock\<rparr>"
    using assms(4) by (simp add: read_view_def)
  show ?thesis
  proof (cases "k < 4")
    case True
    with assms(2) have "length (arrived c) < 4" by simp
    from read_server_msg_short [OF this] show ?thesis
      by (simp add: poll_msg_def recv_msg_def v Let_def)
  next
    case False
    with read_server_msg_cut [OF assms(1,3)] assms(2) show ?thesis
      by (simp add: poll_msg_def recv_msg_def v Let_def)
  qed
qed

lemma poll_msg_complete:
  assumes "server_msg_ok m" "fits_frame encode_ServerMsg m" "arrived c = to_framed encode_ServerMsg m @ rest"
  shows "poll_msg None None c = (Inr (Some m), c\<lparr>arrived := rest, nonblocking := False\<rparr>)"
proof -
  obtain e where v: "read_view (c\<lparr>nonblocking := True\<rparr>) = \<lparr>inp = to_framed encode_ServerMsg m @ rest, in_end = e\<rparr>"
    using assms(3) by (simp add: read_view_def)
  with to_client.rd_sent [OF assms(1,2), of rest e] assms(3) show ?thesis
    by (simp add: poll_msg_def recv_msg_def Let_def)
qed

section \<open>Properties\<close>

text \<open>C31: Waiting for audio. On a stream of messages from the server,
  \<open>read_audio_blocking\<close> skips everything up to the first announcement newer than the
  last one it used, remembers that number, returns the frame of the shared region,
  and leaves the messages behind it unread; it always returns once the region is
  seen with an even counter. If the server closes without such an announcement the
  result is \<open>Disconnected\<close>.\<close>

theorem read_audio_takes_next_notice:
  assumes "\<not> nonblocking c" and "list_all server_msg_ok ms" and "list_all (fits_frame encode_ServerMsg) ms"
    and "pending c = concat (map (to_framed encode_ServerMsg) ms)" and "stream_end c = None"
    and "length ms < n" and "r \<in> set snaps" and "seq_load r mod 2 = 0"
  shows "case dropWhile (\<lambda>m. \<not> fresh_notice (last_seq c) m) ms of
      [] \<Rightarrow> \<exists>c'. read_audio_blocking n snaps c = Some (Inl Disconnected, c')
    | m # post \<Rightarrow> \<exists>c' f. read_audio_blocking n snaps c = Some (Inr f, c') \<and> read_frame snaps = Some f \<and>
        last_seq c' = notice_seq m \<and> last_seq c < last_seq c' \<and>
        pending c' = concat (map (to_framed encode_ServerMsg) post)"
proof (cases "dropWhile (\<lambda>m. \<not> fresh_notice (last_seq c) m) ms")
  case Nil
  then have "list_all (\<lambda>m. \<not> fresh_notice (last_seq c) m) ms" by (simp add: dropWhile_eq_Nil_conv list_all_iff)
  from audio_wait.none_wanted [OF assms(1,4,5,2,3) this assms(6)] show ?thesis unfolding Nil by simp
next
  case (Cons m post)
  define pre where "pre = takeWhile (\<lambda>m. \<not> fresh_notice (last_seq c) m) ms"
  have ms: "ms = pre @ m # post" using Cons by (metis pre_def takeWhile_dropWhile_id)
  have "list_all (\<lambda>m. \<not> fresh_notice (last_seq c) m) pre"
    by (auto simp: pre_def list_all_iff dest: set_takeWhileD)
  moreover have w: "fresh_notice (last_seq c) m" using Cons by (metis dropWhile_eq_Cons_conv)
  ultimately obtain a b where ab: "a @ b = to_client.wire post"
    "read_audio_blocking n snaps c = map_option (\<lambda>f. (Inr f, c\<lparr>arrived := a, coming := b, last_seq := notice_seq m\<rparr>))
       (read_frame snaps)"
    using audio_wait.first_wanted [of c pre m post n snaps] assms(1-4,6) ms by auto
  obtain f where "read_frame snaps = Some f" using read_frame_stable [OF assms(7,8)] by blast
  moreover have "last_seq c < notice_seq m" using w by (cases m) auto
  ultimately show ?thesis using ab Cons by (simp add: pending_def)
qed

theorem read_audio_takes_next_notice_witness:
  "\<exists>c' f. read_audio_blocking 3 [replicate 4096 0]
      (demo_client_on (concat (map (to_framed encode_ServerMsg) [Pong, AudioReady 2])) []) = Some (Inr f, c') \<and>
    last_seq c' = 2"
proof -
  have "seq_load (replicate 4096 0) mod 2 = 0" by (simp add: seq_load_def of_le_bytes_replicate_0)
  with read_audio_takes_next_notice [of "demo_client_on (to_client.wire [Pong, AudioReady 2]) []"
      "[Pong, AudioReady 2]" 3 "replicate 4096 0" "[replicate 4096 0]"]
  show ?thesis
    by (auto simp: demo_client_on_def pending_def fits_frame_def to_vec_def push_u8_def push_u64_def)
qed

text \<open>C37: Asking for statistics returns the first \<open>Stats\<close> message on the stream, which
  need not be the answer to this request, and everything before it is consumed: radio
  events and audio announcements that were waiting are lost to the caller.\<close>

theorem get_stats_takes_first:
  assumes "\<not> nonblocking c" and "out_limit (to_srv c) = None" and "list_all server_msg_ok (pre @ [Stats rx tx lat])"
    and "list_all (fits_frame encode_ServerMsg) (pre @ [Stats rx tx lat])"
    and "pending c = concat (map (to_framed encode_ServerMsg) (pre @ Stats rx tx lat # post))"
    and "list_all (\<lambda>m. \<not> is_stats m) pre" and "length pre < n"
  shows "\<exists>c'. get_stats n c = Some (Inr (rx, tx, lat), c') \<and>
    pending c' = concat (map (to_framed encode_ServerMsg) post) \<and>
    outp (to_srv c') = outp (to_srv c) @ to_framed encode_ClientMsg GetStats"
proof -
  let ?c = "c\<lparr>to_srv := (to_srv c)\<lparr>outp := outp (to_srv c) @ to_framed encode_ClientMsg GetStats\<rparr>\<rparr>"
  have "get_stats n c = await_stats n ?c"
    using assms(2) by (simp add: get_stats_def client_send_def write_framed)
  moreover obtain a b where "await_stats n ?c = Some (Inr (rx, tx, lat), ?c\<lparr>arrived := a, coming := b\<rparr>)"
    "a @ b = to_client.wire post"
    using stats_wait.first_wanted [of ?c pre "Stats rx tx lat" post n] assms by (auto simp: pending_def)
  ultimately show ?thesis by (auto simp: pending_def)
qed

theorem get_stats_takes_first_witness:
  "\<exists>c'. get_stats 3 (demo_client_on (concat (map (to_framed encode_ServerMsg)
       [RadioEv PttAssert, Stats 1 2 LatencyStats_default, Pong])) []) = Some (Inr (1, 2, LatencyStats_default), c') \<and>
     pending c' = concat (map (to_framed encode_ServerMsg) [Pong])"
proof -
  let ?c = "demo_client_on (to_client.wire [RadioEv PttAssert, Stats 1 2 LatencyStats_default, Pong]) []"
  have "\<exists>c'. get_stats 3 ?c = Some (Inr (1, 2, LatencyStats_default), c') \<and>
      pending c' = to_client.wire [Pong] \<and>
      outp (to_srv c') = outp (to_srv ?c) @ to_framed encode_ClientMsg GetStats"
    by (rule get_stats_takes_first [where pre = "[RadioEv PttAssert]"])
      (simp_all add: demo_client_on_def pending_def fits_frame_def to_vec_def push_u8_def push_u64_def push_u32_def
        LatencyStats_default_def encode_LatencyStats_def)
  then show ?thesis by blast
qed

text \<open>C32: Polling depends on how the bytes arrive. If the whole next message has arrived
  it is returned and nothing else is touched. If only its first bytes have arrived,
  the call reports that nothing is pending, and those bytes are gone: the next read
  starts in the middle of the message.\<close>

theorem poll_msg_by_arrival:
  assumes "server_msg_ok m" and "fits_frame encode_ServerMsg m"
    and "pending c = to_framed encode_ServerMsg m @ rest"
  shows "if length (to_framed encode_ServerMsg m) \<le> length (arrived c)
    then fst (poll_msg None None c) = Inr (Some m) \<and> pending (snd (poll_msg None None c)) = rest
    else fst (poll_msg None None c) = Inr None \<and>
      pending (snd (poll_msg None None c)) =
        drop (length (arrived c)) (to_framed encode_ServerMsg m) @ rest"
proof (cases "length (to_framed encode_ServerMsg m) \<le> length (arrived c)")
  case True
  then obtain rest' where a: "arrived c = to_framed encode_ServerMsg m @ rest'"
    using assms(3) unfolding pending_def by (metis append_eq_append_conv_if append_take_drop_id)
  with assms(3) True poll_msg_complete [OF assms(1,2) a] show ?thesis by (simp add: pending_def)
next
  case False
  let ?k = "length (arrived c)"
  have a: "arrived c = take ?k (to_framed encode_ServerMsg m)" and
    b: "coming c = drop ?k (to_framed encode_ServerMsg m) @ rest"
    using False assms(3) unfolding pending_def
    by (auto simp: append_eq_append_conv_if)
  then have "coming c \<noteq> []" using False by (metis append_is_Nil_conv drop_eq_Nil)
  with poll_msg_incomplete [OF assms(2) a] False b show ?thesis by (simp add: pending_def)
qed

theorem poll_msg_by_arrival_witness:
  "fst (poll_msg None None (demo_client_on (take 4 (to_framed encode_ServerMsg Pong))
     (drop 4 (to_framed encode_ServerMsg Pong)))) = Inr None \<and>
   pending (snd (poll_msg None None (demo_client_on (take 4 (to_framed encode_ServerMsg Pong))
     (drop 4 (to_framed encode_ServerMsg Pong))))) = drop 4 (to_framed encode_ServerMsg Pong)"
proof -
  have "length (to_framed encode_ServerMsg Pong) = 5" "fits_frame encode_ServerMsg Pong"
    by (simp_all add: to_client.length_to_framed fits_frame_def to_vec_def push_u8_def)
  with poll_msg_by_arrival [of Pong "demo_client_on (take 4 (to_framed encode_ServerMsg Pong))
      (drop 4 (to_framed encode_ServerMsg Pong))" "[]"]
  show ?thesis by (simp add: pending_def demo_client_on_def)
qed

text \<open>The C interface for audio: a successful read copies into the caller's buffer
  exactly the first \<open>min(frames, 48)\<close> stereo frames of the received frame, reports that
  number, and writes nothing behind them, so a buffer of the promised size is never
  overrun.\<close>

lemma c_read_audio_in_bounds:
  assumes "read_audio_blocking fuel snaps c = Some (Inr f, c')" and "frame_ok f"
    and "2 * unat n_frames \<le> length b"
  shows "\<exists>b'. cm108_read_audio fuel snaps (Some c) (Some b) n_frames =
      Some (of_nat (min (unat n_frames) 48), Some c', Some b') \<and> length b' = length b \<and>
    (\<forall>i < length b. b' ! i = (if i < 2 * min (unat n_frames) 48 then samples f ! i else b ! i))"
  using assms by (auto simp: cm108_read_audio_def layout Let_def nth_append frame_ok_def min_def)

text \<open>C38: The C interface for events: no two radio events share a C encoding, so the
  caller can tell them apart; when a message has arrived completely, polling returns 1
  and the encoded event if it is a radio event, and otherwise 0 with the message
  consumed (statistics, too, are swallowed).\<close>

theorem c_poll_event_reports:
  assumes "server_msg_ok m" and "fits_frame encode_ServerMsg m"
    and "arrived c = to_framed encode_ServerMsg m @ rest"
  shows "inj radio_to_c \<and>
    (\<exists>c'. pending c' = rest @ coming c \<and>
      cm108_poll_event None None (Some c) False =
        (case m of RadioEv ev \<Rightarrow> (1, Some c', Some (radio_to_c ev)) | _ \<Rightarrow> (0, Some c', None)))"
proof -
  have "e = e'" if "radio_to_c e = radio_to_c e'" for e e'
    using that by (cases e; cases e') (auto intro: GpioState.expand)
  then have "inj radio_to_c" by (rule injI)
  moreover have "cm108_poll_event None None (Some c) False =
      (case m of RadioEv ev \<Rightarrow> (1, Some (c\<lparr>arrived := rest, nonblocking := False\<rparr>), Some (radio_to_c ev))
       | _ \<Rightarrow> (0, Some (c\<lparr>arrived := rest, nonblocking := False\<rparr>), None))"
    using poll_msg_complete [OF assms] by (simp add: cm108_poll_event_def split: ServerMsg.split)
  ultimately show ?thesis
    by (intro conjI exI [of _ "c\<lparr>arrived := rest, nonblocking := False\<rparr>"]) (simp_all add: pending_def)
qed

theorem c_poll_event_reports_witness:
  "\<exists>c'. cm108_poll_event None None (Some (demo_client_on (to_framed encode_ServerMsg (RadioEv CosActive)) [])) False =
     (1, Some c', Some (radio_to_c CosActive))"
  using c_poll_event_reports [of "RadioEv CosActive" "demo_client_on (to_framed encode_ServerMsg (RadioEv CosActive)) []" "[]"]
  by (auto simp: demo_client_on_def fits_frame_def to_vec_def push_u8_def)

definition client_resources :: "client \<Rightarrow> resource multiset" where
  "client_resources c = {#FdRes (writer_fd c), FdRes (reader_fd c), FdRes (shm_fd c), MapRes (shm_ptr c)#}"

text \<open>The peer passes at most one descriptor, as the daemon does (\<open>send_fd\<close>). The control
  buffer has room for a second one, which \<open>recv_fd\<close> would not see and nobody would close.\<close>

definition one_descriptor :: "kernel \<Rightarrow> bool" where
  "one_descriptor k \<longleftrightarrow> (\<forall>tr c. length (filter is_rights (control (k tr c))) \<le> 1 \<and>
     list_all (\<lambda>m. cmsg_more m = []) (control (k tr c)))"

lemma scan_cmsgs_None: "scan_cmsgs ms = None \<Longrightarrow> filter is_rights ms = []"
  by (induction ms) (auto simp: is_rights_def split: if_splits)

lemma scan_cmsgs_Some:
  "scan_cmsgs ms = Some fd \<Longrightarrow> length (filter is_rights ms) \<le> 1 \<Longrightarrow> list_all (\<lambda>m. cmsg_more m = []) ms \<Longrightarrow>
     concat (map (\<lambda>m. map FdRes (cmsg_data m # cmsg_more m)) (filter is_rights ms)) = [FdRes fd]"
  by (induction ms) (auto simp: is_rights_def filter_empty_conv split: if_splits)

text \<open>A second descriptor in the message is never closed: the process holds it when the client
  has got the first.\<close>

lemma second_descriptor_leaks:
  assumes "k (trace ps) (RecvMsg fd 1 cmsg_space) = \<lparr>ret = 1, stored = 0, errno = 0,
      control = [\<lparr>cmsg_level = SOL_SOCKET, cmsg_type = SCM_RIGHTS, cmsg_data = d, cmsg_more = [d']\<rparr>]\<rparr>"
  shows "\<exists>ps'. recv_fd k fd ps = (Inr d, ps') \<and>
    held k (trace ps) {#} [RecvMsg fd 1 cmsg_space] = Some {#FdRes d, FdRes d'#}"
proof -
  have "\<not> (1 :: i32) <s 0" by (simp add: word_sless_alt)
  with assms show ?thesis by (simp add: recv_fd_def checked_call_eq is_rights_def)
qed

text \<open>The resources after receiving the descriptor and mapping it.\<close>

lemma recv_fd_held:
  assumes "one_descriptor k"
    and "recv_fd k fd ps = (res, ps')"
  shows "trace ps' = trace ps @ [RecvMsg fd 1 cmsg_space] \<and>
    held k (trace ps) r [RecvMsg fd 1 cmsg_space] =
      Some (r + (case res of Inl e \<Rightarrow> {#} | Inr d \<Rightarrow> {#FdRes d#}))"
proof (cases "scan_cmsgs (control (k (trace ps) (RecvMsg fd 1 cmsg_space)))")
  case None
  from scan_cmsgs_None [OF None] None assms(2) show ?thesis
    by (auto simp: recv_fd_def checked_call_eq split: if_splits)
next
  case (Some d)
  have "concat (map (\<lambda>m. map FdRes (cmsg_data m # cmsg_more m))
      (filter is_rights (control (k (trace ps) (RecvMsg fd 1 cmsg_space))))) = [FdRes d]"
    using scan_cmsgs_Some [OF Some] assms(1) by (simp add: one_descriptor_def)
  with Some assms(2) show ?thesis by (auto simp: recv_fd_def checked_call_eq split: if_splits)
qed

lemma RxShmem_map_held:
  assumes "RxShmem_map k fd ps = (res, ps')"
  shows "\<exists>cs. trace ps' = trace ps @ cs \<and>
    held k (trace ps) (r + {#FdRes fd#}) cs =
      Some (r + (case res of Inl e \<Rightarrow> {#} | Inr p \<Rightarrow> {#FdRes fd, MapRes p#}))"
  using assms by (auto simp: RxShmem_map_def map_call_def syscall_def split: if_splits)

lemma close_two_held: "trace (close_fd k a (close_fd k b ps)) = trace ps @ [CloseFd b, CloseFd a]"
  "held k tr {#FdRes a, FdRes b#} [CloseFd b, CloseFd a] = Some {#}"
  by simp_all

text \<open>The part of \<open>connect\<close> behind the two socket descriptors.\<close>

lemma connect_tail_held:
  assumes "one_descriptor k"
  shows "\<exists>res ps' cs. (case recv_fd k w ps of
        (Inl e, ps3) \<Rightarrow> (Inl e, close_fd k w (close_fd k d ps3))
      | (Inr fd, ps3) \<Rightarrow>
          (case RxShmem_map k fd ps3 of
             (Inl e, ps4) \<Rightarrow> (Inl e, close_fd k w (close_fd k d ps4))
           | (Inr p, ps4) \<Rightarrow>
               (Inr (sock\<lparr>writer_fd := w, reader_fd := d, shm_fd := fd, shm_ptr := p, last_seq := 0\<rparr>), ps4))) =
      (res, ps') \<and> trace ps' = trace ps @ cs \<and>
    held k (trace ps) {#FdRes w, FdRes d#} cs = Some (case res of Inl e \<Rightarrow> {#} | Inr c \<Rightarrow> client_resources c)"
proof -
  let ?c3 = "RecvMsg w 1 cmsg_space" and ?wd = "{#FdRes w, FdRes d#}" and ?close = "[CloseFd d, CloseFd w]"
  obtain x ps3 where x: "recv_fd k w ps = (x, ps3)" by force
  from recv_fd_held [OF assms x, of ?wd]
  have t3: "trace ps3 = trace ps @ [?c3]"
    and h3: "held k (trace ps) ?wd [?c3] = Some (?wd + (case x of Inl e \<Rightarrow> {#} | Inr fd \<Rightarrow> {#FdRes fd#}))"
    by simp_all
  show ?thesis
  proof (cases x)
    case (Inl e)
    with x t3 h3 close_two_held held_append [of k "trace ps" ?wd "[?c3]" ?close]
    show ?thesis by (intro exI [of _ "Inl e"] exI [of _ "close_fd k w (close_fd k d ps3)"] exI [of _ "[?c3] @ ?close"]) simp
  next
    case (Inr fd)
    obtain m ps4 where m: "RxShmem_map k fd ps3 = (m, ps4)" by force
    obtain cs where t4: "trace ps4 = trace ps3 @ cs"
      and h4: "held k (trace ps3) (?wd + {#FdRes fd#}) cs =
        Some (?wd + (case m of Inl e \<Rightarrow> {#} | Inr p \<Rightarrow> {#FdRes fd, MapRes p#}))"
      using RxShmem_map_held [OF m] by blast
    have h: "held k (trace ps) ?wd ([?c3] @ cs) =
        Some (?wd + (case m of Inl e \<Rightarrow> {#} | Inr p \<Rightarrow> {#FdRes fd, MapRes p#}))"
      unfolding held_append h3 using h4 t3 Inr by simp
    show ?thesis
    proof (cases m)
      case (Inl e)
      with x \<open>x = Inr fd\<close> m t3 t4 h close_two_held held_append [of k "trace ps" ?wd "[?c3] @ cs" ?close]
      show ?thesis by (intro exI [of _ "Inl e"] exI [of _ "close_fd k w (close_fd k d ps4)"]
            exI [of _ "([?c3] @ cs) @ ?close"]) simp
    next
      case (Inr p)
      with x \<open>x = Inr fd\<close> m t3 t4 h show ?thesis
        by (intro exI [of _ "Inr (sock\<lparr>writer_fd := w, reader_fd := d, shm_fd := fd, shm_ptr := p, last_seq := 0\<rparr>)"]
            exI [of _ ps4] exI [of _ "[?c3] @ cs"]) (simp add: client_resources_def add_mset_commute)
    qed
  qed
qed

lemma connect_held:
  assumes "one_descriptor k"
  shows "\<exists>res ps' cs. connect k path sock ps = (res, ps') \<and> trace ps' = trace ps @ cs \<and>
    held k (trace ps) {#} cs = Some (case res of Inl e \<Rightarrow> {#} | Inr c \<Rightarrow> client_resources c)"
proof -
  let ?c1 = "ConnectUnix path"
  let ?w = "ret (k (trace ps) ?c1)"
  let ?c2 = "DupFd ?w"
  let ?d = "ret (k (trace ps @ [?c1]) ?c2)"
  let ?ps2 = "ps\<lparr>trace := trace ps @ [?c1, ?c2]\<rparr>"
  consider "?w <s 0" | "\<not> ?w <s 0" "?d <s 0" | "\<not> ?w <s 0" "\<not> ?d <s 0" by blast
  then show ?thesis
  proof cases
    case 3
    then have "held k (trace ps) {#} [?c1, ?c2] = Some {#FdRes ?w, FdRes ?d#}" by (simp add: add_mset_commute)
    then have h: "held k (trace ps) {#} ([?c1, ?c2] @ cs) = held k (trace ?ps2) {#FdRes ?w, FdRes ?d#} cs" for cs
      by (simp only: held_append) simp
    obtain res ps' cs where "connect k path sock ps = (res, ps')" "trace ps' = trace ?ps2 @ cs"
      "held k (trace ?ps2) {#FdRes ?w, FdRes ?d#} cs = Some (case res of Inl e \<Rightarrow> {#} | Inr c \<Rightarrow> client_resources c)"
      using connect_tail_held [OF assms, where w = ?w and ps = ?ps2 and d = ?d and sock = sock] 3 by (auto simp: connect_def checked_call_eq)
    with h [of cs] show ?thesis by (intro exI [of _ res] exI [of _ ps'] exI [of _ "[?c1, ?c2] @ cs"]) simp
  qed (simp_all add: connect_def checked_call_eq)
qed

text \<open>The C interface neither leaks nor frees twice, whatever the kernel answers (as long
  as the peer passes at most one descriptor): when connecting fails, every descriptor
  acquired on the way has been closed and nothing is mapped; when it succeeds, the
  process holds exactly the two socket descriptors, the descriptor of the shared region
  and its mapping; destroying the handle (or the null handle of a failed connection)
  releases exactly these.\<close>

lemma client_resources_balanced:
  assumes "one_descriptor k"
  shows "\<exists>p ps' cs ds. cm108_connect k path sock ps = (p, ps') \<and> trace ps' = trace ps @ cs \<and>
    held k (trace ps) {#} cs = Some (case p of None \<Rightarrow> {#} | Some c \<Rightarrow> client_resources c) \<and>
    trace (cm108_destroy k p ps') = trace ps' @ ds \<and>
    held k (trace ps) {#} (cs @ ds) = Some {#}"
proof (cases "\<exists>b. path = Some b \<and> utf8_valid b")
  case True
  then obtain b where b: "path = Some b" "utf8_valid b" by blast
  obtain res ps' cs where c: "connect k b sock ps = (res, ps')" "trace ps' = trace ps @ cs"
    "held k (trace ps) {#} cs = Some (case res of Inl e \<Rightarrow> {#} | Inr c \<Rightarrow> client_resources c)"
    using connect_held [OF assms] by blast
  with b show ?thesis
    by (cases res) (simp_all add: cm108_connect_def cm108_destroy_def client_drop_def RxShmem_drop_def unmap_def
        client_resources_def held_append add_mset_commute)
qed (auto simp: cm108_connect_def cm108_destroy_def split: option.split)

end
