(* ===== verification/Cm108_Handles.thy ===== *)
theory Cm108_Handles
  imports Cm108_Client
begin

text \<open>
  Programs in C that use the library: the functions of
  \<^verbatim>\<open>crates/cm108-client/src/ffi.rs\<close> on raw pointers. A client that has been handed
  out lives in a box on the heap (\<open>Box::into_raw\<close>); the heap is a map from addresses to
  clients and address 0 is the null pointer. Following a pointer that is neither null
  nor the address of a live box, and copying behind the end of the caller's buffer, are
  the outcome \<open>Undefined\<close>. A program is a function of what it has done and seen so far;
  what the socket, the shared region and the kernel do meanwhile is an argument.
\<close>

section \<open>Calls on raw pointers\<close>

type_synonym boxes = "u64 \<rightharpoonup> client"

record c_state =
  boxed :: boxes
  cproc :: process

text \<open>What happens outside during a call: the stream behind a new connection, how many
  bytes arrive, the contents of the region at the passes of the reader and how many
  messages it waits for, and the errors of the two \<open>set_nonblocking\<close> calls.\<close>

record c_env =
  new_stream :: client
  arriving :: nat
  passes :: "bytes list"
  patience :: nat
  on_error :: "ErrorKind option"
  off_error :: "ErrorKind option"

text \<open>Buffers are \<open>None\<close> when null; \<open>CPollEvent\<close> is told whether \<open>out\<close> is null.\<close>

datatype c_call =
    CConnect "bytes option"
  | CDestroy u64
  | CSubscribe u64 u8
  | CReadAudio u64 "i16 list option" u64
  | CWriteAudio u64 "i16 list option" u64
  | CSetPtt u64 i32
  | CSetGpio u64 u8 i32
  | CPollEvent u64 bool

datatype c_value =
    VHandle u64
  | VVoid
  | VCode i32
  | VSamples i32 "i16 list option"
  | VEvent i32 "Cm108Event option"

datatype c_outcome = Undefined | Aborts | Waits | Gives c_value c_state

text \<open>Following a pointer, as the macro \<open>ffi_client_mut\<close> does: \<open>None\<close> when it dangles,
  \<open>Some None\<close> when it is null.\<close>

definition client_ref :: "boxes \<Rightarrow> u64 \<Rightarrow> client option option" where
  "client_ref h p = (if p = 0 then Some None else map_option Some (h p))"

definition box_into_raw :: "(boxes \<Rightarrow> u64 option) \<Rightarrow> client \<Rightarrow> boxes \<Rightarrow> (u64 \<times> boxes) option" where
  "box_into_raw alloc c h = map_option (\<lambda>a. (a, h(a \<mapsto> c))) (alloc h)"

definition store_back :: "u64 \<Rightarrow> client option \<Rightarrow> boxes \<Rightarrow> boxes" where
  "store_back p r h = (case r of None \<Rightarrow> h | Some c \<Rightarrow> h(p \<mapsto> c))"

definition bytes_arrive :: "nat \<Rightarrow> client \<Rightarrow> client" where
  "bytes_arrive n c = c\<lparr>arrived := arrived c @ take n (coming c), coming := drop n (coming c)\<rparr>"

text \<open>A call that borrows the client behind its pointer; \<open>None\<close>: it does not return.\<close>

definition borrow_call :: "(client option \<Rightarrow> (c_value \<times> client option) option) \<Rightarrow> c_env \<Rightarrow> u64 \<Rightarrow> c_state \<Rightarrow> c_outcome" where
  "borrow_call op env p st =
     (case client_ref (boxed st) p of
        None \<Rightarrow> Undefined
      | Some r \<Rightarrow>
          (case op (map_option (bytes_arrive (arriving env)) r) of
             None \<Rightarrow> Waits
           | Some (v, r') \<Rightarrow> Gives v (st\<lparr>boxed := store_back p r' (boxed st)\<rparr>)))"

definition code_call :: "(client option \<Rightarrow> i32 \<times> client option) \<Rightarrow> c_env \<Rightarrow> u64 \<Rightarrow> c_state \<Rightarrow> c_outcome" where
  "code_call op = borrow_call (\<lambda>r. Some (case op r of (v, r') \<Rightarrow> (VCode v, r')))"

text \<open>The copy into the caller's buffer is within it.\<close>

fun copy_checked :: "i16 list \<Rightarrow> c_outcome \<Rightarrow> c_outcome" where
  "copy_checked b (Gives (VSamples n b') st) =
     (if 0 <=s n \<and> length b < 2 * unat n then Undefined else Gives (VSamples n b') st)"
| "copy_checked b res = res"

fun c_step :: "kernel \<Rightarrow> (boxes \<Rightarrow> u64 option) \<Rightarrow> c_env \<Rightarrow> c_call \<Rightarrow> c_state \<Rightarrow> c_outcome" where
  "c_step k alloc env (CConnect path) st =
     (case cm108_connect k path (new_stream env) (cproc st) of
        (None, ps) \<Rightarrow> Gives (VHandle 0) (st\<lparr>cproc := ps\<rparr>)
      | (Some c, ps) \<Rightarrow>
          (case box_into_raw alloc c (boxed st) of
             None \<Rightarrow> Aborts
           | Some (a, h) \<Rightarrow> Gives (VHandle a) (st\<lparr>boxed := h, cproc := ps\<rparr>)))"
| "c_step k alloc env (CDestroy p) st =
     (case client_ref (boxed st) p of
        None \<Rightarrow> Undefined
      | Some None \<Rightarrow> Gives VVoid st
      | Some (Some c) \<Rightarrow>
          Gives VVoid (st\<lparr>boxed := (boxed st)(p := None), cproc := cm108_destroy k (Some c) (cproc st)\<rparr>))"
| "c_step k alloc env (CSubscribe p fl) st = code_call (cm108_subscribe fl) env p st"
| "c_step k alloc env (CReadAudio p buf n) st =
     (case buf of
        None \<Rightarrow> Gives (VSamples (- 1) None) st
      | Some b \<Rightarrow> copy_checked b
          (borrow_call (\<lambda>r. map_option (\<lambda>(v, r', b'). (VSamples v b', r'))
             (cm108_read_audio (patience env) (passes env) r (Some b) n)) env p st))"
| "c_step k alloc env (CWriteAudio p buf n) st = Gives (VCode (cm108_write_audio None buf n)) st"
| "c_step k alloc env (CSetPtt p asserted) st = code_call (cm108_set_ptt asserted) env p st"
| "c_step k alloc env (CSetGpio p g_pin high) st = code_call (cm108_set_gpio g_pin high) env p st"
| "c_step k alloc env (CPollEvent p out_null) st =
     (if out_null then Gives (VEvent (- 1) None) st
      else borrow_call (\<lambda>r. Some (case cm108_poll_event (on_error env) (off_error env) r False of
             (v, r', ev) \<Rightarrow> (VEvent v ev, r'))) env p st)"

section \<open>Programs\<close>

type_synonym c_history = "(c_call \<times> c_value) list"

text \<open>\<open>Stopped\<close>: the call after this history aborted or never returned.\<close>

datatype c_run = Misused | Stopped c_history c_state | Reached c_history c_state

fun c_exec :: "kernel \<Rightarrow> (boxes \<Rightarrow> u64 option) \<Rightarrow> (c_history \<Rightarrow> c_call option) \<Rightarrow> (c_history \<Rightarrow> c_env)
    \<Rightarrow> nat \<Rightarrow> c_history \<Rightarrow> c_state \<Rightarrow> c_run" where
  "c_exec k alloc prog env 0 hist st = Reached hist st"
| "c_exec k alloc prog env (Suc n) hist st =
     (case prog hist of
        None \<Rightarrow> Reached hist st
      | Some c \<Rightarrow>
          (case c_step k alloc (env hist) c st of
             Undefined \<Rightarrow> Misused
           | Aborts \<Rightarrow> Stopped hist st
           | Waits \<Rightarrow> Stopped hist st
           | Gives v st' \<Rightarrow> c_exec k alloc prog env n (hist @ [(c, v)]) st'))"

text \<open>The protocol of \<^verbatim>\<open>include/cm108.h\<close>, stated over what the program has seen alone:
  the handles obtained and not yet destroyed, and the calls that use only such handles
  (or null) and buffers of the promised size.\<close>

fun live_after :: "c_call \<times> c_value \<Rightarrow> u64 set \<Rightarrow> u64 set" where
  "live_after (CConnect path, VHandle a) l = (if a = 0 then l else insert a l)"
| "live_after (CDestroy p, v) l = l - {p}"
| "live_after _ l = l"

definition live_handles :: "c_history \<Rightarrow> u64 set" where
  "live_handles hist = fold live_after hist {}"

fun uses_handle :: "c_call \<Rightarrow> u64 option" where
  "uses_handle (CConnect path) = None"
| "uses_handle (CDestroy p) = Some p"
| "uses_handle (CSubscribe p fl) = Some p"
| "uses_handle (CReadAudio p buf n) = Some p"
| "uses_handle (CWriteAudio p buf n) = Some p"
| "uses_handle (CSetPtt p x) = Some p"
| "uses_handle (CSetGpio p g_pin x) = Some p"
| "uses_handle (CPollEvent p out_null) = Some p"

text \<open>The pointer a call follows: a null buffer or \<open>out\<close> is noticed first, and
  \<open>cm108_write_audio\<close> uses none of its pointers.\<close>

fun follows_pointer :: "c_call \<Rightarrow> u64 option" where
  "follows_pointer (CWriteAudio p buf n) = None"
| "follows_pointer (CReadAudio p None n) = None"
| "follows_pointer (CPollEvent p True) = None"
| "follows_pointer c = uses_handle c"

fun buffer_fits :: "c_call \<Rightarrow> bool" where
  "buffer_fits (CReadAudio p (Some b) n) = (2 * unat n \<le> length b)"
| "buffer_fits _ = True"

definition follows_header :: "u64 set \<Rightarrow> c_call \<Rightarrow> bool" where
  "follows_header l c \<longleftrightarrow> buffer_fits c \<and> (case uses_handle c of None \<Rightarrow> True | Some p \<Rightarrow> p = 0 \<or> p \<in> l)"

text \<open>An allocator returns a non-null address that is not in use, or none.\<close>

definition fresh_alloc :: "(boxes \<Rightarrow> u64 option) \<Rightarrow> bool" where
  "fresh_alloc alloc \<longleftrightarrow> (\<forall>h a. alloc h = Some a \<longrightarrow> a \<noteq> 0 \<and> h a = None)"

section \<open>Lemmas\<close>

text \<open>What the boxes own.\<close>

definition owned :: "boxes \<Rightarrow> resource multiset" where
  "owned h = (\<Sum>p \<in> dom h. client_resources (the (h p)))"

lemma owned_new: "h a = None \<Longrightarrow> owned (h(a \<mapsto> c)) = owned h + client_resources c"
  unfolding owned_def by (subst dom_fun_upd, simp, subst sum.insert)
    (auto intro!: sum.cong simp: add.commute)

lemma owned_gone: "h a = Some c \<Longrightarrow> owned h = owned (h(a := None)) + client_resources c"
  using owned_new [of "h(a := None)" a c] by (simp add: fun_upd_idem)

lemma owned_same:
  assumes "h a = Some c" "client_resources c' = client_resources c"
  shows "owned (h(a \<mapsto> c')) = owned h"
  using owned_gone [of h a c] owned_new [of "h(a := None)" a c'] assms by simp

lemma held_frame: "held k tr r cs = Some s \<Longrightarrow> held k tr (q + r) cs = Some (q + s)"
proof (induction k tr r cs rule: held.induct)
  case (2 k tr r c cs)
  let ?g = "gains c (k tr c)"
  from "2.prems" have b: "gives_back c \<subseteq># r + ?g" by (simp split: if_splits)
  then have "gives_back c \<subseteq># q + (r + ?g)" using subset_mset.add_increasing by fastforce
  moreover have "q + (r + ?g) - gives_back c = q + (r + ?g - gives_back c)"
    using b by (rule multiset_diff_union_assoc)
  ultimately show ?case using 2 b by (simp add: add.assoc)
qed simp
text \<open>A call of the library leaves the descriptors and the mapping of its client alone.\<close>

definition same_fds :: "client \<Rightarrow> client \<Rightarrow> bool" where
  "same_fds c c' \<longleftrightarrow> writer_fd c' = writer_fd c \<and> reader_fd c' = reader_fd c \<and> shm_fd c' = shm_fd c \<and>
     shm_ptr c' = shm_ptr c"

lemma same_fds_refl [simp]: "same_fds c c"
  by (simp add: same_fds_def)

lemma same_fds_trans: "same_fds a b \<Longrightarrow> same_fds b c \<Longrightarrow> same_fds a c"
  by (simp add: same_fds_def)

lemma same_fds_upd [simp]:
  "same_fds c (c'\<lparr>arrived := x\<rparr>) = same_fds c c'" "same_fds c (c'\<lparr>coming := x\<rparr>) = same_fds c c'"
  "same_fds c (c'\<lparr>to_srv := t\<rparr>) = same_fds c c'" "same_fds c (c'\<lparr>last_seq := sq\<rparr>) = same_fds c c'"
  "same_fds c (c'\<lparr>nonblocking := b\<rparr>) = same_fds c c'"
  "same_fds (c\<lparr>nonblocking := b\<rparr>) c' = same_fds c c'"
  by (simp_all add: same_fds_def)

lemma same_fds_resources: "same_fds c c' \<Longrightarrow> client_resources c' = client_resources c"
  by (simp add: same_fds_def client_resources_def)

lemma bytes_arrive_fds [simp]: "same_fds c (bytes_arrive n c)"
  by (simp add: bytes_arrive_def)

lemma recv_msg_fds: "recv_msg c = (res, c') \<Longrightarrow> same_fds c c'"
  by (auto simp: recv_msg_def Let_def split: prod.splits)

lemma client_send_fds: "client_send m c = (res, c') \<Longrightarrow> same_fds c c'"
  by (auto simp: client_send_def split: prod.splits sum.splits)

lemma poll_msg_fds:
  assumes "poll_msg set_on set_off c = (res, c')"
  shows "same_fds c c'"
proof -
  obtain x c1 where r: "recv_msg (c\<lparr>nonblocking := True\<rparr>) = (x, c1)" by force
  from recv_msg_fds [OF this] have "same_fds c c1" by simp
  with assms r show ?thesis by (auto simp: poll_msg_def Let_def split: option.splits sum.splits if_splits)
qed

lemma read_audio_blocking_fds: "read_audio_blocking n snaps c = Some (res, c') \<Longrightarrow> same_fds c c'"
proof (induction n snaps c arbitrary: res c' rule: read_audio_blocking.induct)
  case (2 n snaps c)
  obtain x c1 where r: "recv_msg c = (x, c1)" by force
  note s = recv_msg_fds [OF r]
  show ?case
    using "2.prems" "2.IH" r s
    by (auto split: sum.splits option.splits ServerMsg.splits if_splits intro: same_fds_trans)
qed simp

text \<open>A borrowed client keeps its descriptors; no other is touched.\<close>

definition keeps_fds :: "(client option \<Rightarrow> (c_value \<times> client option) option) \<Rightarrow> bool" where
  "keeps_fds op \<longleftrightarrow> (\<forall>v r. op None = Some (v, r) \<longrightarrow> r = None) \<and>
     (\<forall>c v r. op (Some c) = Some (v, r) \<longrightarrow> (\<exists>c'. r = Some c' \<and> same_fds c c'))"

lemma code_call_keeps:
  assumes "\<And>c r c'. op c = (r, c') \<Longrightarrow> same_fds c c'"
  shows "keeps_fds (\<lambda>r. Some (case ffi_call op r of (v, r') \<Rightarrow> (VCode v, r')))"
  using assms by (auto simp: keeps_fds_def ffi_call_def split: prod.splits)

lemma read_audio_keeps: "keeps_fds (\<lambda>r. map_option (\<lambda>(v, r', b'). (VSamples v b', r'))
    (cm108_read_audio fuel snaps r (Some b) n))"
  by (auto simp: keeps_fds_def cm108_read_audio_def Let_def split: option.splits sum.splits prod.splits
      dest: read_audio_blocking_fds)

lemma poll_event_keeps: "keeps_fds (\<lambda>r. Some (case cm108_poll_event e e' r False of (v, r', ev) \<Rightarrow> (VEvent v ev, r')))"
  by (auto simp: keeps_fds_def cm108_poll_event_def split: option.splits sum.splits prod.splits
      dest: poll_msg_fds)

definition only_touches :: "u64 \<Rightarrow> c_state \<Rightarrow> c_state \<Rightarrow> bool" where
  "only_touches p st st' \<longleftrightarrow> cproc st' = cproc st \<and> dom (boxed st') = dom (boxed st) \<and>
     owned (boxed st') = owned (boxed st) \<and> (\<forall>q. q \<noteq> p \<longrightarrow> boxed st' q = boxed st q)"

lemma only_touches_refl [simp]: "only_touches p st st"
  by (simp add: only_touches_def)

lemma borrow_call_boxes:
  assumes "keeps_fds op" "borrow_call op env p st = Gives v st'"
  shows "only_touches p st st'"
proof -
  obtain r where r: "client_ref (boxed st) p = Some r" using assms(2) by (auto simp: borrow_call_def split: option.splits)
  show ?thesis
  proof (cases r)
    case None
    with assms r show ?thesis
      by (auto simp: borrow_call_def keeps_fds_def store_back_def only_touches_def split: option.splits)
  next
    case (Some c)
    with r have p: "boxed st p = Some c" by (auto simp: client_ref_def split: if_splits)
    let ?c = "bytes_arrive (arriving env) c"
    from assms(2) r Some obtain r' where r': "op (Some ?c) = Some (v, r')" "st' = st\<lparr>boxed := store_back p r' (boxed st)\<rparr>"
      by (auto simp: borrow_call_def split: option.splits)
    with assms(1) obtain c' where c': "same_fds ?c c'" "st' = st\<lparr>boxed := (boxed st)(p \<mapsto> c')\<rparr>"
      unfolding keeps_fds_def store_back_def by fastforce
    have "same_fds c c'" by (rule same_fds_trans [OF bytes_arrive_fds c'(1)])
    from owned_same [where h = "boxed st" and a = p, OF p same_fds_resources [OF this]] p c'(2) show ?thesis
      by (auto simp: only_touches_def)
  qed
qed
lemma copy_checked_Gives: "copy_checked b res = Gives v st \<Longrightarrow> res = Gives v st"
  by (induction b res rule: copy_checked.induct) (auto split: if_splits)

lemma live_handles_snoc [simp]: "live_handles (hist @ [e]) = live_after e (live_handles hist)"
  by (simp add: live_handles_def)

lemmas borrowing = code_call_def cm108_subscribe_def cm108_set_ptt_def cm108_set_gpio_def subscribe_def set_ptt_def
  set_gpio_def

text \<open>A call other than connecting and destroying.\<close>

lemma borrowing_step:
  assumes "c_step k alloc env c st = Gives v st'" "uses_handle c = Some p" "c \<noteq> CDestroy p"
  shows "only_touches p st st' \<and> live_after (c, v) l = l"
proof -
  have send: "keeps_fds (\<lambda>r. Some (case ffi_call (client_send m) r of (v, r') \<Rightarrow> (VCode v, r')))" for m
    by (rule code_call_keeps) (rule client_send_fds)
  note lib = borrow_call_boxes [OF send] borrow_call_boxes [OF read_audio_keeps] borrow_call_boxes [OF poll_event_keeps]
  from assms show ?thesis
    by (cases c) (auto simp: borrowing dest: lib copy_checked_Gives split: if_splits option.splits)
qed

text \<open>The invariant of a program's run.\<close>

definition handles_inv :: "kernel \<Rightarrow> os_call list \<Rightarrow> c_history \<Rightarrow> c_state \<Rightarrow> bool" where
  "handles_inv k tr hist st \<longleftrightarrow> dom (boxed st) = live_handles hist \<and> 0 \<notin> live_handles hist \<and>
     (\<exists>cs. trace (cproc st) = tr @ cs \<and> held k tr {#} cs = Some (owned (boxed st)))"

lemma handles_inv_calls:
  assumes "handles_inv k tr hist st" "trace ps = trace (cproc st) @ ds"
    "held k (trace (cproc st)) (owned (boxed st)) ds = Some (owned h)"
    "dom h = live_after e (live_handles hist)" "0 \<notin> dom h"
  shows "handles_inv k tr (hist @ [e]) (st\<lparr>boxed := h, cproc := ps\<rparr>)"
proof -
  from assms(1) obtain cs where "trace (cproc st) = tr @ cs" "held k tr {#} cs = Some (owned (boxed st))"
    by (auto simp: handles_inv_def)
  with assms(2-) show ?thesis
    unfolding handles_inv_def by (intro conjI exI [of _ "cs @ ds"]) (simp_all add: held_append)
qed
lemma connect_step_inv:
  assumes "one_descriptor k" "fresh_alloc alloc" "handles_inv k tr hist st"
    "c_step k alloc env (CConnect path) st = Gives v st'"
  shows "handles_inv k tr (hist @ [(CConnect path, v)]) st'"
proof -
  obtain r ps cs where c: "cm108_connect k path (new_stream env) (cproc st) = (r, ps)" "trace ps = trace (cproc st) @ cs"
    "held k (trace (cproc st)) {#} cs = Some (case r of None \<Rightarrow> {#} | Some c \<Rightarrow> client_resources c)"
    using client_resources_balanced [OF assms(1), of path "new_stream env" "cproc st"] by blast
  from held_frame [OF c(3), of "owned (boxed st)"]
  have h: "held k (trace (cproc st)) (owned (boxed st)) cs =
      Some (owned (boxed st) + (case r of None \<Rightarrow> {#} | Some c \<Rightarrow> client_resources c))" by simp
  have i: "dom (boxed st) = live_handles hist" "0 \<notin> live_handles hist" using assms(3) by (simp_all add: handles_inv_def)
  show ?thesis
  proof (cases r)
    case None
    with assms(4) c have "v = VHandle 0" "st' = st\<lparr>boxed := boxed st, cproc := ps\<rparr>" by simp_all
    with handles_inv_calls [OF assms(3) c(2), of "boxed st" "(CConnect path, v)"] h i None show ?thesis by simp
  next
    case (Some cl)
    with assms(4) c obtain a where a: "alloc (boxed st) = Some a" "v = VHandle a"
      "st' = st\<lparr>boxed := (boxed st)(a \<mapsto> cl), cproc := ps\<rparr>"
      by (auto simp: box_into_raw_def split: option.splits)
    then have "a \<noteq> 0" "boxed st a = None" using assms(2) by (auto simp: fresh_alloc_def)
    with handles_inv_calls [OF assms(3) c(2), of "(boxed st)(a \<mapsto> cl)" "(CConnect path, v)"] h i Some a owned_new
    show ?thesis by simp
  qed
qed

lemma client_drop_held:
  "trace (client_drop k c ps) = trace ps @ [CloseFd (writer_fd c), CloseFd (reader_fd c),
     Munmap (shm_ptr c) (of_nat SHMEM_SIZE), CloseFd (shm_fd c)]"
  "held k tr (r + client_resources c) [CloseFd (writer_fd c), CloseFd (reader_fd c),
     Munmap (shm_ptr c) (of_nat SHMEM_SIZE), CloseFd (shm_fd c)] = Some r"
  by (simp_all add: client_drop_def RxShmem_drop_def unmap_def client_resources_def)

lemma destroy_step_inv:
  assumes "handles_inv k tr hist st" "c_step k alloc env (CDestroy p) st = Gives v st'"
  shows "handles_inv k tr (hist @ [(CDestroy p, v)]) st'"
proof -
  have i: "dom (boxed st) = live_handles hist" "0 \<notin> live_handles hist" using assms(1) by (simp_all add: handles_inv_def)
  show ?thesis
  proof (cases "p = 0")
    case True
    with assms(2) have "st' = st" by (simp add: client_ref_def)
    with True assms(1) show ?thesis by (simp add: handles_inv_def)
  next
    case False
    show ?thesis
    proof (cases "boxed st p")
      case (Some c)
      with False assms(2) have "st' = st\<lparr>boxed := (boxed st)(p := None), cproc := client_drop k c (cproc st)\<rparr>"
        by (simp add: client_ref_def cm108_destroy_def)
      with handles_inv_calls [OF assms(1) client_drop_held(1), of c "(boxed st)(p := None)" "(CDestroy p, v)"] i
        client_drop_held(2) [of k "trace (cproc st)" "owned ((boxed st)(p := None))" c] owned_gone [of "boxed st" p c] Some
      show ?thesis by simp
    qed (use False assms(2) in \<open>simp add: client_ref_def\<close>)
  qed
qed

lemma step_inv:
  assumes "one_descriptor k" "fresh_alloc alloc" "handles_inv k tr hist st" "c_step k alloc env c st = Gives v st'"
  shows "handles_inv k tr (hist @ [(c, v)]) st'"
proof -
  consider path where "c = CConnect path" | p where "c = CDestroy p" | p where "uses_handle c = Some p" "c \<noteq> CDestroy p"
    by (cases c) auto
  then show ?thesis
  proof cases
    case 3
    with borrowing_step [OF assms(4) 3(1), of "live_handles hist"] assms(3)
    show ?thesis by (simp add: handles_inv_def only_touches_def)
  qed (use assms connect_step_inv destroy_step_inv in blast)+
qed

lemma read_audio_copy:
  assumes "cm108_read_audio fuel snaps r (Some b) n = Some (v, r', b')" "2 * unat n \<le> length b"
  shows "\<not> (0 <=s v \<and> length b < 2 * unat v)"
proof -
  have "unat (of_nat (min (unat n) 48) :: i32) = min (unat n) 48" by (simp add: unat_of_nat)
  moreover have "\<not> (0 :: i32) <=s - 1" by (simp add: word_sle_eq)
  ultimately show ?thesis using assms
    by (auto simp: cm108_read_audio_def Let_def layout split: option.splits sum.splits prod.splits)
qed

lemma borrow_call_defined: "p = 0 \<or> p \<in> dom (boxed st) \<Longrightarrow> borrow_call op env p st \<noteq> Undefined"
  by (auto simp: borrow_call_def client_ref_def split: option.splits prod.splits)

lemma step_defined:
  assumes "follows_header (dom (boxed st)) c"
  shows "c_step k alloc env c st \<noteq> Undefined"
proof (cases c)
  case (CReadAudio p buf n)
  show ?thesis
  proof (cases buf)
    case (Some b)
    let ?call = "borrow_call (\<lambda>r. map_option (\<lambda>(v, r', b'). (VSamples v b', r'))
      (cm108_read_audio (patience env) (passes env) r (Some b) n)) env p st"
    have "?call \<noteq> Undefined" using assms CReadAudio
      by (intro borrow_call_defined) (simp add: follows_header_def split: option.splits)
    moreover have "copy_checked b ?call = ?call"
      using assms CReadAudio Some read_audio_copy [where b = b and n = n and fuel = "patience env" and snaps = "passes env"]
      by (auto simp: borrow_call_def follows_header_def split: option.splits prod.splits)
    ultimately show ?thesis using CReadAudio Some by simp
  qed (simp add: CReadAudio)
qed (use assms in \<open>auto simp: follows_header_def code_call_def borrow_call_defined client_ref_def split: option.splits prod.splits\<close>)

lemma step_stops:
  "c_step k alloc env c st = Aborts \<Longrightarrow> alloc (boxed st) = None"
  "c_step k alloc env c st = Waits \<Longrightarrow> \<exists>p b n. c = CReadAudio p (Some b) n"
  by (cases c; auto simp: box_into_raw_def code_call_def borrow_call_def split: option.splits prod.splits if_splits
      elim!: copy_checked.elims)+
lemma c_exec_inv:
  assumes "one_descriptor k" "fresh_alloc alloc" "\<And>hs c. prog hs = Some c \<Longrightarrow> follows_header (live_handles hs) c"
    "handles_inv k tr hist st"
  shows "case c_exec k alloc prog env n hist st of
      Misused \<Rightarrow> False
    | Stopped hist' st' \<Rightarrow> handles_inv k tr hist' st' \<and>
        (alloc (boxed st') = None \<or> (\<exists>p b m. prog hist' = Some (CReadAudio p (Some b) m)))
    | Reached hist' st' \<Rightarrow> handles_inv k tr hist' st' \<and> (prog hist' = None \<or> length hist' = length hist + n)"
  using assms(4)
proof (induction n arbitrary: hist st)
  case (Suc n)
  show ?case
  proof (cases "prog hist")
    case None
    with Suc.prems show ?thesis by simp
  next
    case (Some c)
    have "dom (boxed st) = live_handles hist" using Suc.prems by (simp add: handles_inv_def)
    with assms(3) [OF Some] step_defined have d: "c_step k alloc (env hist) c st \<noteq> Undefined" by simp
    show ?thesis
    proof (cases "c_step k alloc (env hist) c st")
      case (Gives v st')
      with Suc.IH [OF step_inv [OF assms(1,2) Suc.prems Gives]] Some show ?thesis by (simp split: c_run.splits)
    qed (use Some Suc.prems d step_stops [of k alloc "env hist" c st] in simp_all)
  qed
qed simp

lemma borrow_call_null:
  "borrow_call op env 0 st = (case op None of None \<Rightarrow> Waits | Some (v, r) \<Rightarrow> Gives v (st\<lparr>boxed := store_back 0 r (boxed st)\<rparr>))"
  by (simp add: borrow_call_def client_ref_def)

lemma null_step:
  assumes "follows_pointer c = Some 0"
  shows "\<exists>v. c_step k alloc env c st = Gives v st \<and> v \<in> {VVoid, VCode (- 1), VEvent (- 1) None} \<union> range (VSamples (- 1))"
proof -
  have "\<not> (0 :: i32) <=s - 1" by (simp add: word_sle_eq)
  with assms show ?thesis
    by (induction c rule: follows_pointer.induct)
      (simp_all add: borrow_call_null code_call_def cm108_subscribe_def cm108_set_ptt_def cm108_set_gpio_def ffi_call_def
        store_back_def client_ref_def cm108_read_audio_def cm108_poll_event_def)
qed

lemma dangling_step:
  assumes "follows_pointer c = Some p" "p \<noteq> 0" "boxed st p = None"
  shows "c_step k alloc env c st = Undefined"
proof -
  have "client_ref (boxed st) p = None" using assms(2,3) by (simp add: client_ref_def)
  then have "borrow_call op env p st = Undefined" for op by (simp add: borrow_call_def)
  with assms \<open>client_ref (boxed st) p = None\<close> show ?thesis
    by (induction c rule: follows_pointer.induct) (simp_all add: code_call_def)
qed

lemma other_handles_kept:
  assumes "follows_pointer c = Some p"
  shows "\<forall>v st'. c_step k alloc env c st = Gives v st' \<longrightarrow> (\<forall>q. q \<noteq> p \<longrightarrow> boxed st' q = boxed st q)"
proof (intro allI impI)
  fix v st' q
  assume g: "c_step k alloc env c st = Gives v st'" and "q \<noteq> p"
  have u: "uses_handle c = Some p" using assms by (induction c rule: follows_pointer.induct) simp_all
  show "boxed st' q = boxed st q"
  proof (cases "c = CDestroy p")
    case True
    with g \<open>q \<noteq> p\<close> show ?thesis by (cases "client_ref (boxed st) p") (auto split: option.splits)
  next
    case False
    with borrowing_step [OF g u False] \<open>q \<noteq> p\<close> show ?thesis by (simp add: only_touches_def)
  qed
qed

section \<open>What is on the wire\<close>

text \<open>The messages a call sends, and those a program has asked for on a handle since it
  got it.\<close>

fun call_request :: "c_call \<Rightarrow> ClientMsg list" where
  "call_request (CSubscribe p fl) = [Subscribe (from_bits_truncate fl)]"
| "call_request (CSetPtt p x) = [SetGpio 0 (x \<noteq> 0)]"
| "call_request (CSetGpio p g_pin x) = [SetGpio g_pin (x \<noteq> 0)]"
| "call_request _ = []"

fun requests_after :: "u64 \<Rightarrow> c_call \<times> c_value \<Rightarrow> ClientMsg list \<Rightarrow> ClientMsg list" where
  "requests_after p (CConnect path, VHandle a) ms = (if a = p then [] else ms)"
| "requests_after p (c, v) ms = (if uses_handle c = Some p then ms @ call_request c else ms)"

definition requests :: "u64 \<Rightarrow> c_history \<Rightarrow> ClientMsg list" where
  "requests p hist = fold (requests_after p) hist []"

lemma requests_snoc [simp]: "requests p (hist @ [e]) = requests_after p e (requests p hist)"
  by (simp add: requests_def)

definition sends :: "ClientMsg list \<Rightarrow> (client option \<Rightarrow> (c_value \<times> client option) option) \<Rightarrow> bool" where
  "sends ms op \<longleftrightarrow> (\<forall>c v r. op (Some c) = Some (v, r) \<and> out_limit (to_srv c) = None \<longrightarrow>
     (\<exists>c'. r = Some c' \<and> to_srv c' = (to_srv c)\<lparr>outp := outp (to_srv c) @ to_server.wire ms\<rparr>))"

lemma client_send_sends:
  "sends [m] (\<lambda>r. Some (case ffi_call (client_send m) r of (v, r') \<Rightarrow> (VCode v, r')))"
  by (auto simp: sends_def ffi_call_def client_send_def write_framed)

definition same_out :: "client \<Rightarrow> client \<Rightarrow> bool" where
  "same_out c c' \<longleftrightarrow> to_srv c' = to_srv c"

lemma same_out_upd [simp]:
  "same_out c (c'\<lparr>last_seq := sq\<rparr>) = same_out c c'" "same_out c (c'\<lparr>nonblocking := b\<rparr>) = same_out c c'"
  "same_out (c\<lparr>nonblocking := b\<rparr>) c' = same_out c c'"
  by (simp_all add: same_out_def)

lemma same_out_trans: "same_out a b \<Longrightarrow> same_out b c \<Longrightarrow> same_out a c"
  by (simp add: same_out_def)

lemma recv_msg_out: "recv_msg c = (res, c') \<Longrightarrow> same_out c c'"
  by (auto simp: recv_msg_def same_out_def Let_def split: prod.splits)

lemma poll_msg_out:
  assumes "poll_msg set_on set_off c = (res, c')"
  shows "same_out c c'"
proof -
  obtain x c1 where r: "recv_msg (c\<lparr>nonblocking := True\<rparr>) = (x, c1)" by force
  from recv_msg_out [OF this] have "same_out c c1" by simp
  moreover have "same_out c c" by (simp add: same_out_def)
  ultimately show ?thesis using assms r by (auto simp: poll_msg_def Let_def split: option.splits sum.splits if_splits)
qed

lemma read_audio_blocking_out: "read_audio_blocking n snaps c = Some (res, c') \<Longrightarrow> same_out c c'"
proof (induction n snaps c arbitrary: res c' rule: read_audio_blocking.induct)
  case (2 n snaps c)
  obtain x c1 where r: "recv_msg c = (x, c1)" by force
  note s = recv_msg_out [OF r]
  show ?case
    using "2.prems" "2.IH" r s
    by (auto split: sum.splits option.splits ServerMsg.splits if_splits intro: same_out_trans)
qed simp

lemma sends_nothing:
  assumes "\<And>c v r. op (Some c) = Some (v, r) \<Longrightarrow> \<exists>c'. r = Some c' \<and> same_out c c'"
  shows "sends [] op"
  using assms by (fastforce simp: sends_def same_out_def)

lemma read_audio_sends: "sends [] (\<lambda>r. map_option (\<lambda>(v, r', b'). (VSamples v b', r'))
    (cm108_read_audio fuel snaps r (Some b) n))"
  by (rule sends_nothing) (auto simp: cm108_read_audio_def Let_def split: option.splits sum.splits prod.splits
      dest: read_audio_blocking_out)

lemma poll_event_sends: "sends [] (\<lambda>r. Some (case cm108_poll_event e e' r False of (v, r', ev) \<Rightarrow> (VEvent v ev, r')))"
  by (rule sends_nothing) (auto simp: cm108_poll_event_def split: option.splits sum.splits prod.splits
      dest: poll_msg_out)

lemma connect_out:
  assumes "cm108_connect k path sock ps = (Some c, ps')"
  shows "to_srv c = to_srv sock"
proof -
  from assms obtain b where "connect k b sock ps = (Inr c, ps')"
    by (auto simp: cm108_connect_def split: option.splits if_splits sum.splits prod.splits)
  then obtain w d fd p where "c = sock\<lparr>writer_fd := w, reader_fd := d, shm_fd := fd, shm_ptr := p, last_seq := 0\<rparr>"
    by (auto simp: connect_def split: sum.splits prod.splits)
  then show ?thesis by simp
qed

definition on_wire :: "client \<Rightarrow> ClientMsg list \<Rightarrow> bool" where
  "on_wire c ms \<longleftrightarrow> to_srv c = \<lparr>outp = to_server.wire ms, out_limit = None\<rparr>"

lemma borrow_call_sends:
  assumes "sends ms op" "borrow_call op env p st = Gives v st'" "p \<noteq> 0" "boxed st p = Some c" "on_wire c ms0"
  shows "\<exists>c'. boxed st' p = Some c' \<and> on_wire c' (ms0 @ ms)"
proof -
  let ?c = "bytes_arrive (arriving env) c"
  have "client_ref (boxed st) p = Some (Some c)" using assms(3,4) by (simp add: client_ref_def)
  with assms(2) obtain r where r: "op (Some ?c) = Some (v, r)" "st' = st\<lparr>boxed := store_back p r (boxed st)\<rparr>"
    by (auto simp: borrow_call_def split: option.splits)
  have o: "to_srv ?c = \<lparr>outp = to_server.wire ms0, out_limit = None\<rparr>" using assms(5) by (simp add: on_wire_def bytes_arrive_def)
  with assms(1) r(1) obtain c' where "r = Some c'" "to_srv c' = (to_srv ?c)\<lparr>outp := outp (to_srv ?c) @ to_server.wire ms\<rparr>"
    unfolding sends_def by fastforce
  with r(2) o show ?thesis by (simp add: store_back_def on_wire_def)
qed

lemma borrowing_sends:
  assumes "c_step k alloc env c st = Gives v st'" "uses_handle c = Some p" "c \<noteq> CDestroy p"
    "p \<noteq> 0" "boxed st p = Some cl" "on_wire cl ms"
  shows "\<exists>cl'. boxed st' p = Some cl' \<and> on_wire cl' (ms @ call_request c)"
proof -
  note lib = borrow_call_sends [OF client_send_sends _ assms(4-6)] borrow_call_sends [OF read_audio_sends _ assms(4-6)]
    borrow_call_sends [OF poll_event_sends _ assms(4-6)]
  show ?thesis
  proof (cases c)
    case (CReadAudio q buf n)
    with assms show ?thesis by (cases buf) (auto dest!: copy_checked_Gives dest: lib(2))
  qed (use assms in \<open>auto simp: borrowing dest: lib split: if_splits\<close>)
qed

lemma step_wire:
  assumes "c_step k alloc env c st = Gives v st'" "on_wire (new_stream env) []"
    "\<And>p cl. p \<noteq> 0 \<Longrightarrow> boxed st p = Some cl \<Longrightarrow> on_wire cl (requests p hist)" "p \<noteq> 0" "boxed st' p = Some cl'"
  shows "on_wire cl' (requests p (hist @ [(c, v)]))"
proof -
  consider path where "c = CConnect path" | q where "c = CDestroy q" | q where "uses_handle c = Some q" "c \<noteq> CDestroy q"
    by (cases c) auto
  then show ?thesis
  proof cases
    case 1
    obtain r ps where r: "cm108_connect k path (new_stream env) (cproc st) = (r, ps)" by force
    show ?thesis
    proof (cases r)
      case None
      with assms(1) 1 r have "v = VHandle 0" "boxed st' = boxed st" by auto
      with assms(3-5) 1 show ?thesis by simp
    next
      case (Some cl)
      with assms(1) 1 r obtain a where a: "v = VHandle a" "boxed st' = (boxed st)(a \<mapsto> cl)"
        by (auto simp: box_into_raw_def split: option.splits)
      have "on_wire cl []" using connect_out r Some assms(2) by (simp add: on_wire_def)
      with a 1 assms(3-5) show ?thesis by (auto split: if_splits)
    qed
  next
    case (2 q)
    with assms(1,4,5) have "boxed st p = Some cl'"
      by (cases "client_ref (boxed st) q") (auto split: option.splits if_splits)
    with assms(3,4) 2 show ?thesis by simp
  next
    case (3 q)
    have r: "requests p (hist @ [(c, v)]) = (if q = p then requests p hist @ call_request c else requests p hist)"
      using 3(1) by (cases c) auto
    show ?thesis
    proof (cases "q = p")
      case True
      from borrowing_step [OF assms(1) 3] have "dom (boxed st') = dom (boxed st)" by (simp add: only_touches_def)
      with assms(5) obtain cl where "boxed st p = Some cl" by blast
      with borrowing_sends [OF assms(1) 3, of cl "requests p hist"] assms(3-5) True r show ?thesis by auto
    next
      case False
      with borrowing_step [OF assms(1) 3] assms(3-5) r show ?thesis by (auto simp: only_touches_def)
    qed
  qed
qed

text \<open>What a program asked for on a handle is what is on its socket.\<close>

lemma c_exec_wire:
  assumes "\<And>hs. on_wire (new_stream (env hs)) []" "c_exec k alloc prog env n hist st = Reached hist' st'"
    "\<And>p cl. p \<noteq> 0 \<Longrightarrow> boxed st p = Some cl \<Longrightarrow> on_wire cl (requests p hist)" "p \<noteq> 0" "boxed st' p = Some cl'"
  shows "on_wire cl' (requests p hist')"
  using assms(2,3)
proof (induction n arbitrary: hist st)
  case 0
  with assms(4,5) show ?case by simp
next
  case (Suc n)
  show ?case
  proof (cases "prog hist")
    case None
    with Suc.prems assms(4,5) show ?thesis by simp
  next
    case (Some c)
    with Suc.prems(1) obtain v st1 where g: "c_step k alloc (env hist) c st = Gives v st1"
      "c_exec k alloc prog env n (hist @ [(c, v)]) st1 = Reached hist' st'"
      by (auto split: c_outcome.splits)
    from Suc.IH [OF g(2)] step_wire [OF g(1) assms(1) Suc.prems(2)] show ?thesis by blast
  qed
qed

lemma requests_carried:
  "list_all client_msg_ok (requests p hist)" "list_all (fits_frame encode_ClientMsg) (requests p hist)"
proof -
  have "list_all client_msg_ok (call_request c) \<and> list_all (fits_frame encode_ClientMsg) (call_request c)" for c
    by (cases c) (auto simp: fits_client_small flags_ok_def from_bits_truncate_def)
  then have "list_all client_msg_ok (requests_after p e ms) \<and> list_all (fits_frame encode_ClientMsg) (requests_after p e ms)"
    if "list_all client_msg_ok ms" "list_all (fits_frame encode_ClientMsg) ms" for e ms
    using that by (cases "(p, e, ms)" rule: requests_after.cases) (simp_all del: call_request.simps)
  then have "list_all client_msg_ok (requests p hist) \<and> list_all (fits_frame encode_ClientMsg) (requests p hist)"
    by (induction hist rule: rev_induct) (simp_all add: requests_def)
  then show "list_all client_msg_ok (requests p hist)" "list_all (fits_frame encode_ClientMsg) (requests p hist)" by simp_all
qed

section \<open>Properties\<close>


text \<open>A kernel that accepts everything, an allocator with three boxes, and a program that
  connects, keys the transmitter and destroys the handle.\<close>

definition obliging_kernel :: kernel where
  "obliging_kernel tr c =
     (case c of
        ConnectUnix path \<Rightarrow> \<lparr>ret = 3, stored = 0, errno = 0, control = []\<rparr>
      | DupFd fd \<Rightarrow> \<lparr>ret = 4, stored = 0, errno = 0, control = []\<rparr>
      | RecvMsg fd n space \<Rightarrow> \<lparr>ret = 1, stored = 0, errno = 0,
          control = [\<lparr>cmsg_level = SOL_SOCKET, cmsg_type = SCM_RIGHTS, cmsg_data = 9, cmsg_more = []\<rparr>]\<rparr>
      | Mmap a n prot fl fd off \<Rightarrow> \<lparr>ret = 0, stored = 0x7000, errno = 0, control = []\<rparr>
      | _ \<Rightarrow> \<lparr>ret = 0, stored = 0, errno = 0, control = []\<rparr>)"

definition three_boxes :: "boxes \<Rightarrow> u64 option" where
  "three_boxes h = find (\<lambda>a. h a = None) [16, 32, 48]"

fun key_once :: "c_history \<Rightarrow> c_call option" where
  "key_once [] = Some (CConnect (Some (str ''s'')))"
| "key_once [(CConnect path, VHandle a)] = Some (CSetPtt a 1)"
| "key_once [(CConnect path, VHandle a), (CSetPtt q x, v)] = Some (CDestroy a)"
| "key_once _ = None"

definition quiet_env :: c_env where
  "quiet_env = \<lparr>new_stream = demo_client_on [] [], arriving = 0, passes = [], patience = 0, on_error = None, off_error = None\<rparr>"

lemmas c_exec_numeral = c_exec.simps(2) [where n = "pred_numeral v" for v, folded numeral_eq_Suc]

lemmas key_once_run = c_exec_numeral cm108_connect_def connect_def checked_call_eq recv_fd_def RxShmem_map_def map_call_def
  syscall_def obliging_kernel_def box_into_raw_def three_boxes_def borrowing borrow_call_def client_ref_def MAP_FAILED_def
  ffi_call_def store_back_def client_send_def write_framed quiet_env_def demo_client_on_def bytes_arrive_def requests_def


text \<open>The boundary of the C interface, call by call. With a null handle every function
  that borrows the client returns -1, destroying does nothing, and the state stays as it
  is. With an address that is not a live box (a handle destroyed before, for one),
  destroying and borrowing are undefined behaviour. With a live handle no other client
  changes.\<close>

lemma c_call_by_handle:
  assumes "follows_pointer c = Some p"
  shows "if p = 0 then \<exists>v. c_step k alloc env c st = Gives v st \<and> v \<in> {VVoid, VCode (- 1), VEvent (- 1) None} \<union> range (VSamples (- 1))
    else if boxed st p = None then c_step k alloc env c st = Undefined
    else \<forall>v st'. c_step k alloc env c st = Gives v st' \<longrightarrow> (\<forall>q. q \<noteq> p \<longrightarrow> boxed st' q = boxed st q)"
proof -
  consider "p = 0" | "p \<noteq> 0" "boxed st p = None" | "p \<noteq> 0" "boxed st p \<noteq> None" by blast
  then show ?thesis
  proof cases
    case 1
    with assms null_step show ?thesis by simp
  next
    case 2
    with assms dangling_step show ?thesis by simp
  next
    case 3
    with other_handles_kept [OF assms] show ?thesis by auto
  qed
qed

end
