(* ===== verification/Cm108_Connection.thy ===== *)
theory Cm108_Connection
  imports Cm108_Startup Cm108_Handles
begin

text \<open>
  A connection as the daemon's process sees it: \<open>handle_client\<close> and
  \<open>dispatch_client_msg\<close> of \<^verbatim>\<open>crates/cm108-server/src/ipc.rs\<close> with their system calls
  (passing the descriptor of the shared region, duplicating the socket, closing it) and
  their log lines, over the definitions of \<open>Cm108_Ipc\<close>, which leave both out; and the
  two ends of the handshake put together. The accepted socket is a descriptor; a copy of
  it belongs to the writer thread.
\<close>

section \<open>Log lines\<close>

definition server_log_debug :: "rstring \<Rightarrow> process \<Rightarrow> process" where
  "server_log_debug = eprint_at 1 ''[DEBUG] ''"

definition dec_u64 :: "u64 \<Rightarrow> rstring" where
  "dec_u64 w = dec_nat (unat w)"

definition dec_u8 :: "u8 \<Rightarrow> rstring" where
  "dec_u8 w = dec_nat (unat w)"

definition display_bool :: "bool \<Rightarrow> rstring" where
  "display_bool b = str (if b then ''true'' else ''false'')"

text \<open>The derived \<open>Debug\<close> of the flags.\<close>

definition debug_StreamFlags :: "StreamFlags \<Rightarrow> rstring" where
  "debug_StreamFlags st = str ''StreamFlags('' @ dec_u8 (flag_bits st) @ str '')''"

text \<open>The texts of errors from outside the repository.\<close>

record texts =
  io_text :: "ErrorKind \<Rightarrow> rstring"
  rusb_text :: "RusbError \<Rightarrow> rstring"

text \<open>The text of an error of \<open>read_msg\<close> on the stream \<open>s\<close>: its own two errors carry a
  message.\<close>

definition read_msg_text :: "texts \<Rightarrow> in_stream \<Rightarrow> ErrorKind \<Rightarrow> rstring" where
  "read_msg_text tx s e =
     (let len = unat (of_le_bytes (take 4 (inp s)) :: u32) in
      if length (inp s) < 4 then io_text tx e
      else if len > 65536 then str ''message too large''
      else if length (inp s) - 4 < len then io_text tx e
      else str ''decode error'')"

section \<open>Dispatch\<close>

definition unregister_logged :: "ClientId \<Rightarrow> 'r ClientContext \<Rightarrow> process \<Rightarrow> 'r ClientContext \<times> process" where
  "unregister_logged cid cx ps =
     (cx\<lparr>registry := unregister cid (registry cx)\<rparr>, server_log_debug (str ''client disconnected id='' @ dec_u64 cid) ps)"

definition dispatch_log :: "texts \<Rightarrow> profile \<Rightarrow> write_control \<Rightarrow> ClientId \<Rightarrow> ClientMsg \<Rightarrow> 'r ClientContext
    \<Rightarrow> process \<Rightarrow> process" where
  "dispatch_log tx p wc cid msg cx ps =
     (case msg of
        Subscribe st \<Rightarrow>
          server_log_debug (str ''client subscribed id='' @ dec_u64 cid @ str '' streams='' @ debug_StreamFlags st) ps
      | SetGpio n high \<Rightarrow>
          (if poisoned (gpio cx) then ps
           else case set_pin p wc (guarded (gpio cx)) n high of
             Returns (g, req, Inl e) \<Rightarrow>
               server_log_warn (str ''SetGpio error: '' @ display_HalError (rusb_text tx) e @ str '' id='' @ dec_u64 cid @
                 str '' pin='' @ dec_u8 n @ str '' high='' @ display_bool high) ps
           | _ \<Rightarrow> ps)
      | _ \<Rightarrow> ps)"

definition dispatch_logged :: "texts \<Rightarrow> profile \<Rightarrow> write_control \<Rightarrow> 'r ring_api \<Rightarrow> nat option \<Rightarrow> ClientId
    \<Rightarrow> ClientMsg \<Rightarrow> 'r ClientContext \<Rightarrow> process \<Rightarrow> 'r ClientContext \<times> bool \<times> process" where
  "dispatch_logged tx p wc api now cid msg cx ps =
     (case dispatch_client_msg p wc api now cid msg cx of
        (cx', panicked) \<Rightarrow> (cx', panicked, dispatch_log tx p wc cid msg cx ps))"

fun client_loop_logged :: "texts \<Rightarrow> profile \<Rightarrow> write_control \<Rightarrow> 'r ring_api \<Rightarrow> (nat \<Rightarrow> nat option) \<Rightarrow> ClientId \<Rightarrow> nat
    \<Rightarrow> in_stream \<Rightarrow> 'r ClientContext \<Rightarrow> process \<Rightarrow> 'r ClientContext \<times> bool \<times> process" where
  "client_loop_logged tx p wc api clock cid 0 s cx ps = (cx, False, ps)"
| "client_loop_logged tx p wc api clock cid (Suc n) s cx ps =
     (case read_msg s of
        (Inr (Some msg), s') \<Rightarrow>
          (case dispatch_logged tx p wc api (clock 0) cid msg cx ps of
             (cx', True, ps') \<Rightarrow> (cx', True, ps')
           | (cx', False, ps') \<Rightarrow> client_loop_logged tx p wc api (\<lambda>k. clock (Suc k)) cid n s' cx' ps')
      | (Inr None, s') \<Rightarrow> (cx, False, ps)
      | (Inl e, s') \<Rightarrow>
          (cx, False, server_log_warn (str ''read error: '' @ read_msg_text tx s e @ str '' id='' @ dec_u64 cid) ps))"

section \<open>The handler thread\<close>

text \<open>\<open>fd\<close> is the accepted socket, closed when the handler returns or unwinds. The
  descriptor in the result is the one the writer thread owns. When the thread cannot be
  created its closure, with the copy, is dropped before the handler unwinds. A panic of a
  release build is the end of the process (\<open>Panics\<close>): the handler closes nothing then.\<close>

definition handle_client_io :: "kernel \<Rightarrow> texts \<Rightarrow> profile \<Rightarrow> write_control \<Rightarrow> 'r ring_api \<Rightarrow> (nat \<Rightarrow> nat option)
    \<Rightarrow> bool \<Rightarrow> i32 \<Rightarrow> in_stream \<Rightarrow> 'r ClientContext \<Rightarrow> process
    \<Rightarrow> ('r ClientContext \<times> bool \<times> i32 option \<times> process) outcome" where
  "handle_client_io k tx p wc api clock spawned fd s cx ps =
     (let (cid, reg) = allocate_id (registry cx);
          cx1 = cx\<lparr>registry := register \<lparr>h_id = cid, h_streams = flags_empty, h_sender = sync_channel\<rparr> reg\<rparr>
      in case send_fd k fd (rx_shmem_fd cx) ps of
           (Inl e, ps1) \<Rightarrow>
             (case unregister_logged cid cx1 (server_log_warn
                  (str ''failed to send shmem fd: '' @ io_text tx e @ str '' id='' @ dec_u64 cid) ps1) of
                (cx2, ps2) \<Rightarrow> Returns (cx2, False, None, close_fd k fd ps2))
         | (Inr _, ps1) \<Rightarrow>
             (case checked_call k (DupFd fd) ps1 of
                (Inl e, ps2) \<Rightarrow>
                  (case unregister_logged cid cx1 (server_log_warn
                       (str ''try_clone failed: '' @ io_text tx e @ str '' id='' @ dec_u64 cid) ps2) of
                     (cx2, ps3) \<Rightarrow> Returns (cx2, False, None, close_fd k fd ps3))
              | (Inr r, ps2) \<Rightarrow>
                  if \<not> spawned
                  then thread_panic p
                    (cx1\<lparr>registry := hang_up cid (registry cx1)\<rparr>, True, None, close_fd k fd (close_fd k (ret r) ps2))
                  else
                    (case client_loop_logged tx p wc api clock cid (Suc (length (inp s))) s cx1
                            (server_log_debug (str ''client connected id='' @ dec_u64 cid) ps2) of
                       (cx2, True, ps3) \<Rightarrow> thread_panic p (cx2, True, Some (ret r), close_fd k fd ps3)
                     | (cx2, False, ps3) \<Rightarrow>
                         (case unregister_logged cid cx2 ps3 of
                            (cx3, ps4) \<Rightarrow> Returns (cx3, False, Some (ret r), close_fd k fd ps4)))))"

text \<open>The writer thread ends when its queue does, or at a failed write; then its copy is
  closed.\<close>

definition writer_thread_io :: "kernel \<Rightarrow> i32 \<Rightarrow> channel \<Rightarrow> out_stream \<Rightarrow> process \<Rightarrow> out_stream \<times> process" where
  "writer_thread_io k fd c t ps = (snd (writer_thread c t), close_fd k fd ps)"

section \<open>Lemmas\<close>

lemma log_server [simp]:
  "trace (server_log_debug l ps) = trace ps" "trace (server_log_warn l ps) = trace ps"
  "log_level (server_log_debug l ps) = log_level ps" "log_level (server_log_warn l ps) = log_level ps"
  by (simp_all add: server_log_debug_def server_log_warn_def)

lemma stderr_server:
  "stderr (server_log_debug l ps) = stderr ps @ (if log_level ps \<le> 1 then [str ''[DEBUG] '' @ l] else [])"
  "stderr (server_log_warn l ps) = stderr ps @ (if log_level ps \<le> 3 then [str ''[WARN]  '' @ l] else [])"
  by (simp_all add: server_log_debug_def server_log_warn_def eprint_at_def)

lemma stderr_close [simp]: "stderr (close_fd k fd ps) = stderr ps" "log_level (close_fd k fd ps) = log_level ps"
  by (simp_all add: close_fd_def syscall_def)

lemma dispatch_log_frame [simp]:
  "trace (dispatch_log tx p wc cid msg cx ps) = trace ps"
  "log_level (dispatch_log tx p wc cid msg cx ps) = log_level ps"
  by (simp_all add: dispatch_log_def split: ClientMsg.split outcome.split sum.split prod.split)

text \<open>Leaving out the process gives the handler of \<open>Cm108_Ipc\<close>.\<close>

lemma client_loop_logged_eq:
  assumes "client_loop_logged tx p wc api clock cid n s cx ps = (cx', b, ps')"
  shows "client_loop p wc api clock cid n s cx = (cx', b) \<and> trace ps' = trace ps \<and> log_level ps' = log_level ps"
  using assms
proof (induction tx p wc api clock cid n s cx ps arbitrary: cx' b ps' rule: client_loop_logged.induct)
  case (2 tx p wc api clock cid n s cx ps)
  obtain res s' where r: "read_msg s = (res, s')" by force
  show ?case
  proof (cases "\<exists>msg. res = Inr (Some msg)")
    case True
    then obtain msg where m: "res = Inr (Some msg)" ..
    obtain cx1 b1 where d: "dispatch_client_msg p wc api (clock 0) cid msg cx = (cx1, b1)" by force
    show ?thesis
    proof (cases b1)
      case b1: True
      with "2.prems" r m d show ?thesis by (auto simp: dispatch_logged_def)
    next
      case b1: False
      let ?ps = "dispatch_log tx p wc cid msg cx ps"
      from "2.prems" r m d b1
      have "client_loop_logged tx p wc api (\<lambda>k. clock (Suc k)) cid n s' cx1 ?ps = (cx', b, ps')"
        by (simp add: dispatch_logged_def)
      with "2.IH" [OF r [symmetric] m refl _ _ refl] r m d b1 show ?thesis by (simp add: dispatch_logged_def)
    qed
  next
    case False
    with "2.prems" r show ?thesis by (auto split: sum.splits option.splits)
  qed
qed simp

text \<open>With a device that takes every report, at the default level and without a read error,
  the loop writes nothing.\<close>

lemma dispatch_log_quiet:
  assumes "\<And>req. \<exists>n. wc req = Inr n" "\<not> log_level ps \<le> 1"
  shows "stderr (dispatch_log tx p wc cid msg cx ps) = stderr ps"
proof -
  have "set_pin p wc g n high \<noteq> Returns (g', req, Inl e)" for g n high g' req e
    using assms(1) by (auto simp: set_pin_def write_report_def obind_def Let_def debug_assert_def shl_p_def
        split: outcome.splits sum.splits if_splits) (metis Inl_Inr_False)+
  with assms(2) show ?thesis
    by (auto simp: dispatch_log_def stderr_server split: ClientMsg.split outcome.split sum.split prod.split)
qed

lemma client_loop_quiet:
  assumes "client_loop_logged tx p wc api clock cid n s cx ps = (cx', b, ps')"
    "fst (snd (read_loop read_msg n s)) = None" "\<And>req. \<exists>n. wc req = Inr n" "\<not> log_level ps \<le> 1"
  shows "stderr ps' = stderr ps"
  using assms
proof (induction n arbitrary: clock s cx ps)
  case (Suc n)
  obtain res s' where r: "read_msg s = (res, s')" by force
  show ?case
  proof (cases "\<exists>msg. res = Inr (Some msg)")
    case True
    then obtain msg where m: "res = Inr (Some msg)" ..
    obtain cx1 b1 where d: "dispatch_client_msg p wc api (clock 0) cid msg cx = (cx1, b1)" by force
    let ?ps = "dispatch_log tx p wc cid msg cx ps"
    note q = dispatch_log_quiet [OF Suc.prems(3,4), where tx = tx and p = p and cid = cid and msg = msg and cx = cx]
    show ?thesis
    proof (cases b1)
      case False
      with Suc.prems(1) r m d have "client_loop_logged tx p wc api (\<lambda>k. clock (Suc k)) cid n s' cx1 ?ps = (cx', b, ps')"
        by (simp add: dispatch_logged_def)
      from Suc.IH [OF this _ Suc.prems(3)] Suc.prems(2,4) r m q show ?thesis by (simp add: split_beta)
    qed (use Suc.prems(1) r m d q in \<open>auto simp: dispatch_logged_def\<close>)
  next
    case False
    with Suc.prems r show ?thesis by (auto split: sum.splits option.splits)
  qed
qed simp

text \<open>The three ways a connection goes, by the answers to its first two calls.\<close>

abbreviation rights_msg :: "i32 \<Rightarrow> i32 \<Rightarrow> os_call" where
  "rights_msg fd d \<equiv> SendMsg fd [0] [\<lparr>cmsg_level = SOL_SOCKET, cmsg_type = SCM_RIGHTS, cmsg_data = d, cmsg_more = []\<rparr>]"

definition fd_was_sent :: "kernel \<Rightarrow> i32 \<Rightarrow> 'r ClientContext \<Rightarrow> process \<Rightarrow> bool" where
  "fd_was_sent k fd cx ps \<longleftrightarrow> \<not> ret (k (trace ps) (rights_msg fd (rx_shmem_fd cx))) <s 0"

definition was_cloned :: "kernel \<Rightarrow> i32 \<Rightarrow> 'r ClientContext \<Rightarrow> process \<Rightarrow> bool" where
  "was_cloned k fd cx ps \<longleftrightarrow> \<not> ret (k (trace ps @ [rights_msg fd (rx_shmem_fd cx)]) (DupFd fd)) <s 0"

definition says_goodbye :: "ClientId \<Rightarrow> process \<Rightarrow> process \<Rightarrow> bool" where
  "says_goodbye cid ps ps' \<longleftrightarrow> (log_level ps \<le> 1 \<longrightarrow> stderr ps' \<noteq> [] \<and>
     last (stderr ps') = str ''[DEBUG] client disconnected id='' @ dec_u64 cid)"

lemma str_append: "str a @ str b = str (a @ b)"
  by (simp add: str_def)

lemma goodbye: "log_level q = log_level ps \<Longrightarrow>
  says_goodbye cid ps (close_fd k fd (server_log_debug (str ''client disconnected id='' @ dec_u64 cid) q))"
  by (simp add: says_goodbye_def stderr_server str_append flip: append_assoc)

lemma connection_refused:
  assumes "\<not> (fd_was_sent k fd cx ps \<and> was_cloned k fd cx ps)"
    "handle_client_io k tx p wc api clock spawned fd s cx ps = Returns (cx', panicked, w, ps')"
  shows "w = None \<and> \<not> panicked \<and> says_goodbye (fst (allocate_id (registry cx))) ps ps' \<and>
    (\<exists>cs. trace ps' = trace ps @ rights_msg fd (rx_shmem_fd cx) # cs \<and>
      held k (trace ps) {#FdRes fd#} (rights_msg fd (rx_shmem_fd cx) # cs) = Some {#}) \<and>
    handle_client p wc api clock (fd_was_sent k fd cx ps) (was_cloned k fd cx ps) spawned s cx = Returns (cx', panicked)"
  using assms
  by (auto simp: handle_client_io_def handle_client_refused connected_def send_fd_def unit_call_eq checked_call_eq
      fd_was_sent_def was_cloned_def unregister_logged_def Let_def split_beta goodbye split: if_splits)

lemma connection_no_writer:
  assumes "fd_was_sent k fd cx ps" "was_cloned k fd cx ps"
    "handle_client_io k tx p wc api clock False fd s cx ps = Returns (cx', panicked, w, ps')"
  shows "w = None \<and> panicked \<and> p = Debug \<and>
    (\<exists>cs. trace ps' = trace ps @ rights_msg fd (rx_shmem_fd cx) # cs \<and>
      held k (trace ps) {#FdRes fd#} (rights_msg fd (rx_shmem_fd cx) # cs) = Some {#}) \<and>
    handle_client p wc api clock True True False s cx = Returns (cx', panicked)"
  using assms
  by (auto simp: handle_client_io_def handle_client_no_writer connected_def send_fd_def unit_call_eq checked_call_eq
      fd_was_sent_def was_cloned_def Let_def split_beta split: if_splits)

lemma connection_served:
  assumes "fd_was_sent k fd cx ps" "was_cloned k fd cx ps"
    "handle_client_io k tx p wc api clock True fd s cx ps = Returns (cx', panicked, w, ps')"
  shows "(\<exists>d. w = Some d \<and> trace ps' = trace ps @ [rights_msg fd (rx_shmem_fd cx), DupFd fd, CloseFd fd] \<and>
      held k (trace ps) {#FdRes fd#} [rights_msg fd (rx_shmem_fd cx), DupFd fd, CloseFd fd] = Some {#FdRes d#}) \<and>
    (\<not> panicked \<longrightarrow> says_goodbye (fst (allocate_id (registry cx))) ps ps') \<and> (panicked \<longrightarrow> p = Debug) \<and>
    ((\<forall>req. \<exists>n. wc req = Inr n) \<and> fst (snd (read_loop read_msg (Suc (length (inp s))) s)) = None \<and> \<not> log_level ps \<le> 1 \<longrightarrow>
       stderr ps' = stderr ps) \<and>
    handle_client p wc api clock True True True s cx = Returns (cx', panicked)"
proof -
  let ?cid = "fst (allocate_id (registry cx))" and ?sent = "rights_msg fd (rx_shmem_fd cx)"
  let ?d = "ret (k (trace ps @ [?sent]) (DupFd fd))" and ?ps = "ps\<lparr>trace := trace ps @ [?sent, DupFd fd]\<rparr>"
  let ?pl = "server_log_debug (str ''client connected id='' @ dec_u64 ?cid) ?ps"
  let ?n = "Suc (length (inp s))"
  obtain cx2 b ps3 where l: "client_loop_logged tx p wc api clock ?cid ?n s (connected cx) ?pl = (cx2, b, ps3)"
    by (metis prod_cases3)
  note e = client_loop_logged_eq [OF l]
  have h: "held k (trace ps) {#FdRes fd#} [?sent, DupFd fd, CloseFd fd] = Some {#FdRes ?d#}"
    using assms(2) by (simp add: was_cloned_def)
  have q: "stderr ps3 = stderr ps" if "\<forall>req. \<exists>n. wc req = Inr n" "fst (snd (read_loop read_msg ?n s)) = None" "\<not> log_level ps \<le> 1"
    using client_loop_quiet [OF l] that by (simp add: stderr_server del: read_loop.simps)
  define psx where "psx = (if b then ps3 else server_log_debug (str ''client disconnected id='' @ dec_u64 ?cid) ps3)"
  have "handle_client_io k tx p wc api clock True fd s cx ps =
      (if b then thread_panic p (cx2, b, Some ?d, close_fd k fd psx)
       else Returns (cx2\<lparr>registry := unregister ?cid (registry cx2)\<rparr>, b, Some ?d, close_fd k fd psx))"
    using assms(1,2) l by (cases b) (simp_all add: handle_client_io_def send_fd_def unit_call_eq checked_call_eq
        fd_was_sent_def was_cloned_def unregister_logged_def Let_def split_beta connected_def psx_def del: client_loop_logged.simps)
  with assms(3) have r: "cx' = (if b then cx2 else cx2\<lparr>registry := unregister ?cid (registry cx2)\<rparr>)" "panicked = b"
    "w = Some ?d" "ps' = close_fd k fd psx" "b \<Longrightarrow> p = Debug" by (auto split: if_splits)
  have "handle_client p wc api clock True True True s cx = Returns (cx', panicked)"
    using e r(1,2,5) by (cases b) (simp_all add: handle_client_def connected_def Let_def split_beta del: client_loop.simps)
  moreover have "trace ps' = trace ps @ [?sent, DupFd fd, CloseFd fd]" using r(4) e by (simp add: psx_def)
  moreover have "says_goodbye ?cid ps ps'" if "\<not> b" using that r(4) e goodbye [of ps3 ps] by (simp add: psx_def)
  moreover have "stderr ps' = stderr ps" if "\<forall>req. \<exists>n. wc req = Inr n" "fst (snd (read_loop read_msg ?n s)) = None" "\<not> log_level ps \<le> 1"
    using q [OF that] that(3) e r(4) by (simp add: psx_def stderr_server)
  moreover have "p = Debug" if "panicked" using that r(2,5) by simp
  ultimately show ?thesis using h r(2,3) by blast
qed

lemma connection_io_trace:
  assumes "handle_client_io k tx p wc api clock spawned fd s cx ps = Returns (cx', panicked, w, ps')"
  shows "\<exists>cs. trace ps' = trace ps @ rights_msg fd (rx_shmem_fd cx) # cs"
proof (cases "fd_was_sent k fd cx ps \<and> was_cloned k fd cx ps")
  case True
  with assms show ?thesis
    using connection_served [of k fd cx ps tx p wc api clock s cx' panicked w ps']
      connection_no_writer [of k fd cx ps tx p wc api clock s cx' panicked w ps'] by (cases spawned) auto
qed (use connection_refused [OF _ assms] in blast)

text \<open>A release build ends in a connection only for want of a writer thread.\<close>

lemma dispatch_seq_release: "\<not> snd (dispatch_seq Release wc api clock cid ms cx)"
proof (induction ms arbitrary: clock cx)
  case (Cons m ms)
  have "\<not> snd (dispatch_client_msg Release wc api (clock 0) cid m cx)" by (simp add: dispatch_panics_iff)
  with Cons show ?case by (auto split: prod.split bool.split)
qed simp

lemma client_loop_release: "\<not> snd (client_loop Release wc api clock cid n s cx)"
  using dispatch_seq_release by (simp add: client_loop_dispatches)

lemma connection_panics_iff:
  "handle_client_io k tx p wc api clock spawned fd s cx ps = Panics \<longleftrightarrow>
     p = Release \<and> fd_was_sent k fd cx ps \<and> was_cloned k fd cx ps \<and> \<not> spawned"
proof -
  let ?cid = "fst (allocate_id (registry cx))" and ?sent = "rights_msg fd (rx_shmem_fd cx)"
  let ?pl = "server_log_debug (str ''client connected id='' @ dec_u64 ?cid) (ps\<lparr>trace := trace ps @ [?sent, DupFd fd]\<rparr>)"
  obtain cx2 b ps3 where l: "client_loop_logged tx p wc api clock ?cid (Suc (length (inp s))) s (connected cx) ?pl = (cx2, b, ps3)"
    by (metis prod_cases3)
  have "\<not> (p = Release \<and> b)"
    using client_loop_logged_eq [OF l] client_loop_release [of wc api clock ?cid "Suc (length (inp s))" s "connected cx"]
    by (auto simp del: client_loop.simps)
  with l show ?thesis
    by (cases p; cases b) (auto simp: handle_client_io_def send_fd_def unit_call_eq checked_call_eq fd_was_sent_def
        was_cloned_def unregister_logged_def Let_def split_beta connected_def simp del: client_loop_logged.simps)
qed

text \<open>The rest, by the three ways a connection goes.\<close>

lemma connection_goes_on:
  assumes "handle_client_io k tx p wc api clock spawned fd s cx ps = Returns (cx', panicked, w, ps')"
  shows "handle_client p wc api clock (fd_was_sent k fd cx ps) (was_cloned k fd cx ps) spawned s cx = Returns (cx', panicked) \<and>
    (w \<noteq> None \<longleftrightarrow> fd_was_sent k fd cx ps \<and> was_cloned k fd cx ps \<and> spawned) \<and>
    (\<exists>cs. trace ps' = trace ps @ rights_msg fd (rx_shmem_fd cx) # cs \<and>
       held k (trace ps) {#FdRes fd#} (rights_msg fd (rx_shmem_fd cx) # cs) =
         Some (case w of None \<Rightarrow> {#} | Some d \<Rightarrow> {#FdRes d#}) \<and>
       (\<forall>d c t. w = Some d \<longrightarrow> (\<exists>ds. trace (snd (writer_thread_io k d c t ps')) = trace ps' @ ds \<and>
          held k (trace ps') {#FdRes d#} ds = Some {#}))) \<and>
    (panicked \<longrightarrow> p = Debug) \<and>
    (\<not> panicked \<longrightarrow> says_goodbye (fst (allocate_id (registry cx))) ps ps') \<and>
    (w \<noteq> None \<and> (\<forall>req. \<exists>n. wc req = Inr n) \<and> fst (snd (read_loop read_msg (Suc (length (inp s))) s)) = None \<and>
       \<not> log_level ps \<le> 1 \<longrightarrow> stderr ps' = stderr ps)"
proof -
  consider "\<not> (fd_was_sent k fd cx ps \<and> was_cloned k fd cx ps)" | "fd_was_sent k fd cx ps" "was_cloned k fd cx ps" "\<not> spawned"
    | "fd_was_sent k fd cx ps" "was_cloned k fd cx ps" "spawned" by blast
  then show ?thesis
  proof cases
    case 1
    from connection_refused [OF 1 assms] 1 show ?thesis by auto
  next
    case 2
    with connection_no_writer [of k fd cx ps tx p wc api clock s cx' panicked w ps'] assms show ?thesis by auto
  next
    case 3
    with connection_served [of k fd cx ps tx p wc api clock s cx' panicked w ps'] assms
    obtain d where "w = Some d" "trace ps' = trace ps @ [rights_msg fd (rx_shmem_fd cx), DupFd fd, CloseFd fd]"
      "held k (trace ps) {#FdRes fd#} [rights_msg fd (rx_shmem_fd cx), DupFd fd, CloseFd fd] = Some {#FdRes d#}"
      "handle_client p wc api clock True True True s cx = Returns (cx', panicked)" "panicked \<longrightarrow> p = Debug"
      "\<not> panicked \<longrightarrow> says_goodbye (fst (allocate_id (registry cx))) ps ps'"
      "(\<forall>req. \<exists>n. wc req = Inr n) \<and> fst (snd (read_loop read_msg (Suc (length (inp s))) s)) = None \<and> \<not> log_level ps \<le> 1 \<longrightarrow>
         stderr ps' = stderr ps" by auto
    with 3 show ?thesis
      by (simp add: writer_thread_io_def del: read_loop.simps)
  qed
qed

section \<open>Properties\<close>

text \<open>C9: A connection in the daemon's process, whatever the kernel answers and the client
  sends. A release build ends the whole daemon in it in exactly one case: both calls of the
  handler succeeded and the writer thread could not be created. In every other case, and
  always in a debug build, the daemon goes on. Then: the first call passes the descriptor
  of the shared region over the socket; the shared state changes as by the handler without
  system calls, with the outcomes of the two calls as its arguments; the accepted socket is
  closed on every path and nothing is closed twice; only when both calls succeeded and the
  writer thread runs does the process keep a descriptor, the copy of the socket, and the
  end of the writer thread closes it. The handler panics in debug builds only. With debug
  messages its last line, unless it panicked, says that this client disconnected; at the
  other levels a connection writes nothing unless a call, a read or a report to the device
  failed.\<close>

theorem connection_io_correct:
  "(handle_client_io k tx p wc api clock spawned fd s cx ps = Panics \<longleftrightarrow>
      p = Release \<and> fd_was_sent k fd cx ps \<and> was_cloned k fd cx ps \<and> \<not> spawned) \<and>
   (\<forall>cx' panicked w ps'. handle_client_io k tx p wc api clock spawned fd s cx ps = Returns (cx', panicked, w, ps') \<longrightarrow>
    handle_client p wc api clock (fd_was_sent k fd cx ps) (was_cloned k fd cx ps) spawned s cx = Returns (cx', panicked) \<and>
    (w \<noteq> None \<longleftrightarrow> fd_was_sent k fd cx ps \<and> was_cloned k fd cx ps \<and> spawned) \<and>
    (\<exists>cs. trace ps' = trace ps @ rights_msg fd (rx_shmem_fd cx) # cs \<and>
       held k (trace ps) {#FdRes fd#} (rights_msg fd (rx_shmem_fd cx) # cs) =
         Some (case w of None \<Rightarrow> {#} | Some d \<Rightarrow> {#FdRes d#}) \<and>
       (\<forall>d c t. w = Some d \<longrightarrow> (\<exists>ds. trace (snd (writer_thread_io k d c t ps')) = trace ps' @ ds \<and>
          held k (trace ps') {#FdRes d#} ds = Some {#}))) \<and>
    (panicked \<longrightarrow> p = Debug) \<and>
    (\<not> panicked \<longrightarrow> says_goodbye (fst (allocate_id (registry cx))) ps ps') \<and>
    (w \<noteq> None \<and> (\<forall>req. \<exists>n. wc req = Inr n) \<and> fst (snd (read_loop read_msg (Suc (length (inp s))) s)) = None \<and>
       \<not> log_level ps \<le> 1 \<longrightarrow> stderr ps' = stderr ps))"
  by (rule conjI [OF connection_panics_iff]) (intro allI impI, rule connection_goes_on)

theorem connection_io_correct_witness:
  "(\<exists>cx' ps'. handle_client_io obliging_kernel \<lparr>io_text = \<lambda>_. [], rusb_text = \<lambda>_. []\<rparr> Release (\<lambda>_. Inr 4) list_ring (\<lambda>_. None) True 7
      \<lparr>inp = [], in_end = None\<rparr> (ctx (server_init 5 [] [] [])) \<lparr>trace = [], stderr = [], log_level = 1\<rparr> =
        Returns (cx', False, Some 4, ps') \<and> held obliging_kernel [] {#FdRes 7#} (trace ps') = Some {#FdRes 4#}) \<and>
   handle_client_io obliging_kernel \<lparr>io_text = \<lambda>_. [], rusb_text = \<lambda>_. []\<rparr> Release (\<lambda>_. Inr 4) list_ring (\<lambda>_. None) False 7
      \<lparr>inp = [], in_end = None\<rparr> (ctx (server_init 5 [] [] [])) \<lparr>trace = [], stderr = [], log_level = 1\<rparr> = Panics"
proof -
  let ?tx = "\<lparr>io_text = \<lambda>_. [], rusb_text = \<lambda>_. []\<rparr>" and ?ps = "\<lparr>trace = [], stderr = [], log_level = 1\<rparr>"
  let ?cx = "ctx (server_init 5 [] [] [])" and ?s = "\<lparr>inp = [], in_end = None\<rparr>"
  note io = connection_io_correct [where k = obliging_kernel and tx = ?tx and p = Release and wc = "\<lambda>_. Inr 4" and api = list_ring
      and clock = "\<lambda>_. None" and fd = 7 and s = ?s and cx = ?cx and ps = ?ps]
  have w: "\<not> (0 :: i32) <s 0" "\<not> (4 :: i32) <s 0" by (simp_all add: word_sless_alt)
  then have sent: "fd_was_sent obliging_kernel 7 ?cx ?ps" "was_cloned obliging_kernel 7 ?cx ?ps"
    by (simp_all add: fd_was_sent_def was_cloned_def obliging_kernel_def)
  obtain cx' ps' where h: "handle_client_io obliging_kernel ?tx Release (\<lambda>_. Inr 4) list_ring (\<lambda>_. None) True 7
      ?s ?cx ?ps = Returns (cx', False, Some 4, ps')" using w
    by (auto simp: handle_client_io_def send_fd_def unit_call_eq checked_call_eq obliging_kernel_def Let_def split_beta
        unregister_logged_def read_defs)
  from io [of True] h have "held obliging_kernel [] {#FdRes 7#} (trace ps') = Some {#FdRes 4#}" by auto
  with io [of False] sent h show ?thesis by auto
qed

text \<open>Handing descriptors over a Unix socket: the messages received are those sent, and a
  descriptor received refers to the same open file as the one sent.\<close>

fun hands_over :: "(i32 \<Rightarrow> 'f) \<Rightarrow> (i32 \<Rightarrow> 'f) \<Rightarrow> os_call \<Rightarrow> os_ret \<Rightarrow> bool" where
  "hands_over sender_files receiver_files (SendMsg fd payload ms) r \<longleftrightarrow>
     ret r = of_nat (length payload) \<and>
     list_all2 (\<lambda>m m'. cmsg_level m' = cmsg_level m \<and> cmsg_type m' = cmsg_type m \<and>
       (is_rights m \<longrightarrow> map receiver_files (cmsg_data m' # cmsg_more m') = map sender_files (cmsg_data m # cmsg_more m)))
       ms (control r)"
| "hands_over sender_files receiver_files c r \<longleftrightarrow> False"

text \<open>C28: The two ends of a connection agree on the shared region. When the daemon's handler
  has got through to serving a client, whose \<open>recvmsg\<close> is answered with what the handler
  sent, the client's connecting succeeds as far as its own socket and mapping do; the
  descriptor it keeps is the open file of the daemon's shared region, and that is what it
  has mapped, read-only and with the size of the region.\<close>

theorem handshake_shares_region:
  assumes "handle_client_io kd tx p wc api clock spawned fd s cx dps = Returns (cx', panicked, Some d, dps')"
    and "hands_over daemon_files client_files (trace dps' ! length (trace dps)) (kc (tr @ [ConnectUnix path, DupFd w]) (RecvMsg w 1 cmsg_space))"
    and "tr = trace ps" and "w = ret (kc tr (ConnectUnix path))" and "\<not> w <s 0"
    and "\<not> ret (kc (tr @ [ConnectUnix path]) (DupFd w)) <s 0"
    and "\<And>tr' a n prot fl g off. stored (kc tr' (Mmap a n prot fl g off)) \<noteq> MAP_FAILED"
  shows "\<exists>c ps'. connect kc path sock ps = (Inr c, ps') \<and> client_files (shm_fd c) = daemon_files (rx_shmem_fd cx) \<and>
    last (trace ps') = Mmap 0 (of_nat SHMEM_SIZE) PROT_READ MAP_SHARED (shm_fd c) 0 \<and>
    shm_ptr c = stored (kc (butlast (trace ps')) (last (trace ps'))) \<and> last_seq c = 0"
proof -
  let ?r = "kc (tr @ [ConnectUnix path, DupFd w]) (RecvMsg w 1 cmsg_space)"
  have "trace dps' ! length (trace dps) = rights_msg fd (rx_shmem_fd cx)"
    using connection_io_trace [OF assms(1)] by auto
  with assms(2) obtain m where m: "control ?r = [m]" "is_rights m" "client_files (cmsg_data m) = daemon_files (rx_shmem_fd cx)" "ret ?r = 1"
    by (auto simp: list_all2_Cons1 is_rights_def)
  moreover have "\<not> (1 :: i32) <s 0" by (simp add: word_sless_alt)
  ultimately show ?thesis using assms(3-7)
    by (simp add: connect_def checked_call_eq recv_fd_def RxShmem_map_def map_call_def syscall_def is_rights_def butlast_append)
qed

theorem handshake_shares_region_witness:
  "\<exists>c ps'. connect obliging_kernel [] (demo_client_on [] []) \<lparr>trace = [], stderr = [], log_level = 2\<rparr> = (Inr c, ps') \<and>
    shm_fd c = 9"
proof -
  let ?tx = "\<lparr>io_text = \<lambda>_. [], rusb_text = \<lambda>_. []\<rparr>" and ?ps = "\<lparr>trace = [], stderr = [], log_level = 2\<rparr>"
  have w: "\<not> (0 :: i32) <s 0" "\<not> (3 :: i32) <s 0" "\<not> (4 :: i32) <s 0" by (simp_all add: word_sless_alt)
  then obtain cx' b ps' where h: "handle_client_io obliging_kernel ?tx Release (\<lambda>_. Inr 4) list_ring (\<lambda>_. None) True 7
      \<lparr>inp = [], in_end = None\<rparr> (ctx (server_init 5 [] [] [])) ?ps = Returns (cx', b, Some 4, ps')"
      "trace ps' = [rights_msg 7 5, DupFd 7, CloseFd 7]"
    by (simp add: handle_client_io_def send_fd_def unit_call_eq checked_call_eq obliging_kernel_def Let_def split_beta
        unregister_logged_def read_defs server_init_def)
  have "\<exists>c ps'. connect obliging_kernel [] (demo_client_on [] []) ?ps = (Inr c, ps') \<and>
      (if shm_fd c = 9 then ''region'' else ''other'') =
        (if rx_shmem_fd (ctx (server_init 5 [] [] [] :: AudioFrame list server)) = 5 then ''region'' else ''other'') \<and>
      last (trace ps') = Mmap 0 (of_nat SHMEM_SIZE) PROT_READ MAP_SHARED (shm_fd c) 0 \<and>
      shm_ptr c = stored (obliging_kernel (butlast (trace ps')) (last (trace ps'))) \<and> last_seq c = 0"
    by (rule handshake_shares_region [OF h(1), where kc = obliging_kernel and tr = "[]" and w = 3 and path = "[]"
          and daemon_files = "\<lambda>d. if d = 5 then ''region'' else ''other''"
          and client_files = "\<lambda>d. if d = 9 then ''region'' else ''other''"])
      (use w in \<open>simp_all add: h(2) obliging_kernel_def MAP_FAILED_def is_rights_def\<close>)
  then show ?thesis by (auto simp: server_init_def split: if_splits)
qed

end
