(* ===== verification/Cm108_Weakmem.thy ===== *)
theory Cm108_Weakmem
  imports Cm108_Shmem
begin

text \<open>
  The sequence lock on hardware that reorders memory accesses as far as the orderings
  written in the sources allow: \<open>AudioShmem::write\<close> of
  \<^verbatim>\<open>crates/cm108-server/src/shmem.rs\<close> stores the counter with \<open>Release\<close>, \<open>read_frame\<close> of
  \<^verbatim>\<open>crates/cm108-client/src/client.rs\<close> loads it with \<open>Acquire\<close>, and the frame is copied with
  plain accesses. Each call is its list of accesses in program order; an access may take
  effect before an earlier one that is still pending unless both touch the same
  location, the earlier one is an acquire, or the later one is a release. Each access
  takes effect at once for everybody.
\<close>

section \<open>Accesses\<close>

datatype ordering = PlainOrd | AcquireOrd | ReleaseOrd

datatype loc = Counter | Data nat

datatype access =
    LoadSeq
  | LoadByte nat
  | StoreSeq u64
  | StoreByte nat u8

fun access_loc :: "access \<Rightarrow> loc" where
  "access_loc LoadSeq = Counter"
| "access_loc (StoreSeq v) = Counter"
| "access_loc (LoadByte i) = Data i"
| "access_loc (StoreByte i b) = Data i"

fun access_order :: "access \<Rightarrow> ordering" where
  "access_order LoadSeq = AcquireOrd"
| "access_order (StoreSeq v) = ReleaseOrd"
| "access_order (LoadByte i) = PlainOrd"
| "access_order (StoreByte i b) = PlainOrd"

text \<open>Whether a later access may overtake an earlier one.\<close>

definition may_overtake :: "access \<Rightarrow> access \<Rightarrow> bool" where
  "may_overtake earlier later \<longleftrightarrow>
     access_loc earlier \<noteq> access_loc later \<and> access_order earlier \<noteq> AcquireOrd \<and> access_order later \<noteq> ReleaseOrd"

text \<open>The accesses of one call of \<open>write\<close> when the counter is \<open>cur\<close>, and of one pass of
  the loop of \<open>read_frame\<close>.\<close>

definition write_accesses :: "AudioFrame \<Rightarrow> u64 \<Rightarrow> access list" where
  "write_accesses f cur =
     StoreSeq (cur + 1) # map (\<lambda>i. StoreByte i (frame_mem f ! i)) [0..<FRAME_BYTES] @ [StoreSeq (cur + 2)]"

definition read_accesses :: "access list" where
  "read_accesses = LoadSeq # map LoadByte [0..<FRAME_BYTES] @ [LoadSeq]"

section \<open>Executions\<close>

text \<open>The counter values and the bytes the reader has loaded so far.\<close>

record weak_state =
  wmem :: bytes
  w_pending :: "access list"
  r_pending :: "access list"
  r_seqs :: "u64 list"
  r_buf :: bytes

text \<open>\<open>WDo k\<close> and \<open>RDo k\<close>: the pending access at position \<open>k\<close> of the writer or the reader
  takes effect.\<close>

datatype weak_event = WDo nat | RDo nat

definition enabled :: "access list \<Rightarrow> nat \<Rightarrow> bool" where
  "enabled ops k \<longleftrightarrow> k < length ops \<and> list_all (\<lambda>a. may_overtake a (ops ! k)) (take k ops)"

definition without :: "nat \<Rightarrow> 'a list \<Rightarrow> 'a list" where
  "without k xs = take k xs @ drop (Suc k) xs"

fun perform :: "access \<Rightarrow> weak_state \<Rightarrow> weak_state" where
  "perform LoadSeq s = s\<lparr>r_seqs := r_seqs s @ [seq_load (wmem s)]\<rparr>"
| "perform (LoadByte i) s = s\<lparr>r_buf := (r_buf s)[i := wmem s ! (8 + i)]\<rparr>"
| "perform (StoreSeq v) s = s\<lparr>wmem := seq_store v (wmem s)\<rparr>"
| "perform (StoreByte i b) s = s\<lparr>wmem := (wmem s)[8 + i := b]\<rparr>"

fun weak_step :: "weak_event \<Rightarrow> weak_state \<Rightarrow> weak_state option" where
  "weak_step (WDo k) s =
     (if enabled (w_pending s) k
      then Some (perform (w_pending s ! k) (s\<lparr>w_pending := without k (w_pending s)\<rparr>)) else None)"
| "weak_step (RDo k) s =
     (if enabled (r_pending s) k
      then Some (perform (r_pending s ! k) (s\<lparr>r_pending := without k (r_pending s)\<rparr>)) else None)"

fun weak_run :: "weak_event list \<Rightarrow> weak_state \<Rightarrow> weak_state option" where
  "weak_run [] s = Some s"
| "weak_run (e # es) s = (case weak_step e s of None \<Rightarrow> None | Some s' \<Rightarrow> weak_run es s')"

text \<open>A writer about to write one frame and a reader about to make one pass.\<close>

definition weak_start :: "bytes \<Rightarrow> AudioFrame \<Rightarrow> weak_state" where
  "weak_start r f = \<lparr>wmem = r, w_pending = write_accesses f (seq_load r), r_pending = read_accesses,
     r_seqs = [], r_buf = replicate FRAME_BYTES 0\<rparr>"

text \<open>What the pass returns: the frame when both counter values are equal and even.\<close>

definition pass_result :: "weak_state \<Rightarrow> AudioFrame option" where
  "pass_result s =
     (case (r_pending s, r_seqs s) of
        ([], [s1, s2]) \<Rightarrow> if s1 mod 2 = 0 \<and> s2 = s1 then Some (mem_frame (r_buf s)) else None
      | _ \<Rightarrow> None)"

section \<open>Runs\<close>

lemma weak_run_append:
  "weak_run (es @ fs) s = (case weak_run es s of None \<Rightarrow> None | Some s' \<Rightarrow> weak_run fs s')"
  by (induction es arbitrary: s) (auto split: option.split)

lemma enabled_0 [simp]: "enabled (a # ops) 0"
  by (simp add: enabled_def)

lemma without_simps [simp]: "without 0 (a # xs) = xs" "without (Suc 0) (a # b # xs) = a # xs"
  by (simp_all add: without_def)

text \<open>The bytes of the frame stored while the store of the odd counter is pending.\<close>

definition store_bytes :: "(nat \<Rightarrow> u8) \<Rightarrow> nat list \<Rightarrow> bytes \<Rightarrow> bytes" where
  "store_bytes g is m = fold (\<lambda>i m. m[8 + i := g i]) is m"

lemma stores_overtake:
  assumes "w_pending s = StoreSeq v # map (\<lambda>i. StoreByte i (g i)) is @ rest"
  shows "weak_run (replicate (length is) (WDo 1)) s =
    Some (s\<lparr>w_pending := StoreSeq v # rest, wmem := store_bytes g is (wmem s)\<rparr>)"
  using assms
proof (induction "is" arbitrary: s)
  case Nil
  then show ?case by (simp add: store_bytes_def)
next
  case (Cons i "is")
  have "enabled (w_pending s) 1" using Cons.prems by (simp add: enabled_def may_overtake_def)
  with Cons.prems have "weak_step (WDo 1) s =
      Some (s\<lparr>w_pending := StoreSeq v # map (\<lambda>i. StoreByte i (g i)) is @ rest, wmem := (wmem s)[8 + i := g i]\<rparr>)"
    by simp
  with Cons.IH show ?case by (simp add: store_bytes_def)
qed

definition load_bytes :: "bytes \<Rightarrow> nat list \<Rightarrow> bytes \<Rightarrow> bytes" where
  "load_bytes m is buf = fold (\<lambda>i b. b[i := m ! (8 + i)]) is buf"

lemma loads_in_order:
  assumes "r_pending s = map LoadByte is @ rest"
  shows "weak_run (replicate (length is) (RDo 0)) s =
    Some (s\<lparr>r_pending := rest, r_buf := load_bytes (wmem s) is (r_buf s)\<rparr>)"
  using assms
proof (induction "is" arbitrary: s)
  case Nil
  then show ?case by (simp add: load_bytes_def)
next
  case (Cons i "is")
  then have "weak_step (RDo 0) s = Some (s\<lparr>r_pending := map LoadByte is @ rest, r_buf := (r_buf s)[i := wmem s ! (8 + i)]\<rparr>)"
    by simp
  with Cons.IH show ?case by (simp add: load_bytes_def)
qed

lemma store_bytes_nth:
  assumes "j < length m"
  shows "store_bytes g [0..<n] m ! j = (if 8 \<le> j \<and> j < 8 + n then g (j - 8) else m ! j)"
    and "length (store_bytes g is m) = length m"
proof -
  show len: "length (store_bytes g is m) = length m" for "is"
    by (induction "is" arbitrary: m) (simp_all add: store_bytes_def)
  show "store_bytes g [0..<n] m ! j = (if 8 \<le> j \<and> j < 8 + n then g (j - 8) else m ! j)"
  proof (induction n)
    case (Suc n)
    have "store_bytes g [0..<Suc n] m = (store_bytes g [0..<n] m)[8 + n := g n]" by (simp add: store_bytes_def)
    moreover have "j < length (store_bytes g [0..<n] m)" using assms len by simp
    ultimately show ?case using Suc by (cases "j = 8 + n") (auto simp: less_Suc_eq)
  qed (auto simp: store_bytes_def)
qed

lemma length_load_bytes [simp]: "length (load_bytes m is buf) = length buf"
  by (induction "is" arbitrary: buf) (simp_all add: load_bytes_def)

lemma load_bytes_nth:
  assumes "j < length buf"
  shows "load_bytes m [a..<b] buf ! j = (if a \<le> j \<and> j < b then m ! (8 + j) else buf ! j)"
proof (induction b)
  case (Suc b)
  show ?case
  proof (cases "a \<le> b")
    case True
    then have "load_bytes m [a..<Suc b] buf = (load_bytes m [a..<b] buf)[b := m ! (8 + b)]"
      by (simp add: load_bytes_def)
    moreover have "j < length (load_bytes m [a..<b] buf)" using assms by simp
    ultimately show ?thesis using Suc True by (cases "j = b") (auto simp: less_Suc_eq)
  qed (auto simp: load_bytes_def)
qed (simp add: load_bytes_def)

lemma store_bytes_seq: "seq_load (store_bytes g is m) = seq_load m"
proof -
  have "take 8 (store_bytes g is m) = take 8 m"
    by (induction "is" arbitrary: m) (simp_all add: store_bytes_def)
  then show ?thesis by (simp add: seq_load_def)
qed

text \<open>Bytes below \<open>k\<close> loaded before the stores, the others after them.\<close>

lemma mixed_bytes:
  assumes "length r = 4096" "data_bytes r = frame_mem old" "frame_ok old" "frame_ok new" "k \<le> 192"
  shows "load_bytes (store_bytes (\<lambda>i. frame_mem new ! i) [0..<192] r) [k..<192]
      (load_bytes r [0..<k] (replicate 192 0)) = take k (frame_mem old) @ drop k (frame_mem new)"
    (is "load_bytes ?m _ (load_bytes r _ ?z) = _")
proof (rule nth_equalityI)
  have len: "length (frame_mem old) = 192" "length (frame_mem new) = 192"
    using assms(3,4) by (simp_all add: layout frame_ok_def)
  with assms(5) show l: "length (load_bytes ?m [k..<192] (load_bytes r [0..<k] ?z)) =
      length (take k (frame_mem old) @ drop k (frame_mem new))" by simp
  fix j assume "j < length (load_bytes ?m [k..<192] (load_bytes r [0..<k] ?z))"
  then have j: "j < 192" by simp
  have "r ! (8 + j) = frame_mem old ! j"
    using j assms(1) arg_cong [OF assms(2), of "\<lambda>bs. bs ! j"] by (simp add: data_bytes_def layout)
  moreover have "?m ! (8 + j) = frame_mem new ! j"
    using j assms(1) by (simp add: store_bytes_nth)
  ultimately show "load_bytes ?m [k..<192] (load_bytes r [0..<k] ?z) ! j =
      (take k (frame_mem old) @ drop k (frame_mem new)) ! j"
    using j assms(5) len by (simp add: load_bytes_nth nth_append)
qed

lemma mixing_run:
  assumes "length r = 4096" "data_bytes r = frame_mem old" "frame_ok old" "frame_ok new" "k \<le> 192"
  shows "\<exists>s. weak_run (RDo 0 # replicate k (RDo 0) @ replicate 192 (WDo 1) @ replicate (192 - k) (RDo 0) @ [RDo 0])
      (weak_start r new) = Some s \<and>
    r_pending s = [] \<and> r_seqs s = [seq_load r, seq_load r] \<and>
    r_buf s = take k (frame_mem old) @ drop k (frame_mem new)"
proof -
  let ?g = "\<lambda>i. frame_mem new ! i" let ?m = "store_bytes (\<lambda>i. frame_mem new ! i) [0..<192] r"
  let ?w = "[StoreSeq (seq_load r + 2)]"
  have split: "map LoadByte [0..<192] = map LoadByte [0..<k] @ map LoadByte [k..<192]"
    using assms(5) by (metis map_append upt_add_eq_append zero_le le_add_diff_inverse)
  define s1 where "s1 = (weak_start r new)\<lparr>r_pending := map LoadByte [0..<k] @ map LoadByte [k..<192] @ [LoadSeq],
      r_seqs := [seq_load r]\<rparr>"
  define s2 where "s2 = s1\<lparr>r_pending := map LoadByte [k..<192] @ [LoadSeq],
      r_buf := load_bytes r [0..<k] (replicate 192 0)\<rparr>"
  define s3 where "s3 = s2\<lparr>w_pending := StoreSeq (seq_load r + 1) # ?w, wmem := ?m\<rparr>"
  define s4 where "s4 = s3\<lparr>r_pending := [LoadSeq],
      r_buf := load_bytes ?m [k..<192] (load_bytes r [0..<k] (replicate 192 0))\<rparr>"
  have "weak_step (RDo 0) (weak_start r new) = Some s1"
    by (simp add: weak_start_def read_accesses_def layout s1_def split)
  moreover have "weak_run (replicate k (RDo 0)) s1 = Some s2"
    using loads_in_order [of s1 "[0..<k]"] by (simp add: s1_def s2_def weak_start_def layout)
  moreover have "weak_run (replicate 192 (WDo 1)) s2 = Some s3"
    using stores_overtake [of s2 "seq_load r + 1" ?g "[0..<192]" ?w]
    by (simp add: s1_def s2_def s3_def weak_start_def write_accesses_def layout)
  moreover have "weak_run (replicate (192 - k) (RDo 0)) s3 = Some s4"
    using loads_in_order [of s3 "[k..<192]" "[LoadSeq]"] by (simp add: s2_def s3_def s4_def)
  moreover have "weak_step (RDo 0) s4 =
      Some (s4\<lparr>r_pending := [], r_seqs := [seq_load r, seq_load r]\<rparr>)"
    by (simp add: s4_def s3_def s2_def s1_def store_bytes_seq)
  ultimately show ?thesis using mixed_bytes [OF assms]
    by (simp add: weak_run_append s4_def del: weak_step.simps)
qed

section \<open>Properties\<close>

text \<open>C22: The orderings of the sequence lock do not protect the frame. Whatever frame is
  in the region and whatever frame is being written, and for every position \<open>k\<close>, the
  accesses can take effect in an order their orderings permit such that a reader gets
  the first \<open>k\<close> bytes of the old frame followed by the rest of the new one, sees the
  same even counter before and after, and returns the mixture: the plain stores of the
  frame overtake the release store of the odd counter.\<close>

theorem seqlock_mixes_when_reordered:
  assumes "length r = SHMEM_SIZE" and "seq_load r mod 2 = 0" and "data_bytes r = frame_mem old"
    and "frame_ok old" and "frame_ok new" and "k \<le> FRAME_BYTES"
  shows "\<exists>es s. weak_run es (weak_start r new) = Some s \<and>
    pass_result s = Some (mem_frame (take k (frame_mem old) @ drop k (frame_mem new)))"
proof -
  obtain es s where "weak_run es (weak_start r new) = Some s" "r_pending s = []"
    "r_seqs s = [seq_load r, seq_load r]" "r_buf s = take k (frame_mem old) @ drop k (frame_mem new)"
    using mixing_run [of r old new k] assms unfolding SHMEM_SIZE_def FRAME_BYTES_def by blast
  moreover from this have "pass_result s = Some (mem_frame (take k (frame_mem old) @ drop k (frame_mem new)))"
    by (simp only: pass_result_def assms(2) prod.case list.case simp_thms if_True)
  ultimately show ?thesis by blast
qed

lemma frame_mem_second: "frame_mem (AudioFrame (x # xs)) ! 1 = ucast (drop_bit 8 x)"
  by (simp add: frame_mem_def nth_append numeral_2_eq_2)

theorem seqlock_mixes_when_reordered_witness:
  "\<exists>es s f. weak_run es (weak_start (replicate 4096 0) demo_frame) = Some s \<and> pass_result s = Some f \<and>
     f \<noteq> AudioFrame_default \<and> f \<noteq> demo_frame"
proof -
  have default_ok: "frame_ok AudioFrame_default" by (simp add: AudioFrame_default_def layout)
  let ?bs = "take 1 (frame_mem AudioFrame_default) @ drop 1 (frame_mem demo_frame)"
  have "data_bytes (replicate 4096 0) = frame_mem AudioFrame_default"
    by (simp add: data_bytes_def frame_mem_default layout)
  moreover have "seq_load (replicate 4096 0) = 0" by (simp add: seq_load_def of_le_bytes_replicate_0)
  ultimately obtain es s where r: "weak_run es (weak_start (replicate 4096 0) demo_frame) = Some s"
    "pass_result s = Some (mem_frame ?bs)"
    using seqlock_mixes_when_reordered [of "replicate 4096 0" AudioFrame_default demo_frame 1]
      demo_frame_ok default_ok
    by (auto simp: SHMEM_SIZE_def FRAME_BYTES_def)
  have "demo_frame = AudioFrame (0x1234 # replicate 95 0x1234)"
    by (simp add: demo_frame_def flip: replicate_Suc)
  then have second: "frame_mem demo_frame ! 1 = 0x12"
    using frame_mem_second [of "0x1234" "replicate 95 0x1234"] by simp
  have "samples (mem_frame ?bs) ! 0 = of_le_bytes [?bs ! 0, ?bs ! 1]" by (simp add: mem_frame_def layout)
  also have "?bs ! 0 = 0" by (simp add: frame_mem_default nth_append)
  also have "?bs ! 1 = 0x12"
    using second demo_frame_ok nth_drop [of 1 "frame_mem demo_frame" 0]
    by (simp add: frame_mem_default nth_append layout)
  also have "of_le_bytes [0, 0x12] = (0x1200 :: i16)" by simp
  finally have "samples (mem_frame ?bs) ! 0 = 0x1200" .
  then have "mem_frame ?bs \<noteq> AudioFrame_default" "mem_frame ?bs \<noteq> demo_frame"
    by (auto simp: AudioFrame_default_def demo_frame_def layout)
  with r show ?thesis by blast
qed

end
