(* ===== verification/Cm108_Tests.thy ===== *)
theory Cm108_Tests
  imports Cm108_Framing Cm108_Latency Cm108_Shmem
begin

text \<open>
  The unit tests inside \<^verbatim>\<open>crates/cm108-server/src/latency.rs\<close>,
  \<^verbatim>\<open>crates/cm108-server/src/shmem.rs\<close> and \<^verbatim>\<open>crates/cm108-client/src/framing.rs\<close> and the tests of
  \<^verbatim>\<open>crates/cm108-types/tests/codec.rs\<close>, transcribed as predicates on the model under the
  names they have in the sources; a panic is a failure. That they hold ties the
  definitions to the behaviour the authors checked. The test with two threads is a step
  system over all interleavings. Not transcribed: the \<open>AudioWrite\<close> messages of the framing
  and codec tests, written with a field the type does not have.
\<close>

section \<open>Latency histogram\<close>

definition stats_after :: "profile \<Rightarrow> u32 list \<Rightarrow> LatencyStats outcome" where
  "stats_after p us = obind (ofold (hist_record p) hist_new us) (to_stats p)"

definition empty_returns_zeros :: "profile \<Rightarrow> bool" where
  "empty_returns_zeros p \<longleftrightarrow> to_stats p hist_new = Returns LatencyStats_default"

definition single_sample_min_max :: "profile \<Rightarrow> bool" where
  "single_sample_min_max p \<longleftrightarrow>
     (case stats_after p [17] of Returns s \<Rightarrow> min_us s = 17 \<and> max_us s = 17 \<and> p99_us s = 32 | Panics \<Rightarrow> False)"

definition p99_separates_tail :: "profile \<Rightarrow> bool" where
  "p99_separates_tail p \<longleftrightarrow>
     (case stats_after p (replicate 99 1 @ [1000]) of Returns s \<Rightarrow> p99_us s = 2 \<and> max_us s = 1000 | Panics \<Rightarrow> False)"

definition p99_uniform_distribution :: "profile \<Rightarrow> bool" where
  "p99_uniform_distribution p \<longleftrightarrow>
     (case stats_after p (replicate 100 7) of
        Returns s \<Rightarrow> p99_us s = 8 \<and> min_us s = 7 \<and> max_us s = 7 | Panics \<Rightarrow> False)"

definition reset_clears_all :: "profile \<Rightarrow> bool" where
  "reset_clears_all p \<longleftrightarrow>
     obind (ofold (hist_record p) hist_new [100, 200]) (\<lambda>h. to_stats p (hist_reset h)) = Returns LatencyStats_default"

definition zero_latency_does_not_panic :: "profile \<Rightarrow> bool" where
  "zero_latency_does_not_panic p \<longleftrightarrow> (case stats_after p [0] of Returns s \<Rightarrow> min_us s = 0 | Panics \<Rightarrow> False)"

section \<open>Shared region\<close>

text \<open>The reader the tests define, one pass of its loop.\<close>

definition read_frame_seqlock :: "bytes \<Rightarrow> AudioFrame option" where
  "read_frame_seqlock r =
     (let s1 = seq_load r in
      if s1 mod 2 \<noteq> 0 then None
      else let frame = mem_frame (data_bytes r) in
        if seq_load r = s1 then Some frame else None)"

definition write_and_read_single_frame :: bool where
  "write_and_read_single_frame \<longleftrightarrow>
     (let frame = AudioFrame (((samples AudioFrame_default)[0 := 0x1234])[95 := - 1]);
          (sq, r) = shm_write (replicate SHMEM_SIZE 0) frame
      in sq mod 2 = 0 \<and>
         (case read_frame_seqlock r of
            Some got \<Rightarrow> samples got ! 0 = 0x1234 \<and> samples got ! 95 = - 1
          | None \<Rightarrow> False))"

definition seq_increments_by_two_per_write :: bool where
  "seq_increments_by_two_per_write \<longleftrightarrow>
     (let (s1, r1) = shm_write (replicate SHMEM_SIZE 0) AudioFrame_default;
          (s2, r2) = shm_write r1 AudioFrame_default
      in s2 = s1 + 2)"

text \<open>The test with two threads. The writer thread publishes frames whose samples all are
  \<open>toggle\<close>, counting it up (wrapping) with each call; the reader's frames must have equal
  samples. A step is one of \<open>Cm108_Shmem\<close> in which the writer is only called with its frame.\<close>

definition toggle_frame :: "i16 \<Rightarrow> AudioFrame" where
  "toggle_frame toggle = AudioFrame (replicate (SAMPLES_PER_FRAME * 2) toggle)"

fun torn_step :: "sl_event \<Rightarrow> seqlock \<times> i16 \<Rightarrow> (seqlock \<times> i16) option" where
  "torn_step (W (WCall f)) (s, toggle) =
     (if f = toggle_frame toggle then map_option (\<lambda>t. (t, toggle + 1)) (sl_step (W (WCall f)) s) else None)"
| "torn_step e (s, toggle) = map_option (\<lambda>t. (t, toggle)) (sl_step e s)"

inductive torn_reach :: "seqlock \<times> i16 \<Rightarrow> bool" where
  torn_start: "torn_reach (seqlock_init, 0)"
| torn_next: "torn_reach y \<Longrightarrow> torn_step e y = Some y' \<Longrightarrow> torn_reach y'"

definition samples_equal :: "AudioFrame \<Rightarrow> bool" where
  "samples_equal f \<longleftrightarrow> (let expected = samples f ! 0 in list_all (\<lambda>x. x = expected) (samples f))"

section \<open>Types and codec\<close>

definition audio_frame_default_is_silence :: bool where
  "audio_frame_default_is_silence \<longleftrightarrow> list_all (\<lambda>x. x = 0) (samples AudioFrame_default)"

text \<open>A sample has two bytes.\<close>

definition audio_frame_size_matches_frame_bytes :: bool where
  "audio_frame_size_matches_frame_bytes \<longleftrightarrow> SAMPLES_PER_FRAME * 2 * 2 = FRAME_BYTES"

definition gpio_state_pin_bits :: "profile \<Rightarrow> bool" where
  "gpio_state_pin_bits p \<longleftrightarrow>
     (let g = GpioState 0b1010 in
      pin p g 0 = Returns False \<and> pin p g 1 = Returns True \<and> pin p g 2 = Returns False \<and> pin p g 3 = Returns True)"

definition stream_flags_combinations :: bool where
  "stream_flags_combinations \<longleftrightarrow>
     (let f = bitor AUDIO_IN GPIO_EVENTS in
      contains f AUDIO_IN \<and> \<not> contains f AUDIO_OUT \<and> contains f GPIO_EVENTS \<and> flag_bits f = 0b0101)"

definition latency_stats_default_is_zero :: bool where
  "latency_stats_default_is_zero \<longleftrightarrow>
     (let ls = LatencyStats_default in min_us ls = 0 \<and> max_us ls = 0 \<and> p99_us ls = 0)"

definition rt_ok :: "'a encoder \<Rightarrow> 'a decoder \<Rightarrow> 'a \<Rightarrow> bool" where
  "rt_ok enc dec msg \<longleftrightarrow> from_bytes dec (to_vec enc msg) = Some msg"

definition client_msg_roundtrips :: bool where
  "client_msg_roundtrips \<longleftrightarrow>
     list_all (rt_ok encode_ClientMsg decode_ClientMsg)
       [Ping, GetStats, Subscribe (bitor AUDIO_IN GPIO_EVENTS), SetGpio 0 True, SetGpio 3 False]"

definition server_msg_roundtrips :: bool where
  "server_msg_roundtrips \<longleftrightarrow>
     list_all (rt_ok encode_ServerMsg decode_ServerMsg)
       [Pong, AudioReady (- 1), RadioEv PttAssert, RadioEv CosInactive, RadioEv (GpioChange (GpioState 0b1111)),
        Stats 7 3 \<lparr>min_us = 1, max_us = 500, p99_us = 120\<rparr>, ErrorMsg (map of_char ''test error'')]"

definition stream_flags_roundtrip :: bool where
  "stream_flags_roundtrip \<longleftrightarrow>
     list_all (rt_ok encode_StreamFlags decode_StreamFlags)
       [bitor (bitor AUDIO_IN AUDIO_OUT) GPIO_EVENTS, flags_empty]"

definition radio_event_roundtrip_all_variants :: bool where
  "radio_event_roundtrip_all_variants \<longleftrightarrow>
     list_all (rt_ok encode_RadioEvent decode_RadioEvent)
       [PttAssert, PttDeassert, CosActive, CosInactive, GpioChange (GpioState 0xAB)]"

definition framed_roundtrip :: bool where
  "framed_roundtrip \<longleftrightarrow>
     (case from_framed decode_ClientMsg (to_framed encode_ClientMsg (Subscribe AUDIO_IN)) of
        Some (decoded, rest) \<Rightarrow> decoded = Subscribe AUDIO_IN
      | None \<Rightarrow> False)"

definition decode_rejects_unknown_tag :: bool where
  "decode_rejects_unknown_tag \<longleftrightarrow> from_bytes decode_ClientMsg [0xff] = None"

section \<open>Framing\<close>

definition client_framing_ok :: "ClientMsg \<Rightarrow> bool" where
  "client_framing_ok msg \<longleftrightarrow>
     (case write_client_msg msg \<lparr>outp = [], out_limit = None\<rparr> of
        (Inl e, t) \<Rightarrow> False
      | (Inr _, t) \<Rightarrow>
          length (outp t) = 4 + unat (of_le_bytes (take 4 (outp t)) :: u32) \<and>
          from_bytes decode_ClientMsg (drop 4 (outp t)) = Some msg)"

definition client_msg_framing_roundtrip :: bool where
  "client_msg_framing_roundtrip \<longleftrightarrow>
     list_all client_framing_ok [Ping, GetStats, Subscribe (bitor AUDIO_IN GPIO_EVENTS), SetGpio 2 False]"

definition write_server_msg :: "ServerMsg \<Rightarrow> out_stream \<Rightarrow> (ErrorKind + unit) \<times> out_stream" where
  "write_server_msg msg s =
     (let payload = to_vec encode_ServerMsg msg in
      case write_all (le_bytes 4 (of_nat (length payload) :: u32)) s of
        (Inl e, s1) \<Rightarrow> (Inl e, s1)
      | (Inr _, s1) \<Rightarrow> write_all payload s1)"

definition server_framing_ok :: "ServerMsg \<Rightarrow> bool" where
  "server_framing_ok msg \<longleftrightarrow>
     (case write_server_msg msg \<lparr>outp = [], out_limit = None\<rparr> of
        (Inl e, t) \<Rightarrow> False
      | (Inr _, t) \<Rightarrow> fst (read_server_msg \<lparr>inp = outp t, in_end = None\<rparr>) = Inr (Some msg))"

definition server_msg_framing_roundtrip :: bool where
  "server_msg_framing_roundtrip \<longleftrightarrow>
     list_all server_framing_ok
       [Pong, AudioReady 12345, RadioEv PttAssert, Stats 0 1 \<lparr>min_us = 2, max_us = 50, p99_us = 32\<rparr>,
        ErrorMsg [0x6F, 0x6F, 0x70, 0x73]]"

definition eof_returns_none :: bool where
  "eof_returns_none \<longleftrightarrow> fst (read_server_msg \<lparr>inp = [], in_end = None\<rparr>) = Inr None"

definition oversized_message_is_rejected :: bool where
  "oversized_message_is_rejected \<longleftrightarrow>
     (\<exists>e. fst (read_server_msg \<lparr>inp = le_bytes 4 (128 * 1024 :: u32), in_end = None\<rparr>) = Inl e)"

section \<open>They hold\<close>

lemma sort_tail: "sort (replicate 99 1 @ [1000 :: u32]) = replicate 99 1 @ [1000]"
  by (rule sort_key_id_if_sorted) (auto simp: sorted_append sorted_replicate)

lemma stats_after_eq:
  "xs \<noteq> [] \<Longrightarrow> length xs \<le> 2 ^ 56 \<Longrightarrow> stats_after p xs = Returns (reference_stats xs)"
  unfolding stats_after_def by (rule stats_of_records)

lemma latency_tests:
  "empty_returns_zeros p" "single_sample_min_max p" "p99_separates_tail p" "p99_uniform_distribution p"
  "reset_clears_all p" "zero_latency_does_not_panic p"
proof -
  note st = stats_after_eq reference_stats_def rank99_def ilog2.simps
  show "empty_returns_zeros p"
    by (simp add: empty_returns_zeros_def to_stats_def hist_p99_us_def hist_new_def LatencyStats_default_def)
  show "single_sample_min_max p" by (simp add: single_sample_min_max_def st)
  show "p99_separates_tail p" by (simp add: p99_separates_tail_def st sort_tail nth_append)
  show "p99_uniform_distribution p" by (simp add: p99_uniform_distribution_def st)
  show "zero_latency_does_not_panic p" by (simp add: zero_latency_does_not_panic_def st)
  obtain h where "ofold (hist_record p) hist_new [100, 200] = Returns h" using hist_abs_records [of "[100, 200]" p] by auto
  moreover have "to_stats p (hist_reset h) = Returns LatencyStats_default"
    by (simp add: hist_reset_def to_stats_def hist_p99_us_def hist_new_def LatencyStats_default_def)
  ultimately show "reset_clears_all p" by (simp only: reset_clears_all_def obind.simps)
qed

lemma read_frame_seqlock_pass: "read_frame_seqlock r = read_frame_pass r"
  by (simp add: read_frame_seqlock_def read_frame_pass_def Let_def)

lemma shmem_tests: "write_and_read_single_frame" "seq_increments_by_two_per_write"
proof -
  let ?z = "replicate SHMEM_SIZE 0 :: bytes"
  let ?f = "AudioFrame (((samples AudioFrame_default)[0 := 0x1234])[95 := - 1])"
  have z: "seq_load ?z = 0" by (simp add: seq_load_def SHMEM_SIZE_def of_le_bytes_replicate_0)
  have ok: "frame_ok ?f" "frame_ok AudioFrame_default" by (simp_all add: frame_ok_def AudioFrame_default_def layout)
  have "read_frame_pass (snd (shm_write ?z ?f)) = Some ?f" using ok(1) z by (intro shm_write_pass) simp_all
  moreover have "fst (shm_write ?z ?f) = 2" using z by (simp add: shm_write_def Let_def)
  moreover have "samples ?f ! 0 = 0x1234" "samples ?f ! 95 = - 1" by (simp_all add: AudioFrame_default_def layout)
  ultimately show "write_and_read_single_frame"
    by (simp add: write_and_read_single_frame_def read_frame_seqlock_pass split_beta Let_def)
  have "fst (shm_write r f) = seq_load r + 2" for r f by (simp add: shm_write_def Let_def)
  then show "seq_increments_by_two_per_write"
    using shm_write_layout(2) [OF _ ok(2), of ?z] z
    by (simp add: seq_increments_by_two_per_write_def split_beta Let_def SHMEM_SIZE_def)
qed

lemma client_framing:
  assumes "client_msg_ok m" "fits_frame encode_ClientMsg m"
  shows "client_framing_ok m"
proof -
  have "length (to_vec encode_ClientMsg m) < 2 ^ 32" using assms(2) by (simp add: fits_frame_def)
  then show ?thesis using client_codec.from_bytes_to_vec [OF assms(1)]
    by (simp add: client_framing_ok_def write_client_msg_def write_all_def Let_def)
qed

lemma server_framing:
  assumes "server_msg_ok m" "fits_frame encode_ServerMsg m"
  shows "server_framing_ok m"
proof -
  have "write_server_msg m \<lparr>outp = [], out_limit = None\<rparr> = (Inr (), \<lparr>outp = to_framed encode_ServerMsg m, out_limit = None\<rparr>)"
    by (simp add: write_server_msg_def write_all_def to_framed_def Let_def)
  with to_client.rd_sent [OF assms, of "[]" None] show ?thesis by (simp add: server_framing_ok_def)
qed

lemma framing_tests: "client_msg_framing_roundtrip" "server_msg_framing_roundtrip" "eof_returns_none"
  "oversized_message_is_rejected"
proof -
  have "client_framing_ok (Subscribe (StreamFlags 5))"
    by (rule client_framing) (simp_all add: fits_client_small flags_ok_def)
  then show "client_msg_framing_roundtrip"
    by (simp add: client_msg_framing_roundtrip_def client_framing fits_client_small bitor_def AUDIO_IN_def GPIO_EVENTS_def)
  show "server_msg_framing_roundtrip"
    by (simp add: server_msg_framing_roundtrip_def server_framing fits_frame_def to_vec_def push_u8_def push_u64_def
        push_u32_def push_str_def push_u16_def encode_LatencyStats_def)
  show "eof_returns_none" by (simp add: eof_returns_none_def to_client.rd_eof)
  show "oversized_message_is_rejected"
    by (simp add: oversized_message_is_rejected_def read_server_msg_def read_exact_def Let_def)
qed

lemma torn_step_sl:
  assumes "torn_step e y = Some y'"
  shows "sl_step e (fst y) = Some (fst y')" "e = W (WCall f) \<Longrightarrow> \<exists>v. f = toggle_frame v"
  using assms by (cases "(e, y)" rule: torn_step.cases; auto split: if_splits)+

lemma torn_reach_sl: "torn_reach y \<Longrightarrow> sl_reach (fst y)"
  by (induction rule: torn_reach.induct) (auto intro: sl_start sl_next dest: torn_step_sl(1))

text \<open>Only frames of the writer thread are published.\<close>

fun writer_frames :: "writer \<Rightarrow> AudioFrame list" where
  "writer_frames WIdle = []"
| "writer_frames (WLoaded f cur) = [f]"
| "writer_frames (WCopying f cur todo) = [f]"

definition toggle_only :: "seqlock \<Rightarrow> bool" where
  "toggle_only s \<longleftrightarrow> list_all (\<lambda>f. \<exists>v. f = toggle_frame v) (published s @ writer_frames (wst s))"

lemma writer_step_toggle:
  assumes "writer_step e s = Some t" "toggle_only s" "\<forall>f. e = WCall f \<longrightarrow> (\<exists>v. f = toggle_frame v)"
  shows "toggle_only t"
  using assms by (cases e; cases "wst s") (auto simp: toggle_only_def split: if_splits list.splits)

lemma reader_step_toggle: "reader_step e s = Some t \<Longrightarrow> toggle_only s \<Longrightarrow> toggle_only t"
  by (cases e; cases "rst s") (auto simp: toggle_only_def Let_def split: if_splits list.splits)

lemma torn_reach_toggle: "torn_reach y \<Longrightarrow> toggle_only (fst y)"
proof (induction rule: torn_reach.induct)
  case torn_start
  show ?case by (simp add: toggle_only_def seqlock_init_def)
next
  case (torn_next y e y')
  note st = torn_step_sl [OF torn_next.hyps(2)]
  show ?case
  proof (cases e)
    case (W we)
    with writer_step_toggle [OF _ torn_next.IH, of we "fst y'"] st show ?thesis by simp
  next
    case (R re)
    with reader_step_toggle [OF _ torn_next.IH, of re "fst y'"] st(1) show ?thesis by simp
  qed
qed

lemma samples_equal_toggle: "samples_equal (toggle_frame v)"
  by (simp add: samples_equal_def toggle_frame_def Let_def layout list_all_length)

text \<open>The test cannot fail: in every interleaving of the two threads, a frame the reader
  returns has equal samples.\<close>

lemma seqlock_no_torn_reads:
  assumes "torn_reach (s, toggle)" "rst s = RReturned f t0 t1" "t1 - t0 < 2 ^ 64"
  shows "samples_equal f"
proof -
  have "f = frame_at s (t0 div 2)" "t0 div 2 \<le> length (published s)"
    using sl_reach_inv [OF torn_reach_sl [OF assms(1)]] assms(2,3) by (auto simp: sl_inv_def div_le_mono)
  then have "f \<in> set (AudioFrame_default # published s)" using nth_mem [of "t0 div 2" "AudioFrame_default # published s"] by simp
  moreover have "AudioFrame_default = toggle_frame 0" by (simp add: AudioFrame_default_def toggle_frame_def)
  moreover have "\<forall>g \<in> set (published s). \<exists>v. g = toggle_frame v"
    using torn_reach_toggle [OF assms(1)] by (simp add: toggle_only_def list_all_iff)
  ultimately show ?thesis using samples_equal_toggle by (metis set_ConsD)
qed

lemma codec_tests:
  "audio_frame_default_is_silence" "audio_frame_size_matches_frame_bytes" "gpio_state_pin_bits p"
  "stream_flags_combinations" "latency_stats_default_is_zero" "client_msg_roundtrips" "server_msg_roundtrips"
  "stream_flags_roundtrip" "radio_event_roundtrip_all_variants" "framed_roundtrip" "decode_rejects_unknown_tag"
proof -
  show "audio_frame_default_is_silence" by (simp add: audio_frame_default_is_silence_def AudioFrame_default_def list_all_length)
  show "audio_frame_size_matches_frame_bytes" by (simp add: audio_frame_size_matches_frame_bytes_def layout)
  show "gpio_state_pin_bits p" by (simp add: gpio_state_pin_bits_def pin_bit Let_def)
  show "stream_flags_combinations"
    by (simp add: stream_flags_combinations_def bitor_def contains_def AUDIO_IN_def AUDIO_OUT_def GPIO_EVENTS_def)
  show "latency_stats_default_is_zero" by (simp add: latency_stats_default_is_zero_def LatencyStats_default_def)
  show "client_msg_roundtrips"
    by (simp add: client_msg_roundtrips_def rt_ok_def client_codec.from_bytes_to_vec flags_ok_def bitor_def
        AUDIO_IN_def GPIO_EVENTS_def)
  show "server_msg_roundtrips"
    by (simp add: server_msg_roundtrips_def rt_ok_def server_codec.from_bytes_to_vec)
  show "stream_flags_roundtrip"
    by (simp add: stream_flags_roundtrip_def rt_ok_def from_bytes_def to_vec_def encode_StreamFlags_def decode_StreamFlags_def
        bitor_def AUDIO_IN_def AUDIO_OUT_def GPIO_EVENTS_def flags_empty_def from_bits_truncate_def push_u8_def)
  show "radio_event_roundtrip_all_variants"
    by (simp add: radio_event_roundtrip_all_variants_def rt_ok_def from_bytes_def to_vec_def decode_RadioEvent_def
        decode_GpioState_def encode_GpioState_def push_u8_def)
  show "framed_roundtrip"
  proof -
    have "client_msg_ok (Subscribe AUDIO_IN)" "length (to_vec encode_ClientMsg (Subscribe AUDIO_IN)) < 2 ^ 32"
      by (simp_all add: flags_ok_def AUDIO_IN_def to_vec_def push_u8_def encode_StreamFlags_def)
    from client_codec.from_framed_to_framed [OF this, of "[]"] show ?thesis by (simp add: framed_roundtrip_def)
  qed
  show "decode_rejects_unknown_tag"
    by (simp add: decode_rejects_unknown_tag_def from_bytes_def decode_ClientMsg_def)
qed

text \<open>The unit tests of the latency histogram (in both build profiles), of the shared
  region, of the message framing, of the types and of the codec hold of the model.\<close>

lemma unit_tests_hold:
  "empty_returns_zeros p \<and> single_sample_min_max p \<and> p99_separates_tail p \<and> p99_uniform_distribution p \<and>
   reset_clears_all p \<and> zero_latency_does_not_panic p \<and>
   write_and_read_single_frame \<and> seq_increments_by_two_per_write \<and>
   client_msg_framing_roundtrip \<and> server_msg_framing_roundtrip \<and> eof_returns_none \<and> oversized_message_is_rejected \<and>
   audio_frame_default_is_silence \<and> audio_frame_size_matches_frame_bytes \<and> gpio_state_pin_bits p \<and>
   stream_flags_combinations \<and> latency_stats_default_is_zero \<and> client_msg_roundtrips \<and> server_msg_roundtrips \<and>
   stream_flags_roundtrip \<and> radio_event_roundtrip_all_variants \<and> framed_roundtrip \<and> decode_rejects_unknown_tag"
  by (intro conjI latency_tests shmem_tests framing_tests codec_tests)

end
