(* ===== verification/Spec2Isabelle.thy ===== *)
theory Spec2Isabelle
  imports Cm108_System Cm108_Delivery Cm108_Connection Cm108_Weakmem Cm108_Tests
begin

text \<open>
  A verification development for \<open>cm108d\<close>, a user-space driver for CM108/CM119 USB
  sound fobs used as radio interfaces: a daemon that owns the device, streams its audio,
  reads and drives its GPIO pins (push-to-talk and carrier detect), and serves clients
  over a Unix socket and a shared-memory region; a client library with a C interface;
  and the wire codec both share. The sources are the four crates under
  \<^verbatim>\<open>src/crates\<close>.

  \<^bold>\<open>How the parts interact.\<close> The RX thread turns isochronous USB packets into frames and
  pushes them into a ring; the dispatch thread takes them out, publishes each in the
  shared region under a sequence counter, announces it to subscribed clients and keeps
  latency statistics. The GPIO poller turns HID reports into radio events for
  subscribed clients. Client requests arrive on the socket and set pins, queue audio for
  the TX thread, or ask for a reply. Each client has a bounded outgoing queue, drained
  by a writer thread. A heartbeat thread blinks an LED on one of the pins.

  \<^bold>\<open>Theories\<close>, in the order of their dependencies:
  \<^item> \<open>Cm108_Prelude\<close>: machine integers, little-endian bytes, computations that may panic
    (\<open>outcome\<close>) in the two build profiles, checked arithmetic of the debug profile, a panic
    of one thread (\<open>thread_panic\<close>), folds over such computations.
  \<^item> \<open>Cm108_Types\<close> (\<^verbatim>\<open>cm108-types/src/lib.rs\<close>): constants, audio frames, GPIO states,
    events, subscription flags, messages.
  \<^item> \<open>Cm108_Kernel\<close> (structures of \<^verbatim>\<open>cm108-hal/src/usbfs.rs\<close>, log macros of
    \<^verbatim>\<open>cm108-hal/src/lib.rs\<close>): system calls, the kernel as a function that answers a call
    given the calls before it, and a process as the trace of its calls and its log.
  \<^item> \<open>Cm108_Codec\<close> (\<^verbatim>\<open>cm108-types/src/codec.rs\<close>): every encoder and decoder. The locale
    \<open>wire_codec\<close> states the contract of a self-delimiting codec and is interpreted for
    both message types. Round trips, soundness of decoding, unambiguity of streams.
  \<^item> \<open>Cm108_Framing\<close> (\<^verbatim>\<open>cm108-server/src/ipc.rs\<close>, \<^verbatim>\<open>cm108-client/src/framing.rs\<close>): length
    prefixed messages over streams that end or fail anywhere. The locale \<open>framed_link\<close>
    extends \<open>wire_codec\<close> and is interpreted for both directions. Delivery in order;
    a cut stream gives a prefix; the size limit.
  \<^item> \<open>Cm108_Latency\<close> (\<^verbatim>\<open>cm108-server/src/latency.rs\<close>): the histogram, refined to the list
    of samples; the reported statistics are exactly those of sorting the samples.
  \<^item> \<open>Cm108_Shmem\<close> (\<^verbatim>\<open>cm108-server/src/shmem.rs\<close>, reader in \<^verbatim>\<open>cm108-client/src/client.rs\<close>):
    the sequence lock as whole operations on the 4096 bytes and as a step relation in
    which both sides copy byte by byte in any order. No torn frame, progress, and that
    the steps of a write refine the whole operation.
  \<^item> \<open>Cm108_Weakmem\<close>: the same accesses with the memory orderings the sources give them,
    performed in any order these orderings allow; a mixed frame can then be returned.
  \<^item> \<open>Cm108_Mapping\<close> (\<^verbatim>\<open>shmem.rs\<close>): creating, mapping and releasing the region over
    system calls, and \<open>held\<close>, the descriptors and mappings a sequence of calls leaves.
  \<^item> \<open>Cm108_Rt\<close> (\<^verbatim>\<open>cm108-hal/src/rt.rs\<close>): scheduling, processor affinity, memory locking.
  \<^item> \<open>Cm108_Gpio\<close> (\<^verbatim>\<open>cm108-hal/src/hid_gpio.rs\<close>): the output register, its reports, and
    the event stream of the poller. References: \<open>device_takes\<close>, the registers of the device
    after a report, and \<open>reported_registers\<close>, what a sequence of reports says.
  \<^item> \<open>Cm108_Usbfs\<close> (\<^verbatim>\<open>cm108-hal/src/usbfs.rs\<close>, \<^verbatim>\<open>device.rs\<close>): kernel structures and ioctl
    numbers, the layout they must have, the device file, and opening the device.
  \<^item> \<open>Cm108_Iso\<close> (\<^verbatim>\<open>cm108-hal/src/iso_stream.rs\<close>): URBs, the start of the two threads against the
    kernel, rounds of the RX and TX threads, sample conversion. The start refines a plan
    of system calls; no received frame is lost without being counted; the packets handed
    to the kernel are the queued frames in order. References: \<open>heard\<close>, the frame in a packet
    of the device, \<open>tx_packet\<close>, the packet of a frame, and \<open>good_packets\<close>.
  \<^item> \<open>Cm108_Ipc\<close> (\<^verbatim>\<open>cm108-server/src/ipc.rs\<close>): client registry, message dispatch, connection
    handler. The locale \<open>mailbox\<close> is the contract of a bounded queue that drops the
    newest message, interpreted for the clients' channels. Sessions execute exactly the
    messages sent, replies and changes stay with the sender, broadcasts reach the
    subscribers, connections leave no trace; the read loop, written as the loop it is
    (\<open>serve_loop\<close>), always ends.
  \<^item> \<open>Cm108_Server\<close> (\<^verbatim>\<open>cm108-server/src/server.rs\<close>): one round of each thread, and \<open>server_reach\<close>, the states reachable when the rounds of all threads, the messages of
    all clients and the USB side interleave in any order.
  \<^item> \<open>Cm108_Daemon\<close>: invariants of these states: the audio path, the latency window, the
    output register and the reports sent to the device, the registry, the queues and what
    they hold; exactly when a thread of the daemon panics; that the dispatch thread drains
    the ring; and that the events of a connection are what its handler does.
  \<^item> \<open>Cm108_Runs\<close>: the locale \<open>step_simulation\<close>, the contract by which one step relation
    behaves like a more abstract one.
  \<^item> \<open>Cm108_System\<close>: the whole daemon, the event system together with the loops of the two
    USB threads against the kernel, sharing rings and counters. \<open>step_simulation\<close> is
    interpreted on it, so that what holds of \<open>server_reach\<close> holds of the whole; audio from
    the packets of the kernel to the clients, and from the clients to the packets.
  \<^item> \<open>Cm108_Delivery\<close>: which messages an event has for which client, and that a client gets
    them in order, but for those that meet a full queue.
  \<^item> \<open>Cm108_Client\<close> (\<^verbatim>\<open>cm108-client/src/client.rs\<close>, \<^verbatim>\<open>ffi.rs\<close>): connection, requests, blocking
    and polling reads, the C functions; connecting and destroying neither leaks nor
    releases twice. The locale \<open>wait_loop\<close> is the contract of the
    loops that wait for one kind of message, interpreted for audio and statistics.
  \<^item> \<open>Cm108_Handles\<close> (\<^verbatim>\<open>ffi.rs\<close>, \<^verbatim>\<open>include/cm108.h\<close>): programs in C that call the library on raw
    pointers, over a heap of boxes: one that keeps to the header meets no undefined
    behaviour and holds exactly the resources of its live handles, and what is on the
    socket of a handle is what was asked for on it.
  \<^item> \<open>Cm108_Main\<close> (\<^verbatim>\<open>cm108-server/src/main.rs\<close>): command line and log levels.
  \<^item> \<open>Cm108_Startup\<close> (\<open>run\<close> of \<^verbatim>\<open>server.rs\<close>, \<open>main\<close>): the start of the daemon over system
    calls, file operations and thread creation, with the outcome on every failure, the
    accept loop, and the poller thread with its log.
  \<^item> \<open>Cm108_Connection\<close> (\<open>handle_client\<close> of \<^verbatim>\<open>ipc.rs\<close>): the connection handler with its system
    calls and log lines, which refines the one of \<open>Cm108_Ipc\<close> and closes what it has to
    wherever the process goes on; the handshake in which a client gets the daemon's shared region.
  \<^item> \<open>Cm108_Tests\<close>: the unit tests inside the crates and those of \<^verbatim>\<open>cm108-types/tests\<close>, as
    predicates that hold; the one with two threads over all their interleavings.
  \<^item> this theory: the paths from end to end, from a call of the client library to the
    device's output register, from a program in C to the same register, from the HID
    reports to the events a client reads, and from a received frame to a client that reads
    late.

  \<^bold>\<open>Conventions.\<close> Structs are records and enums datatypes under the names of the source;
  unsigned integers are words, so arithmetic wraps, and where the source uses checked
  arithmetic of the debug profile the operation takes the profile and may panic.
  Errors are sums, a panic is \<open>Panics\<close>, a poisoned mutex a flag. Mutable objects are
  passed and returned. Time and the results of USB transfers are arguments, the kernel
  is one that answers system calls, the file system one that answers file operations;
  whether a thread can be created is an argument, too. The crates \<open>rusb\<close>, \<open>rtrb\<close> and \<open>libc\<close>
  are parameters; what is used of the ring buffer is the hypothesis \<open>ring_fifo\<close> (a bounded
  queue, first in first out), with a list as a concrete instance, of the processor
  sets of \<open>libc\<close> the hypothesis \<open>cpu_lib_ok\<close>, of the allocator \<open>fresh_alloc\<close>, and of the
  kernel's passing of descriptors \<open>one_descriptor\<close> and \<open>hands_over\<close>.

  \<^bold>\<open>Fuel.\<close> The read loops take fuel for the number of reads. A message takes at least four
  bytes, so one more than the number of bytes is always enough (\<open>read_loop_enough\<close>), and
  that is what \<open>handle_client\<close> is given. The client's waiting loops take the number of
  messages as fuel; with more than there are messages they return
  (\<open>first_wanted\<close>, \<open>none_wanted\<close>).

  \<^bold>\<open>Granularity and limits.\<close> In \<open>server_reach\<close> a round of a thread is one step, as is
  one message of a client and, in \<open>Cm108_System\<close>, an iteration of a USB thread; inside the
  shared region the steps are single bytes.
  \<open>Cm108_Shmem\<close> is the sequentially consistent case, \<open>Cm108_Weakmem\<close> allows the
  reorderings of the acquire and release orderings. The registry's lock, taken once for each message sent to
  the clients, is so held for a whole round of the dispatch or poller thread.

  \<^bold>\<open>Panics.\<close> The release profile is built with \<^verbatim>\<open>panic = "abort"\<close> (\<^verbatim>\<open>src/Cargo.toml\<close>): a panic of any
  thread ends the daemon, and the step that does it is \<open>Panics\<close>. In a debug build it
  unwinds the one thread: a handler that panics is gone, with its registration left in the
  registry and the mutex it held poisoned, as is one whose writer thread cannot be
  started. \<open>thread_panic\<close> makes this distinction; \<open>daemon_panics_exactly\<close> says when it is
  made.

  \<^bold>\<open>Counters.\<close> The counters of the sequence
  lock and of client ids are 64 bits wide and wrap; where a statement needs that they
  have not wrapped, it says so. A run of the daemon has fewer than $2^{64} - 1$ connections.

  \<^bold>\<open>Not modelled:\<close> the messages the standard library prints when a thread panics; the
  two information lines logged while the device is opened (\<^verbatim>\<open>device.rs\<close>); the repetition of
  calls interrupted by a signal, which the standard library does itself; use of one
  handle of the C interface by several threads at once, which the header excludes; the
  examples, which no package builds and which do not agree with the interfaces they call;
  and packaging.
\<close>

section \<open>Client calls\<close>

text \<open>The requests of the client library, and the messages they send.\<close>

datatype api_call =
    CallSubscribe StreamFlags
  | CallPtt bool
  | CallGpio u8 bool
  | CallAudio "AudioFrame list"
  | CallPing

fun do_call :: "api_call \<Rightarrow> client \<Rightarrow> (ClientError + unit) \<times> client" where
  "do_call (CallSubscribe fl) = subscribe fl"
| "do_call (CallPtt on) = set_ptt on"
| "do_call (CallGpio n high) = set_gpio n high"
| "do_call (CallAudio fs) = write_audio fs"
| "do_call CallPing = ping"

definition do_calls :: "api_call list \<Rightarrow> client \<Rightarrow> client" where
  "do_calls calls c = fold (\<lambda>call c. snd (do_call call c)) calls c"

fun call_msgs :: "api_call \<Rightarrow> ClientMsg list" where
  "call_msgs (CallSubscribe fl) = [Subscribe fl]"
| "call_msgs (CallPtt on) = [SetGpio 0 on]"
| "call_msgs (CallGpio n high) = [SetGpio n high]"
| "call_msgs (CallAudio fs) = (if fs = [] then [] else [AudioWrite fs])"
| "call_msgs CallPing = [Ping]"

text \<open>Calls the protocol can carry: defined subscription bits, complete frames, at most
  341 of them.\<close>

fun call_ok :: "api_call \<Rightarrow> bool" where
  "call_ok (CallSubscribe fl) = client_msg_ok (Subscribe fl)"
| "call_ok (CallAudio fs) = (list_all frame_ok fs \<and> length fs \<le> 341)"
| "call_ok _ = True"

fun pin_requests :: "ClientMsg list \<Rightarrow> (u8 \<times> bool) list" where
  "pin_requests [] = []"
| "pin_requests (SetGpio n high # ms) = (n mod 8, high) # pin_requests ms"
| "pin_requests (_ # ms) = pin_requests ms"

text \<open>Reports sent for pin requests: one for each, and when its transfer succeeds the device's
  direction register is the daemon's and each bit of its output register has the level
  last asked for up to here (before any request, the level in the daemon's register \<open>g\<close>),
  whatever the registers held before; a transfer that fails leaves them.\<close>

definition device_follows :: "write_control \<Rightarrow> HidGpio \<Rightarrow> (u8 \<times> bool) list \<Rightarrow> ctl_request list \<Rightarrow> bool" where
  "device_follows wc g reqs reports \<longleftrightarrow>
     length reports = length reqs \<and>
     (\<forall>regs k. k < length reports \<longrightarrow>
        (let before = foldl (device_takes wc) regs (take k reports);
             after = foldl (device_takes wc) regs (take (Suc k) reports)
         in case wc (reports ! k) of
              Inl e \<Rightarrow> after = before
            | Inr n \<Rightarrow> snd after = gpio_dir g \<and>
                (\<forall>b<8. bit (fst after) b = last_level b (bit (gpio_out g) b) (take (Suc k) reqs))))"

text \<open>The poller and the writer thread of client \<open>cid\<close>: \<open>Some r\<close> is a poll that saw \<open>r\<close>,
  \<open>None\<close> the writer thread sending the next message of the queue, if there is one. The
  writer keeps up when no poll finds more than 125 messages waiting.\<close>

definition waiting :: "ClientId \<Rightarrow> 'r server \<Rightarrow> ServerMsg list" where
  "waiting cid s = (case clients (registry (ctx s)) cid of None \<Rightarrow> [] | Some h \<Rightarrow> queued (h_sender h))"

fun poll_and_send :: "profile \<Rightarrow> ClientId \<Rightarrow> (RusbError + bytes) option list \<Rightarrow> 'r server \<Rightarrow> out_stream
    \<Rightarrow> ('r server \<times> out_stream) outcome" where
  "poll_and_send p cid [] s t = Returns (s, t)"
| "poll_and_send p cid (Some r # es) s t = obind (gpio_round p r s) (\<lambda>(s', _). poll_and_send p cid es s' t)"
| "poll_and_send p cid (None # es) s t =
     poll_and_send p cid es (on_channel cid (\<lambda>c. c\<lparr>queued := tl (queued c)\<rparr>) s)
       (snd (write_seq write_msg (take 1 (waiting cid s)) t))"

fun keeps_up :: "profile \<Rightarrow> ClientId \<Rightarrow> (RusbError + bytes) option list \<Rightarrow> 'r server \<Rightarrow> bool" where
  "keeps_up p cid [] s = True"
| "keeps_up p cid (Some r # es) s =
     (length (waiting cid s) \<le> 125 \<and>
      (case gpio_round p r s of Returns (s', _) \<Rightarrow> keeps_up p cid es s' | Panics \<Rightarrow> False))"
| "keeps_up p cid (None # es) s = keeps_up p cid es (on_channel cid (\<lambda>c. c\<lparr>queued := tl (queued c)\<rparr>) s)"

definition polled :: "(RusbError + bytes) option list \<Rightarrow> (RusbError + bytes) list" where
  "polled es = map the (filter (\<lambda>e. e \<noteq> None) es)"

text \<open>Repeated blocking reads; \<open>snaps\<close> is what the shared region holds while they run.\<close>

fun read_frames :: "nat \<Rightarrow> bytes list \<Rightarrow> client \<Rightarrow> (ClientError + AudioFrame) list option" where
  "read_frames 0 snaps c = Some []"
| "read_frames (Suc n) snaps c =
     (case read_audio_blocking 1 snaps c of
        None \<Rightarrow> None
      | Some (res, c') \<Rightarrow> map_option (\<lambda>rs. res # rs) (read_frames n snaps c'))"

section \<open>Lemmas\<close>

lemma do_call_sends:
  assumes "out_limit (to_srv c) = None"
  shows "to_srv (snd (do_call call c)) =
    (to_srv c)\<lparr>outp := outp (to_srv c) @ to_server.wire (call_msgs call)\<rparr>"
  using assms
  by (cases call) (simp_all add: subscribe_def set_ptt_def set_gpio_def write_audio_def ping_def
      client_send_def write_framed)

lemma do_calls_send:
  assumes "out_limit (to_srv c) = None"
  shows "to_srv (do_calls calls c) =
    (to_srv c)\<lparr>outp := outp (to_srv c) @ to_server.wire (concat (map call_msgs calls))\<rparr>"
  using assms
proof (induction calls arbitrary: c)
  case Nil
  then show ?case by (simp add: do_calls_def)
next
  case (Cons call calls)
  have "out_limit (to_srv (snd (do_call call c))) = None"
    using do_call_sends [OF Cons.prems, of call] Cons.prems by simp
  from Cons.IH [OF this] do_call_sends [OF Cons.prems, of call] show ?case
    by (simp add: do_calls_def)
qed

lemma call_msgs_ok:
  assumes "call_ok call"
  shows "list_all client_msg_ok (call_msgs call)" "list_all (fits_frame encode_ClientMsg) (call_msgs call)"
  using assms by (cases call; auto simp: fits_client_msg fits_client_small)+

lemma calls_ok:
  assumes "list_all call_ok calls"
  shows "list_all client_msg_ok (concat (map call_msgs calls))"
    "list_all (fits_frame encode_ClientMsg) (concat (map call_msgs calls))"
  using assms call_msgs_ok by (induction calls; auto simp: list_all_append)+

lemma device_follows_Nil: "device_follows wc g [] []"
  by (simp add: device_follows_def)

lemma device_follows_Cons:
  assumes one: "set_pin p wc g n high = Returns (g', req, res)" and rest: "device_follows wc g' reqs reports"
  shows "device_follows wc g ((n mod 8, high) # reqs) (req # reports)"
proof -
  have lv: "last_level b (bit (gpio_out g) b) ((n mod 8, high) # ops) = last_level b (bit (gpio_out g') b) ops"
    if "b < 8" for b ops
    using set_pin_effect(1) [OF one that] by (auto simp: unat_mod_8)
  have "case wc ((req # reports) ! k) of
      Inl e \<Rightarrow> foldl (device_takes wc) regs (take (Suc k) (req # reports)) = foldl (device_takes wc) regs (take k (req # reports))
    | Inr m \<Rightarrow> snd (foldl (device_takes wc) regs (take (Suc k) (req # reports))) = gpio_dir g \<and>
        (\<forall>b<8. bit (fst (foldl (device_takes wc) regs (take (Suc k) (req # reports)))) b =
           last_level b (bit (gpio_out g) b) (take (Suc k) ((n mod 8, high) # reqs)))"
    if "k < length (req # reports)" for regs k
  proof (cases k)
    case 0
    with set_pin_device [OF one, of regs] lv show ?thesis by (simp del: last_level.simps(2) split: sum.split)
  next
    case (Suc j)
    with that rest [unfolded device_follows_def Let_def, THEN conjunct2, rule_format, of j "device_takes wc regs req"]
      set_pin_effect(2) [OF one] lv
    show ?thesis by (simp del: last_level.simps(2) split: sum.splits)
  qed
  moreover have "length (req # reports) = length ((n mod 8, high) # reqs)" using rest by (simp add: device_follows_def)
  ultimately show ?thesis unfolding device_follows_def Let_def by blast
qed

text \<open>The registers at the end, when the last report gets through.\<close>

lemma device_follows_end:
  assumes "device_follows wc g reqs reports" "reports \<noteq> []" "wc (last reports) = Inr n"
  shows "snd (foldl (device_takes wc) regs reports) = gpio_dir g"
    "b < 8 \<Longrightarrow> bit (fst (foldl (device_takes wc) regs reports)) b = last_level b (bit (gpio_out g) b) reqs"
proof -
  have len: "length reports = length reqs" using assms(1) by (simp add: device_follows_def)
  obtain j where j: "length reports = Suc j" using assms(2) by (cases reports) auto
  then have k: "length reports - 1 < length reports" "reports ! (length reports - 1) = last reports"
    "take (Suc (length reports - 1)) reports = reports" "take (Suc (length reports - 1)) reqs = reqs"
    using len assms(2) by (simp_all add: last_conv_nth)
  from assms(1) [unfolded device_follows_def Let_def, THEN conjunct2, rule_format, OF k(1), of regs]
  show "snd (foldl (device_takes wc) regs reports) = gpio_dir g"
    "b < 8 \<Longrightarrow> bit (fst (foldl (device_takes wc) regs reports)) b = last_level b (bit (gpio_out g) b) reqs"
    unfolding k(2-4) assms(3) by simp_all
qed

lemma dispatch_seq_pins:
  assumes "\<not> poisoned (gpio c)" "dispatch_seq Release wc api clock cid ms c = (c', b)"
  shows "\<not> poisoned (gpio c') \<and> (\<forall>i<8. bit (gpio_out (guarded (gpio c'))) i =
    last_level i (bit (gpio_out (guarded (gpio c))) i) (pin_requests ms)) \<and>
    (\<exists>reports. ctl_log c' = ctl_log c @ reports \<and> device_follows wc (guarded (gpio c)) (pin_requests ms) reports)"
  using assms
proof (induction ms arbitrary: c clock)
  case Nil
  then show ?case by (simp add: device_follows_Nil)
next
  case (Cons m ms)
  obtain c1 b1 where d: "dispatch_client_msg Release wc api (clock 0) cid m c = (c1, b1)" by force
  then have "\<not> b1" using dispatch_release by (metis snd_conv)
  with d Cons.prems(2) have r: "dispatch_seq Release wc api (\<lambda>k. clock (Suc k)) cid ms c1 = (c', b)" by simp
  show ?case
  proof (cases "\<exists>n high. m = SetGpio n high")
    case True
    then obtain n high where m: "m = SetGpio n high" by blast
    with d have l: "locked_set_pin Release wc n high (c\<lparr>last_activity_ms := wall_ms (clock 0)\<rparr>) = (c1, b1)"
      by (simp add: dispatch_client_msg_def)
    obtain g req res where g: "set_pin Release wc (guarded (gpio c)) n high = Returns (g, req, res)"
      using set_pin_returns by blast
    with l Cons.prems(1) have c1: "guarded (gpio c1) = g" "ctl_log c1 = ctl_log c @ [req]" "\<not> poisoned (gpio c1)"
      by (auto simp: locked_set_pin_def)
    from Cons.IH [OF c1(3) r] c1 obtain reports where "ctl_log c' = ctl_log c @ req # reports"
      "device_follows wc g (pin_requests ms) reports" by auto
    with device_follows_Cons [OF g] m have "\<exists>reports. ctl_log c' = ctl_log c @ reports \<and>
        device_follows wc (guarded (gpio c)) (pin_requests (m # ms)) reports" by auto
    with locked_set_pin_effect [OF l] Cons.prems(1) Cons.IH [OF c1(3) r] m show ?thesis
      by (auto simp: unat_mod_8)
  next
    case False
    with dispatch_frame(3,5) [OF d] have "gpio c1 = gpio c" "ctl_log c1 = ctl_log c" by blast+
    moreover have "pin_requests (m # ms) = pin_requests ms" using False by (cases m) auto
    ultimately show ?thesis using Cons.IH [OF _ r] Cons.prems(1) by simp
  qed
qed

lemma wire_executed:
  assumes "list_all client_msg_ok ms" "list_all (fits_frame encode_ClientMsg) ms" "\<not> poisoned (gpio cx)"
  shows "\<exists>cx2 reports. dispatch_seq Release wc api clock (fst (allocate_id (registry cx))) ms (connected cx) = (cx2, False) \<and>
    handle_client Release wc api clock True True True \<lparr>inp = to_server.wire ms, in_end = None\<rparr> cx =
      Returns (cx2\<lparr>registry := unregister (fst (allocate_id (registry cx))) (registry cx2)\<rparr>, False) \<and>
    (\<forall>b<8. bit (gpio_out (guarded (gpio cx2))) b =
      last_level b (bit (gpio_out (guarded (gpio cx))) b) (pin_requests ms)) \<and>
    ctl_log cx2 = ctl_log cx @ reports \<and> device_follows wc (guarded (gpio cx)) (pin_requests ms) reports \<and>
    (\<forall>regs n b. reports \<noteq> [] \<and> wc (last reports) = Inr n \<and> b < 8 \<longrightarrow>
      bit (fst (foldl (device_takes wc) regs reports)) b =
        last_level b (bit (gpio_out (guarded (gpio cx))) b) (pin_requests ms))"
proof -
  have w: "write_seq write_client_msg ms \<lparr>outp = [], out_limit = None\<rparr> =
      (Inr (), \<lparr>outp = to_server.wire ms, out_limit = None\<rparr>)"
    by (simp add: to_server.write_seq_appends)
  obtain cx2 where d: "dispatch_seq Release wc api clock (fst (allocate_id (registry cx))) ms (connected cx) = (cx2, False)"
    "handle_client Release wc api clock True True True \<lparr>inp = to_server.wire ms, in_end = None\<rparr> cx =
       Returns (cx2\<lparr>registry := unregister (fst (allocate_id (registry cx))) (registry cx2)\<rparr>, False)"
    using handle_client_sent [OF assms(1,2) w, of Release wc api clock cx] by auto
  have "gpio (connected cx) = gpio cx" "ctl_log (connected cx) = ctl_log cx" by (simp_all add: connected_def)
  with dispatch_seq_pins [OF _ d(1)] assms(3) obtain reports where
    "\<forall>b<8. bit (gpio_out (guarded (gpio cx2))) b = last_level b (bit (gpio_out (guarded (gpio cx))) b) (pin_requests ms)"
    "ctl_log cx2 = ctl_log cx @ reports" "device_follows wc (guarded (gpio cx)) (pin_requests ms) reports" by auto
  with d device_follows_end(2) show ?thesis by blast
qed

lemma poll_round_few: "poll_round p prev r = Returns (g, evs, d) \<Longrightarrow> length evs \<le> 3"
  by (auto simp: poll_round_def gpio_events_eq split: sum.splits option.splits if_splits)

text \<open>While the writer keeps up, what is on the stream and what waits are the events so far.\<close>

lemma poll_and_send_events:
  assumes "clients (registry (ctx s)) cid = Some h" "contains (h_streams h) GPIO_EVENTS" "receiver_alive (h_sender h)"
    "keeps_up p cid es s" "out_limit t = None"
  shows "\<exists>s' t' h' evs. poll_and_send p cid es s t = Returns (s', t') \<and> clients (registry (ctx s')) cid = Some h' \<and>
    out_limit t' = None \<and> poll_rounds p (prev_gpio s) (polled es) = Returns (prev_gpio s', evs) \<and>
    outp t' @ to_client.wire (queued (h_sender h')) = outp t @ to_client.wire (queued (h_sender h) @ map RadioEv evs)"
  using assms
proof (induction p cid es s t arbitrary: h rule: poll_and_send.induct)
  case (1 p cid s t)
  then show ?case by (simp add: polled_def)
next
  case (2 p cid r es s t)
  obtain g evs d where one: "poll_round p (prev_gpio s) r = Returns (g, evs, d)" using poll_round_follow by blast
  let ?s1 = "s\<lparr>ctx := (ctx s)\<lparr>registry := fold broadcast_radio_event evs (registry (ctx s))\<rparr>, prev_gpio := g\<rparr>"
  let ?h1 = "h\<lparr>h_sender := fold try_send (map RadioEv evs) (h_sender h)\<rparr>"
  have r: "gpio_round p r s = Returns (?s1, d)" using gpio_round_poll [OF one] .
  have room: "length (queued (h_sender h)) \<le> 125" using "2.prems"(1,4) by (simp add: waiting_def)
  then have q: "queued (h_sender ?h1) = queued (h_sender h) @ map RadioEv evs" "receiver_alive (h_sender ?h1)"
    using chan.put_all [of "h_sender h" "map RadioEv evs"] chan.put_all_live [of "map RadioEv evs" "h_sender h"]
      poll_round_few [OF one] "2.prems"(3) by (simp_all add: CHANNEL_BOUND_def)
  have "clients (registry (ctx ?s1)) cid = Some ?h1" using "2.prems"(1,2) by (simp add: fold_broadcast)
  from "2.IH" [OF this _ q(2)] "2.prems"(2,4,5) r obtain s' t' h' evs' where
    "poll_and_send p cid es ?s1 t = Returns (s', t')" "clients (registry (ctx s')) cid = Some h'" "out_limit t' = None"
    "poll_rounds p g (polled es) = Returns (prev_gpio s', evs')"
    "outp t' @ to_client.wire (queued (h_sender h')) = outp t @ to_client.wire (queued (h_sender ?h1) @ map RadioEv evs')"
    by auto
  with r one q(1) show ?case by (simp add: polled_def)
next
  case (3 p cid es s t)
  let ?s1 = "on_channel cid (\<lambda>c. c\<lparr>queued := tl (queued c)\<rparr>) s"
  let ?t1 = "snd (write_seq write_msg (take 1 (waiting cid s)) t)"
  let ?h1 = "h\<lparr>h_sender := (h_sender h)\<lparr>queued := tl (queued (h_sender h))\<rparr>\<rparr>"
  have c: "clients (registry (ctx ?s1)) cid = Some ?h1" "prev_gpio ?s1 = prev_gpio s"
    using "3.prems"(1) by (simp_all add: on_channel_def)
  have t: "?t1 = t\<lparr>outp := outp t @ to_client.wire (take 1 (queued (h_sender h)))\<rparr>"
    using "3.prems"(1,5) by (simp add: to_client.write_seq_appends waiting_def)
  have "to_client.wire (queued (h_sender h)) = to_client.wire (take 1 (queued (h_sender h))) @ to_client.wire (tl (queued (h_sender h)))"
    by (cases "queued (h_sender h)") simp_all
  with "3.IH" [OF c(1)] "3.prems"(2-5) c(2) t show ?case by (simp add: polled_def)
qed

lemma radio_event_fits: "fits_frame encode_ServerMsg (RadioEv ev)"
  by (cases ev) (simp_all add: fits_frame_def to_vec_def push_u8_def encode_GpioState_def)

section \<open>Properties\<close>

text \<open>C1: From the client library to the device. A client makes any sequence of calls the
  protocol can carry; the bytes this puts on the socket, read by the daemon's connection
  handler in a release build, are executed as exactly these requests in their order; the
  handler ends normally and the registration is removed. For each pin request one report
  is sent to the device, in order, and each one the device takes sets every bit of its
  output register to the level the client last asked for up to there (pin numbers modulo
  eight) or, if it asked for none, the level it had in the daemon's register. So when the
  transfer of the last report succeeds, the device's output register ends at the levels
  last asked for, whatever it held and whichever of the other transfers failed; and the
  daemon's own register has these levels.\<close>

theorem client_calls_reach_device:
  assumes "list_all call_ok calls" and "to_srv c = \<lparr>outp = [], out_limit = None\<rparr>"
    and "\<not> poisoned (gpio cx)"
  shows "\<exists>cx2 reports. dispatch_seq Release wc api clock (fst (allocate_id (registry cx)))
      (concat (map call_msgs calls)) (connected cx) = (cx2, False) \<and>
    handle_client Release wc api clock True True True
      \<lparr>inp = outp (to_srv (do_calls calls c)), in_end = None\<rparr> cx =
      Returns (cx2\<lparr>registry := unregister (fst (allocate_id (registry cx))) (registry cx2)\<rparr>, False) \<and>
    (\<forall>b<8. bit (gpio_out (guarded (gpio cx2))) b =
      last_level b (bit (gpio_out (guarded (gpio cx))) b) (pin_requests (concat (map call_msgs calls)))) \<and>
    ctl_log cx2 = ctl_log cx @ reports \<and>
    device_follows wc (guarded (gpio cx)) (pin_requests (concat (map call_msgs calls))) reports \<and>
    (\<forall>regs n b. reports \<noteq> [] \<and> wc (last reports) = Inr n \<and> b < 8 \<longrightarrow>
      bit (fst (foldl (device_takes wc) regs reports)) b =
        last_level b (bit (gpio_out (guarded (gpio cx))) b) (pin_requests (concat (map call_msgs calls))))"
proof -
  have "outp (to_srv (do_calls calls c)) = to_server.wire (concat (map call_msgs calls))"
    using do_calls_send [of c calls] assms(2) by simp
  with wire_executed [OF calls_ok [OF assms(1)] assms(3)] show ?thesis by simp
qed

theorem client_calls_reach_device_witness:
  "\<exists>cx2 reports. handle_client Release (\<lambda>_. Inr 4) list_ring (\<lambda>_. None) True True True
      \<lparr>inp = outp (to_srv (do_calls [CallPing, CallPtt True] (demo_client_on [] []))), in_end = None\<rparr> demo_ctx =
      Returns (cx2\<lparr>registry := unregister (fst (allocate_id (registry demo_ctx))) (registry cx2)\<rparr>, False) \<and>
    ctl_log cx2 = reports \<and> length reports = 1 \<and> bit (fst (foldl (device_takes (\<lambda>_. Inr 4)) (0, 0) reports)) 0"
proof -
  have "list_all call_ok [CallPing, CallPtt True]" by simp
  moreover have "to_srv (demo_client_on [] []) = \<lparr>outp = [], out_limit = None\<rparr>" by (simp add: demo_client_on_def)
  moreover have "\<not> poisoned (gpio demo_ctx)" by (simp add: demo_ctx_def)
  ultimately obtain cx2 reports where r: "handle_client Release (\<lambda>_. Inr 4) list_ring (\<lambda>_. None) True True True
      \<lparr>inp = outp (to_srv (do_calls [CallPing, CallPtt True] (demo_client_on [] []))), in_end = None\<rparr> demo_ctx =
      Returns (cx2\<lparr>registry := unregister (fst (allocate_id (registry demo_ctx))) (registry cx2)\<rparr>, False)"
    "ctl_log cx2 = ctl_log demo_ctx @ reports"
    "device_follows (\<lambda>_. Inr 4) (guarded (gpio demo_ctx)) (pin_requests (concat (map call_msgs [CallPing, CallPtt True]))) reports"
    "\<And>regs n b. reports \<noteq> [] \<and> Inr 4 = (Inr n :: RusbError + nat) \<and> b < 8 \<longrightarrow>
       bit (fst (foldl (device_takes (\<lambda>_. Inr 4)) regs reports)) b = last_level b (bit (gpio_out (guarded (gpio demo_ctx))) b)
         (pin_requests (concat (map call_msgs [CallPing, CallPtt True])))"
    using client_calls_reach_device [of "[CallPing, CallPtt True]" "demo_client_on [] []" demo_ctx
        "\<lambda>_. Inr 4" list_ring "\<lambda>_. None"] by blast
  have len: "length reports = 1" using r(3) by (simp add: device_follows_def)
  with r(4) [of 4 0 "(0, 0)"] have "bit (fst (foldl (device_takes (\<lambda>_. Inr 4)) (0, 0) reports)) 0" by auto
  moreover have "ctl_log cx2 = reports" using r(2) by (simp add: demo_ctx_def)
  ultimately show ?thesis using r(1) len by blast
qed

text \<open>C2: From a program in C to the device. Let a program in C run, with any number of
  handles, in any order of calls on them, and with handles destroyed and addresses used
  again. What is on the socket of each of its live handles is, framed and in order, what
  the program asked for on this handle since it got it, whatever it did with others; the
  daemon executes exactly these requests and sends one report to the device for each pin
  request, and each one the device takes sets every bit of its output register to the
  level last asked for up to there: when the transfer of the last one succeeds, the
  device's output register ends at the levels last asked for.\<close>

theorem c_program_reaches_device:
  assumes "c_exec k alloc prog env n [] \<lparr>boxed = Map.empty, cproc = ps\<rparr> = Reached hist st"
    and "\<And>hs. to_srv (new_stream (env hs)) = \<lparr>outp = [], out_limit = None\<rparr>"
    and "boxed st h = Some c" and "h \<noteq> 0" and "\<not> poisoned (gpio cx)"
  shows "outp (to_srv c) = concat (map (to_framed encode_ClientMsg) (requests h hist)) \<and>
    (\<exists>cx2 reports. dispatch_seq Release wc api clock (fst (allocate_id (registry cx))) (requests h hist) (connected cx) = (cx2, False) \<and>
    handle_client Release wc api clock True True True \<lparr>inp = outp (to_srv c), in_end = None\<rparr> cx =
      Returns (cx2\<lparr>registry := unregister (fst (allocate_id (registry cx))) (registry cx2)\<rparr>, False) \<and>
    (\<forall>b<8. bit (gpio_out (guarded (gpio cx2))) b =
      last_level b (bit (gpio_out (guarded (gpio cx))) b) (pin_requests (requests h hist))) \<and>
    ctl_log cx2 = ctl_log cx @ reports \<and>
    device_follows wc (guarded (gpio cx)) (pin_requests (requests h hist)) reports \<and>
    (\<forall>regs n b. reports \<noteq> [] \<and> wc (last reports) = Inr n \<and> b < 8 \<longrightarrow>
      bit (fst (foldl (device_takes wc) regs reports)) b =
        last_level b (bit (gpio_out (guarded (gpio cx))) b) (pin_requests (requests h hist))))"
proof -
  have "on_wire c (requests h hist)"
    by (rule c_exec_wire [where env = env, OF _ assms(1) _ assms(4,3)]) (use assms(2) in \<open>simp_all add: on_wire_def\<close>)
  then have "outp (to_srv c) = to_server.wire (requests h hist)" by (simp add: on_wire_def)
  with wire_executed [OF requests_carried assms(5)] show ?thesis by simp
qed

theorem c_program_reaches_device_witness:
  "\<exists>hist st c cx2. c_exec obliging_kernel three_boxes key_once (\<lambda>_. quiet_env) 2 []
       \<lparr>boxed = Map.empty, cproc = \<lparr>trace = [], stderr = [], log_level = 2\<rparr>\<rparr> = Reached hist st \<and>
     boxed st 16 = Some c \<and> outp (to_srv c) = concat (map (to_framed encode_ClientMsg) [SetGpio 0 True]) \<and>
     handle_client Release (\<lambda>_. Inr 4) list_ring (\<lambda>_. None) True True True \<lparr>inp = outp (to_srv c), in_end = None\<rparr> demo_ctx =
       Returns (cx2, False) \<and> bit (fst (foldl (device_takes (\<lambda>_. Inr 4)) (0, 0) (ctl_log cx2))) 0"
proof -
  have "\<not> (1 :: i32) <s 0" "\<not> (3 :: i32) <s 0" "\<not> (4 :: i32) <s 0" "utf8_valid (str ''s'')"
    by (simp_all add: word_sless_alt str_def)
  then have "\<exists>hist st. c_exec obliging_kernel three_boxes key_once (\<lambda>_. quiet_env) 2 []
      \<lparr>boxed = Map.empty, cproc = \<lparr>trace = [], stderr = [], log_level = 2\<rparr>\<rparr> = Reached hist st \<and>
      boxed st 16 \<noteq> None \<and> requests 16 hist = [SetGpio 0 True]"
    by (simp add: key_once_run)
  then obtain hist st c where r: "c_exec obliging_kernel three_boxes key_once (\<lambda>_. quiet_env) 2 []
      \<lparr>boxed = Map.empty, cproc = \<lparr>trace = [], stderr = [], log_level = 2\<rparr>\<rparr> = Reached hist st"
      "boxed st 16 = Some c" "requests 16 hist = [SetGpio 0 True]" by blast
  have q: "\<And>hs. to_srv (new_stream quiet_env) = \<lparr>outp = [], out_limit = None\<rparr>" "(16 :: u64) \<noteq> 0" "\<not> poisoned (gpio demo_ctx)"
    by (simp_all add: quiet_env_def demo_client_on_def demo_ctx_def)
  obtain cx2 reports where c: "outp (to_srv c) = concat (map (to_framed encode_ClientMsg) [SetGpio 0 True])"
    "handle_client Release (\<lambda>_. Inr 4) list_ring (\<lambda>_. None) True True True \<lparr>inp = outp (to_srv c), in_end = None\<rparr> demo_ctx =
      Returns (cx2\<lparr>registry := unregister (fst (allocate_id (registry demo_ctx))) (registry cx2)\<rparr>, False)"
    "ctl_log cx2 = ctl_log demo_ctx @ reports"
    "device_follows (\<lambda>_. Inr 4) (guarded (gpio demo_ctx)) (pin_requests [SetGpio 0 True]) reports"
    "\<And>regs n b. reports \<noteq> [] \<and> Inr 4 = (Inr n :: RusbError + nat) \<and> b < 8 \<longrightarrow>
       bit (fst (foldl (device_takes (\<lambda>_. Inr 4)) regs reports)) b =
         last_level b (bit (gpio_out (guarded (gpio demo_ctx))) b) (pin_requests [SetGpio 0 True])"
    using c_program_reaches_device [OF r(1) q(1) r(2) q(2,3), of "\<lambda>_. Inr 4" list_ring "\<lambda>_. None"] unfolding r(3) by blast
  have "length reports = 1" using c(4) by (simp add: device_follows_def)
  with c(5) [of 4 0 "(0, 0)"] have "bit (fst (foldl (device_takes (\<lambda>_. Inr 4)) (0, 0) reports)) 0" by auto
  moreover have "ctl_log demo_ctx = []" by (simp add: demo_ctx_def)
  ultimately show ?thesis using r(1,2) c(1-3)
    by (intro exI [of _ hist] exI [of _ st] exI [of _ c]
        exI [of _ "cx2\<lparr>registry := unregister (fst (allocate_id (registry demo_ctx))) (registry cx2)\<rparr>"]) simp
qed

text \<open>C14: From the device to a client. Let the poller see any sequence of reports, timeouts
  and errors, and let the writer thread of a client that subscribed to radio events, is
  connected and had nothing queued send queued messages at any times in between, so often
  that no poll finds more than 125 of them waiting. What the client reads from its socket
  once the queue is empty are radio events, and they follow the reports: the registers it
  is told are, in order, the second bytes of the reports (zero where a report is shorter)
  without immediate repetitions, starting from the register known before; key-down and
  key-up alternate and end at bit 0 of the last report, carrier up and down alternate and
  end at its bit 1, and the last register told is the last one reported.\<close>

theorem gpio_events_reach_client:
  assumes "clients (registry (ctx s)) cid = Some h"
    and "contains (h_streams h) GPIO_EVENTS" and "h_sender h = sync_channel" and "keeps_up p cid es s"
  shows "\<exists>s' t h' t' evs. poll_and_send p cid es s \<lparr>outp = [], out_limit = None\<rparr> = Returns (s', t) \<and>
    clients (registry (ctx s')) cid = Some h' \<and> writer_thread (h_sender h') t = (Inr (), t') \<and>
    fst (read_loop read_server_msg (Suc (length evs)) \<lparr>inp = outp t', in_end = None\<rparr>) = map RadioEv evs \<and>
    gpio_bits (prev_gpio s) # told_registers evs = remdups_adj (gpio_bits (prev_gpio s) # reported_registers (polled es)) \<and>
    follow_ptt (bit (gpio_bits (prev_gpio s)) 0) evs =
      Some (bit (last (gpio_bits (prev_gpio s) # reported_registers (polled es))) 0) \<and>
    follow_cos (bit (gpio_bits (prev_gpio s)) 1) evs =
      Some (bit (last (gpio_bits (prev_gpio s) # reported_registers (polled es))) 1) \<and>
    gpio_bits (follow_state (prev_gpio s) evs) = last (gpio_bits (prev_gpio s) # reported_registers (polled es))"
proof -
  let ?t0 = "\<lparr>outp = [], out_limit = None\<rparr> :: out_stream"
  obtain s' t h' evs where run: "poll_and_send p cid es s ?t0 = Returns (s', t)" "clients (registry (ctx s')) cid = Some h'"
    "out_limit t = None" "poll_rounds p (prev_gpio s) (polled es) = Returns (prev_gpio s', evs)"
    "outp t @ to_client.wire (queued (h_sender h')) = to_client.wire (map RadioEv evs)"
    using poll_and_send_events [OF assms(1,2) _ assms(4), of ?t0] assms(3) by (auto simp: sync_channel_def)
  have ok: "list_all server_msg_ok (map RadioEv evs)" "list_all (fits_frame encode_ServerMsg) (map RadioEv evs)"
    by (auto simp: list_all_iff radio_event_fits)
  have "writer_thread (h_sender h') t = (Inr (), t\<lparr>outp := to_client.wire (map RadioEv evs)\<rparr>)"
    using to_client.write_seq_appends [OF run(3)] run(5) by (simp add: writer_thread_def)
  moreover have "fst (read_loop read_server_msg (Suc (length evs))
      \<lparr>inp = to_client.wire (map RadioEv evs), in_end = None\<rparr>) = map RadioEv evs"
    using to_client.read_loop_wire [OF ok] by (simp only: length_map fst_conv)
  ultimately show ?thesis
    using run(1,2) poll_rounds_follow [OF run(4)] poll_rounds_told [OF run(4)]
    by (intro exI [of _ s'] exI [of _ t] exI [of _ h'] exI [of _ "t\<lparr>outp := to_client.wire (map RadioEv evs)\<rparr>"] exI [of _ evs])
      (simp del: read_loop.simps remdups_adj.simps last.simps)
qed

theorem gpio_events_reach_client_witness:
  "\<exists>s' t h' t' evs. poll_and_send Debug 1 [Some (Inl Timeout), Some (Inr [0, 2, 0, 0]), None, Some (Inr [0, 3, 0, 0])]
      (demo_server0\<lparr>ctx := demo_ctx\<rparr>) \<lparr>outp = [], out_limit = None\<rparr> = Returns (s', t) \<and>
    clients (registry (ctx s')) 1 = Some h' \<and> writer_thread (h_sender h') t = (Inr (), t') \<and>
    fst (read_loop read_server_msg (Suc (length evs)) \<lparr>inp = outp t', in_end = None\<rparr>) = map RadioEv evs \<and>
    told_registers evs = [2, 3] \<and> follow_ptt False evs = Some True \<and> follow_cos False evs = Some True"
proof -
  let ?s = "demo_server0\<lparr>ctx := demo_ctx\<rparr>"
  let ?es = "[Some (Inl Timeout), Some (Inr [0, 2, 0, 0]), None, Some (Inr [0, 3, 0, 0])] :: (RusbError + bytes) option list"
  have h: "clients (registry (ctx ?s)) 1 = Some \<lparr>h_id = 1, h_streams = GPIO_EVENTS, h_sender = sync_channel\<rparr>"
    using demo_client by (simp add: demo_ctx_def)
  have up: "keeps_up Debug 1 ?es ?s"
    using h by (simp add: gpio_round_def emit_gpio_events_def read_state_def waiting_def on_channel_def demo_server0_def
        server_init_def broadcast_radio_event_def reg_simps pin_bit sync_channel_def try_send_def CHANNEL_BOUND_def contains_def)
  have prev: "gpio_bits (prev_gpio ?s) = 0" by (simp add: demo_server0_def server_init_def)
  have rep: "reported_registers (polled ?es) = [2, 3]" by (simp add: polled_def)
  from gpio_events_reach_client [OF h _ _ up] show ?thesis unfolding prev rep
    by (simp add: contains_def del: poll_and_send.simps read_loop.simps) blast
qed

lemma read_frames_repeat:
  assumes "\<not> nonblocking c" "pending c = to_client.wire (map AudioReady sqs)" "sorted_wrt (<) (last_seq c # sqs)"
    "read_frame snaps = Some f"
  shows "read_frames (length sqs) snaps c = Some (replicate (length sqs) (Inr f))"
  using assms
proof (induction sqs arbitrary: c)
  case Nil
  then show ?case by simp
next
  case (Cons sq sqs)
  have "sendable (AudioReady sq)" by simp
  then obtain a b where r: "recv_msg c = (Inr (Some (AudioReady sq)), c\<lparr>arrived := a, coming := b\<rparr>)"
    "a @ b = to_client.wire (map AudioReady sqs)"
    using recv_msg_blocking [OF Cons.prems(1), of "AudioReady sq"] Cons.prems(2) by (auto simp: sendable_def)
  let ?c1 = "c\<lparr>arrived := a, coming := b, last_seq := sq\<rparr>"
  have "read_audio_blocking 1 snaps c = Some (Inr f, ?c1)"
    using r(1) Cons.prems(3,4) by (simp add: One_nat_def)
  moreover have "read_frames (length sqs) snaps ?c1 = Some (replicate (length sqs) (Inr f))"
    using Cons.prems r(2) by (intro Cons.IH) (simp_all add: pending_def)
  ultimately show ?case by simp
qed

text \<open>C29: What a client gets that falls behind. Let the daemon be in any reachable state and
  let a client have several audio announcements waiting. If it now reads once for each
  announcement while nothing new is published, every one of these blocking reads succeeds
  and returns the same frame, the one published last; the frames of the earlier
  announcements are gone.\<close>

theorem late_reader_repeats_frame:
  assumes "ring_fifo api contents RING_CAPACITY" and "contents rx = []" and "contents tx = []"
    and "server_reach p wc api (server_init fd (replicate SHMEM_SIZE 0) rx tx) s"
    and "\<not> nonblocking c" and "pending c = to_client.wire (map AudioReady sqs)"
    and "sorted_wrt (<) (last_seq c # sqs)"
  shows "read_frames (length sqs) [region s] c =
    Some (replicate (length sqs) (Inr (last (AudioFrame_default # dispatched s))))"
proof -
  have "read_frame_pass (region s) = Some (last (AudioFrame_default # dispatched s))"
    using reach_init_ok [where contents = contents, OF assms(4,1-3)] by (auto simp: server_ok_def audio_path_ok_def)
  then show ?thesis by (intro read_frames_repeat [OF assms(5-7)]) simp
qed

theorem late_reader_repeats_frame_witness:
  "\<exists>s. server_reach Release (\<lambda>_. Inr 4) list_ring demo_server0 s \<and>
    read_frames 2 [region s] (demo_client_on (to_client.wire (map AudioReady [2, 4])) []) =
      Some (replicate 2 (Inr AudioFrame_default))"
proof -
  obtain s where s: "server_reach Release (\<lambda>_. Inr 4) list_ring demo_server0 s" "dispatched s = [AudioFrame_default]"
    using demo_server_reach by blast
  let ?c = "demo_client_on (to_client.wire (map AudioReady [2, 4])) []"
  have c: "\<not> nonblocking ?c" "pending ?c = to_client.wire (map AudioReady [2, 4])" "sorted_wrt (<) (last_seq ?c # [2, 4])"
    by (simp_all add: demo_client_on_def pending_def)
  have two: "length [2, 4 :: u64] = 2" "last [AudioFrame_default, AudioFrame_default] = AudioFrame_default" by simp_all
  from late_reader_repeats_frame [OF list_ring_fifo refl refl s(1) [unfolded demo_server0_def] c, unfolded s(2) two] s(1)
  show ?thesis by blast
qed

end
